(* ===== verification/Prelude.thy ===== *)
theory Prelude
  imports Main "HOL-Library.Word"
begin

text \<open>
  The prelude of the development: the result type of the fallible operations, the Go string
  helpers the components share (\<open>strings.Split\<close>, \<open>strings.Trim\<close>, \<open>strings.SplitN\<close>), and
  generic lemmas on lists and maps.

  A Go operation that may return an error or panic has type \<^typ>\<open>'e + 'a\<close>: \<open>Inl\<close> carries the
  error or panic, \<open>Inr\<close> the value.
\<close>

type_synonym byte = "8 word"
type_synonym bytes = "byte list"
type_synonym ('e, 'a) result = "'e + 'a"

named_theorems go_string "characteristic equations of the Go string helpers"

subsection \<open>Results\<close>

fun bind_result :: "('e, 'a) result \<Rightarrow> ('a \<Rightarrow> ('e, 'b) result) \<Rightarrow> ('e, 'b) result" where
  "bind_result (Inl e) f = Inl e"
| "bind_result (Inr a) f = f a"

lemma bind_result_Inr_iff:
  "bind_result r f = Inr b \<longleftrightarrow> (\<exists>a. r = Inr a \<and> f a = Inr b)"
  by (cases r) auto

lemma bind_result_Inl_iff:
  "bind_result r f = Inl e \<longleftrightarrow> r = Inl e \<or> (\<exists>a. r = Inr a \<and> f a = Inl e)"
  by (cases r) auto

lemma bind_result_assoc [simp]:
  "bind_result (bind_result r f) g = bind_result r (\<lambda>a. bind_result (f a) g)"
  by (cases r) auto

text \<open>A loop that appends the results of a fallible step, and stops at its first error.\<close>

fun concat_result :: "('a \<Rightarrow> ('e, 'b list) result) \<Rightarrow> 'a list \<Rightarrow> ('e, 'b list) result" where
  "concat_result f [] = Inr []"
| "concat_result f (x # xs) =
     bind_result (f x) (\<lambda>ys. bind_result (concat_result f xs) (\<lambda>zs. Inr (ys @ zs)))"

lemma concat_result_Inr:
  "(\<And>x. x \<in> set xs \<Longrightarrow> f x = Inr (g x)) \<Longrightarrow> concat_result f xs = Inr (concat (map g xs))"
  by (induction xs) auto

subsection \<open>Go strings\<close>

text \<open>
  \<open>strings.Split\<close> with a separator of one character: \<open>n\<close> separators give \<open>n + 1\<close> pieces, the
  empty string gives one empty piece.
\<close>

fun split_on :: "'a \<Rightarrow> 'a list \<Rightarrow> 'a list list" where
  "split_on c [] = [[]]"
| "split_on c (x # xs) =
     (if x = c then [] # split_on c xs
      else (case split_on c xs of [] \<Rightarrow> [[x]] | y # ys \<Rightarrow> (x # y) # ys))"

fun join_with :: "'a \<Rightarrow> 'a list list \<Rightarrow> 'a list" where
  "join_with c [] = []"
| "join_with c [s] = s"
| "join_with c (s # t # ss) = s @ c # join_with c (t # ss)"

text \<open>\<open>strings.Trim\<close> with a cutset of one character.\<close>

definition trim_on :: "'a \<Rightarrow> 'a list \<Rightarrow> 'a list" where
  "trim_on c s = rev (dropWhile ((=) c) (rev (dropWhile ((=) c) s)))"

text \<open>\<open>strings.SplitN(s, c, 2)\<close>: the two pieces around the first \<open>c\<close>, when there is one.\<close>

definition split_first :: "'a \<Rightarrow> 'a list \<Rightarrow> ('a list \<times> 'a list) option" where
  "split_first c s =
     (if c \<in> set s then Some (takeWhile ((\<noteq>) c) s, tl (dropWhile ((\<noteq>) c) s)) else None)"

lemma split_on_not_Nil [simp]: "split_on c xs \<noteq> []"
  by (induction xs) (auto split: list.splits)

lemma join_with_split_on [go_string]: "join_with c (split_on c xs) = xs"
proof (induction xs)
  case Nil
  then show ?case by simp
next
  case (Cons x xs)
  obtain y ys where s: "split_on c xs = y # ys"
    by (cases "split_on c xs") auto
  with Cons.IH show ?case
    by (cases ys) auto
qed

lemma split_on_pieces: "s \<in> set (split_on c xs) \<Longrightarrow> c \<notin> set s"
proof (induction xs arbitrary: s)
  case Nil
  then show ?case by simp
next
  case (Cons x xs)
  obtain y ys where sp: "split_on c xs = y # ys"
    by (cases "split_on c xs") auto
  from Cons sp show ?case
    by (auto split: if_splits)
qed

lemma split_on_no_sep [go_string]: "c \<notin> set s \<Longrightarrow> split_on c s = [s]"
  by (induction s) auto

lemma split_on_append_sep [go_string]:
  "c \<notin> set s \<Longrightarrow> split_on c (s @ c # t) = s # split_on c t"
  by (induction s) auto

lemma split_on_append: "split_on c (s @ c # t) = split_on c s @ split_on c t"
proof (induction s)
  case Nil
  then show ?case by simp
next
  case (Cons x s)
  obtain y ys where "split_on c s = y # ys"
    by (cases "split_on c s") auto
  with Cons show ?case by auto
qed

lemma split_on_join_with [go_string]:
  "ss \<noteq> [] \<Longrightarrow> (\<forall>s \<in> set ss. c \<notin> set s) \<Longrightarrow> split_on c (join_with c ss) = ss"
proof (induction c ss rule: join_with.induct)
  case (1 c)
  then show ?case by simp
next
  case (2 c s)
  then show ?case by (simp add: split_on_no_sep)
next
  case (3 c s t ss)
  then show ?case by (simp add: split_on_append_sep)
qed

lemma hd_join_with: "ss \<noteq> [] \<Longrightarrow> hd ss \<noteq> [] \<Longrightarrow> hd (join_with c ss) = hd (hd ss)"
  by (cases "(c, ss)" rule: join_with.cases) auto

lemma join_with_not_Nil: "ss \<noteq> [] \<Longrightarrow> (\<forall>s \<in> set ss. s \<noteq> []) \<Longrightarrow> join_with c ss \<noteq> []"
  by (cases "(c, ss)" rule: join_with.cases) auto

lemma last_join_with:
  "ss \<noteq> [] \<Longrightarrow> (\<forall>s \<in> set ss. s \<noteq> []) \<Longrightarrow> last (join_with c ss) = last (last ss)"
proof (induction c ss rule: join_with.induct)
  case (3 c s t ss)
  then show ?case
    using join_with_not_Nil [of "t # ss" c] by simp
qed auto

lemma trim_on_id:
  assumes "s \<noteq> []" and "hd s \<noteq> c" and "last s \<noteq> c"
  shows "trim_on c s = s"
proof -
  have "dropWhile ((=) c) s = s"
    using assms(1,2) by (cases s) auto
  moreover have "dropWhile ((=) c) (rev s) = rev s"
    using assms(1,3) by (cases s rule: rev_cases) auto
  ultimately show ?thesis by (simp add: trim_on_def)
qed

lemma trim_on_Cons [simp]: "trim_on c (c # s) = trim_on c s"
  by (simp add: trim_on_def)

lemma trim_on_append_id:
  assumes "s \<noteq> []" and "hd s \<noteq> c" and "t \<noteq> []" and "last t \<noteq> c"
  shows "trim_on c (s @ t) = s @ t"
  using assms by (intro trim_on_id) auto

lemma split_first_append [go_string]:
  "c \<notin> set a \<Longrightarrow> split_first c (a @ c # b) = Some (a, b)"
  by (induction a) (auto simp: split_first_def)

lemma split_first_None [go_string]: "c \<notin> set a \<Longrightarrow> split_first c a = None"
  by (simp add: split_first_def)

lemma split_first_SomeD: "split_first c s = Some (a, b) \<Longrightarrow> s = a @ c # b \<and> c \<notin> set a"
proof (induction s arbitrary: a)
  case Nil
  then show ?case by (simp add: split_first_def)
next
  case (Cons x s)
  show ?case
  proof (cases "x = c")
    case True
    with Cons.prems show ?thesis by (auto simp: split_first_def)
  next
    case False
    with Cons.prems obtain a' where a: "a = x # a'" and "split_first c s = Some (a', b)"
      by (auto simp: split_first_def split: if_splits)
    with Cons.IH False show ?thesis by auto
  qed
qed

end
