(* ===== verification/Web_Router.thy ===== *)
theory Web_Router
  imports Prelude
begin

text \<open>
  The routing tree of \<open>homework2/route.go\<close>: \<open>node\<close>, \<open>router\<close>, \<open>addRoute\<close>, \<open>childOrCreate\<close>
  and its helpers, \<open>parseParam\<close>.

  A Go \<open>*node\<close> is owned by exactly one parent field, so the tree is a datatype: \<open>Node\<close> holds the
  scalar fields (record \<open>node_data\<close>), the static \<open>children\<close>, and the three optional children
  \<open>starChild\<close>, \<open>paramChild\<close>, \<open>regChild\<close>. A nil \<open>children\<close> map and an empty one are identified: the
  code only looks keys up in it. Handlers (\<open>'h\<close>) and middlewares (\<open>'m\<close>) are opaque here; a nil
  handler is \<open>None\<close>.

  A panic of a registration is a value of \<open>web_panic\<close>, returned beside the router as the panic
  leaves it, since the tree is updated in place before a later segment panics.

  The package \<open>regexp\<close> is used through \<open>Compile\<close>, \<open>Match\<close> and \<open>String\<close>. A compiled expression is
  represented by its source, which is what \<open>String\<close> returns; the record \<open>regexp_lib\<close> says which
  sources compile and what they match, and is an argument of the operations that use it.
\<close>

subsection \<open>Data\<close>

datatype nodeType = NodeTypeStatic | NodeTypeReg | NodeTypeParam | NodeTypeAny

record regexp_lib =
  re_compiles :: "string \<Rightarrow> bool"
  re_match :: "string \<Rightarrow> string \<Rightarrow> bool"

record ('h, 'm) node_data =
  ntyp :: nodeType
  path :: string
  handler :: "'h option"
  paramName :: string
  regExpr :: "string option"
  mws :: "'m list"

datatype ('h, 'm) node =
  Node (dat: "('h, 'm) node_data")
       (children: "string \<Rightarrow> ('h, 'm) node option")
       (starChild: "('h, 'm) node option")
       (paramChild: "('h, 'm) node option")
       (regChild: "('h, 'm) node option")

record ('h, 'm) router =
  trees :: "string \<Rightarrow> ('h, 'm) node option"

datatype web_panic =
    EmptyPath
  | NoLeadingSlash
  | TrailingSlash
  | RootConflict
  | RouteConflict string
  | IllegalRoute string
  | StarAfterParam string
  | StarAfterReg string
  | ParamAfterReg string
  | ParamAfterStar string
  | ParamConflict string string
  | RegAfterStar string
  | RegAfterParam string
  | RegConflict string string
  | BadRegexp string
  | IndexOutOfRange
  | NilDeref

definition newRouter :: "('h, 'm) router" where
  "newRouter = \<lparr>trees = (\<lambda>_. None)\<rparr>"

definition new_node :: "nodeType \<Rightarrow> string \<Rightarrow> string \<Rightarrow> string option \<Rightarrow> ('h, 'm) node" where
  "new_node t p name expr =
     Node \<lparr>ntyp = t, path = p, handler = None, paramName = name, regExpr = expr, mws = []\<rparr>
          (\<lambda>_. None) None None None"

subsection \<open>Child links\<close>

text \<open>
  \<open>childOrCreate\<close> returns a pointer to a child, which the caller then updates. Here it returns
  the link that leads to the child, and the caller writes the updated child back through it.
\<close>

datatype edge = EStatic string | EReg | EParam | EStar

fun get_child :: "('h, 'm) node \<Rightarrow> edge \<Rightarrow> ('h, 'm) node option" where
  "get_child n (EStatic s) = children n s"
| "get_child n EReg = regChild n"
| "get_child n EParam = paramChild n"
| "get_child n EStar = starChild n"

fun put_child :: "('h, 'm) node \<Rightarrow> edge \<Rightarrow> ('h, 'm) node \<Rightarrow> ('h, 'm) node" where
  "put_child (Node d ch st pa rg) (EStatic s) c = Node d (ch(s \<mapsto> c)) st pa rg"
| "put_child (Node d ch st pa rg) EReg c = Node d ch st pa (Some c)"
| "put_child (Node d ch st pa rg) EParam c = Node d ch st (Some c) rg"
| "put_child (Node d ch st pa rg) EStar c = Node d ch (Some c) pa rg"

subsection \<open>parseParam\<close>

definition parseParam :: "string \<Rightarrow> string \<times> string \<times> bool" where
  "parseParam p =
     (let q = tl p in
      case split_first (CHR ''('') q of
        Some (name, expr) \<Rightarrow>
          if expr \<noteq> [] \<and> last expr = CHR '')'' then (name, butlast expr, True)
          else (q, [], False)
      | None \<Rightarrow> (q, [], False))"

subsection \<open>childOrCreate\<close>

definition childOrCreateParam ::
  "('h, 'm) node \<Rightarrow> string \<Rightarrow> string \<Rightarrow> (web_panic, ('h, 'm) node \<times> edge) result" where
  "childOrCreateParam n p name =
     (if regChild n \<noteq> None then Inl (ParamAfterReg p)
      else if starChild n \<noteq> None then Inl (ParamAfterStar p)
      else case paramChild n of
        Some c \<Rightarrow>
          if path (dat c) \<noteq> p then Inl (ParamConflict (path (dat c)) p) else Inr (n, EParam)
      | None \<Rightarrow> Inr (put_child n EParam (new_node NodeTypeParam p name None), EParam))"

definition childOrCreateReg ::
  "regexp_lib \<Rightarrow> ('h, 'm) node \<Rightarrow> string \<Rightarrow> string \<Rightarrow> string
   \<Rightarrow> (web_panic, ('h, 'm) node \<times> edge) result" where
  "childOrCreateReg re n p expr name =
     (if starChild n \<noteq> None then Inl (RegAfterStar p)
      else if paramChild n \<noteq> None then Inl (RegAfterParam p)
      else case regChild n of
        Some c \<Rightarrow>
          (case regExpr (dat c) of
             None \<Rightarrow> Inl NilDeref
           | Some e \<Rightarrow>
               if e \<noteq> expr \<or> paramName (dat n) \<noteq> name then Inl (RegConflict (path (dat c)) p)
               else Inr (n, EReg))
      | None \<Rightarrow>
          if re_compiles re expr
          then Inr (put_child n EReg (new_node NodeTypeReg p name (Some expr)), EReg)
          else Inl (BadRegexp expr))"

definition childOrCreate ::
  "regexp_lib \<Rightarrow> ('h, 'm) node \<Rightarrow> string \<Rightarrow> (web_panic, ('h, 'm) node \<times> edge) result" where
  "childOrCreate re n p =
     (if p = ''*'' then
        if paramChild n \<noteq> None then Inl (StarAfterParam p)
        else if regChild n \<noteq> None then Inl (StarAfterReg p)
        else if starChild n = None
          then Inr (put_child n EStar (new_node NodeTypeAny p [] None), EStar)
        else Inr (n, EStar)
      else if p = [] then Inl IndexOutOfRange
      else if hd p = CHR '':'' then
        (case parseParam p of (name, expr, isReg) \<Rightarrow>
           if isReg then childOrCreateReg re n p expr name else childOrCreateParam n p name)
      else if children n p = None
        then Inr (put_child n (EStatic p) (new_node NodeTypeStatic p [] None), EStatic p)
      else Inr (n, EStatic p))"

subsection \<open>addRoute\<close>

text \<open>The end of the walk: \<open>root.handler = handler\<close> and the append to \<open>root.mws\<close>.\<close>

fun set_handler :: "'h option \<Rightarrow> 'm list \<Rightarrow> ('h, 'm) node \<Rightarrow> ('h, 'm) node" where
  "set_handler h ms (Node d ch st pa rg) =
     Node (d\<lparr>handler := h, mws := (if ms \<noteq> [] then mws d @ ms else mws d)\<rparr>) ch st pa rg"

fun addSegs ::
  "regexp_lib \<Rightarrow> string \<Rightarrow> 'h option \<Rightarrow> 'm list \<Rightarrow> string list \<Rightarrow> ('h, 'm) node
   \<Rightarrow> ('h, 'm) node \<times> web_panic option" where
  "addSegs re p h ms [] n =
     (if handler (dat n) \<noteq> None then (n, Some (RouteConflict p)) else (set_handler h ms n, None))"
| "addSegs re p h ms (s # ss) n =
     (if s = [] then (n, Some (IllegalRoute p))
      else case childOrCreate re n s of
        Inl e \<Rightarrow> (n, Some e)
      | Inr (n', e) \<Rightarrow>
          (case get_child n' e of
             None \<Rightarrow> (n', Some NilDeref)
           | Some c \<Rightarrow> (case addSegs re p h ms ss c of (c', r) \<Rightarrow> (put_child n' e c', r))))"

definition addRoute ::
  "regexp_lib \<Rightarrow> ('h, 'm) router \<Rightarrow> string \<Rightarrow> string \<Rightarrow> 'h option \<Rightarrow> 'm list
   \<Rightarrow> ('h, 'm) router \<times> web_panic option" where
  "addRoute re r method p h ms =
     (if p = [] then (r, Some EmptyPath)
      else if hd p \<noteq> CHR ''/'' then (r, Some NoLeadingSlash)
      else if p \<noteq> ''/'' \<and> last p = CHR ''/'' then (r, Some TrailingSlash)
      else
        let root = (case trees r method of
                      Some n \<Rightarrow> n
                    | None \<Rightarrow> new_node NodeTypeStatic ''/'' [] None);
            store = (\<lambda>n. r\<lparr>trees := (trees r)(method \<mapsto> n)\<rparr>)
        in if p = ''/'' then
             if handler (dat root) \<noteq> None then (store root, Some RootConflict)
             else (store (set_handler h ms root), None)
           else case addSegs re p h ms (split_on (CHR ''/'') (tl p)) root of
                  (root', e) \<Rightarrow> (store root', e))"

subsection \<open>Positions in the tree\<close>

text \<open>
  A node is addressed by the links that lead to it. \<open>routes\<close> is the abstract view of a tree: the
  table of registered handlers by position; \<open>route_mws\<close> is the same for the middlewares.
  \<open>seg_edge\<close> says which link a segment of a registered path creates.
\<close>

fun node_at :: "('h, 'm) node \<Rightarrow> edge list \<Rightarrow> ('h, 'm) node option" where
  "node_at n [] = Some n"
| "node_at n (e # es) = (case get_child n e of None \<Rightarrow> None | Some c \<Rightarrow> node_at c es)"

definition obs :: "(('h, 'm) node_data \<Rightarrow> 'x) \<Rightarrow> 'x \<Rightarrow> ('h, 'm) node \<Rightarrow> edge list \<Rightarrow> 'x" where
  "obs f x n es = (case node_at n es of None \<Rightarrow> x | Some c \<Rightarrow> f (dat c))"

definition routes :: "('h, 'm) node \<Rightarrow> edge list \<Rightarrow> 'h option" where
  "routes = obs handler None"

definition route_mws :: "('h, 'm) node \<Rightarrow> edge list \<Rightarrow> 'm list" where
  "route_mws = obs mws []"

definition seg_edge :: "string \<Rightarrow> edge" where
  "seg_edge s =
     (if s = ''*'' then EStar
      else if s \<noteq> [] \<and> hd s = CHR '':'' then
        (case parseParam s of (_, _, isReg) \<Rightarrow> if isReg then EReg else EParam)
      else EStatic s)"

lemma get_put_child [simp]:
  "get_child (put_child n e c) e' = (if e' = e then Some c else get_child n e')"
  by (cases n; cases e; cases e') auto

lemma dat_put_child [simp]: "dat (put_child n e c) = dat n"
  by (cases n; cases e) auto

lemma get_child_new_node [simp]: "get_child (new_node t p name ex) e = None"
  by (cases e) (auto simp: new_node_def)

lemma dat_new_node [simp]:
  "handler (dat (new_node t p name ex)) = None"
  "mws (dat (new_node t p name ex)) = []"
  "ntyp (dat (new_node t p name ex)) = t"
  "path (dat (new_node t p name ex)) = p"
  "paramName (dat (new_node t p name ex)) = name"
  "regExpr (dat (new_node t p name ex)) = ex"
  by (auto simp: new_node_def)

lemma get_child_set_handler [simp]: "get_child (set_handler h ms n) e = get_child n e"
  by (cases n; cases e) auto

lemma dat_set_handler [simp]:
  "handler (dat (set_handler h ms n)) = h"
  "mws (dat (set_handler h ms n)) = mws (dat n) @ ms"
  "ntyp (dat (set_handler h ms n)) = ntyp (dat n)"
  "path (dat (set_handler h ms n)) = path (dat n)"
  "paramName (dat (set_handler h ms n)) = paramName (dat n)"
  "regExpr (dat (set_handler h ms n)) = regExpr (dat n)"
  by (cases n; auto)+

text \<open>The normal form of a child access is \<open>get_child\<close>.\<close>

lemma get_child_simps [simp]:
  "starChild n = get_child n EStar" "paramChild n = get_child n EParam"
  "regChild n = get_child n EReg" "children n s = get_child n (EStatic s)"
  by simp_all

lemma get_child_Node [simp]:
  "get_child (Node d ch st pa rg) EStar = st" "get_child (Node d ch st pa rg) EParam = pa"
  "get_child (Node d ch st pa rg) EReg = rg" "get_child (Node d ch st pa rg) (EStatic s) = ch s"
  by (simp_all del: get_child_simps)

declare get_child.simps [simp del]

lemma obs_Nil [simp]: "obs f x n [] = f (dat n)"
  by (simp add: obs_def)

lemma obs_Cons [simp]:
  "obs f x n (e # es) = (case get_child n e of None \<Rightarrow> x | Some c \<Rightarrow> obs f x c es)"
  by (simp add: obs_def split: option.split)

lemma obs_new_node:
  "(\<And>t p name ex. f (dat (new_node t p name ex)) = x) \<Longrightarrow> obs f x (new_node t p name ex) es = x"
  by (cases es) auto

text \<open>What \<open>childOrCreate\<close> does on success: the child is the old one, or a new one with no handler.\<close>

definition grown :: "('h, 'm) node \<Rightarrow> ('h, 'm) node \<Rightarrow> edge \<Rightarrow> bool" where
  "grown n n' e \<longleftrightarrow>
     (n' = n \<and> get_child n e \<noteq> None) \<or>
     (get_child n e = None \<and> (\<exists>t p name ex. n' = put_child n e (new_node t p name ex)))"

lemma grown_same: "get_child n e = Some c \<Longrightarrow> grown n n e"
  by (simp add: grown_def)

lemma grown_new: "get_child n e = None \<Longrightarrow> grown n (put_child n e (new_node t p name ex)) e"
  unfolding grown_def by blast

lemma childOrCreateParam_grown:
  "childOrCreateParam n p name = Inr (n', e) \<Longrightarrow> e = EParam \<and> grown n n' EParam"
  unfolding childOrCreateParam_def
  by (cases "paramChild n") (auto split: if_splits intro: grown_same grown_new)

lemma childOrCreateReg_grown:
  "childOrCreateReg re n p ex name = Inr (n', e) \<Longrightarrow> e = EReg \<and> grown n n' EReg"
  unfolding childOrCreateReg_def
  by (cases "regChild n") (auto split: if_splits option.splits intro: grown_same grown_new)

lemma childOrCreate_grown:
  assumes "childOrCreate re n s = Inr (n', e)"
  shows "e = seg_edge s \<and> s \<noteq> [] \<and> grown n n' e"
proof (cases "s = ''*''")
  case True
  with assms show ?thesis
    by (cases "starChild n")
       (auto simp: childOrCreate_def seg_edge_def split: if_splits intro: grown_same grown_new)
next
  case star: False
  show ?thesis
  proof (cases "s \<noteq> [] \<and> hd s = CHR '':''")
    case True
    obtain name ex isReg where p: "parseParam s = (name, ex, isReg)"
      by (cases "parseParam s") auto
    show ?thesis
      using assms star True p childOrCreateParam_grown childOrCreateReg_grown
      by (fastforce simp: childOrCreate_def seg_edge_def split: if_splits)
  next
    case False
    with assms star show ?thesis
      by (cases "children n s")
         (auto simp: childOrCreate_def seg_edge_def split: if_splits intro: grown_same grown_new)
  qed
qed

lemma childOrCreate_ok:
  assumes "childOrCreate re n s = Inr (n', e)"
  obtains c where "get_child n' e = Some c" "e = seg_edge s" "s \<noteq> []"
    "(get_child n e = Some c \<and> n' = n) \<or>
     (get_child n e = None \<and> n' = put_child n e c \<and> (\<exists>t p name ex. c = new_node t p name ex))"
  using childOrCreate_grown [OF assms] unfolding grown_def by (auto; blast)

lemma addSegs_obs:
  assumes "addSegs re p h ms ss n = (n', r)"
    and fresh: "\<And>t p name ex. f (dat (new_node t p name ex)) = x"
    and upd: "\<And>c :: ('h, 'm) node. f (dat (set_handler h ms c)) = u (f (dat c))"
  shows "obs f x n' =
    (if r = None then (obs f x n)(map seg_edge ss := u (obs f x n (map seg_edge ss)))
     else obs f x (n :: ('h, 'm) node))"
  using assms(1)
proof (induction ss arbitrary: n n' r)
  case Nil
  have "obs f x (set_handler h ms n) es = ((obs f x n)([] := u (f (dat n)))) es" for es
    by (cases es) (auto simp: upd)
  with Nil show ?case
    by (auto split: if_splits)
next
  case (Cons s ss)
  show ?case
  proof (cases "childOrCreate re n s")
    case (Inl e)
    with Cons.prems show ?thesis by (auto split: if_splits)
  next
    case (Inr b)
    obtain n1 e where b: "b = (n1, e)" by force
    with Inr have coc: "childOrCreate re n s = Inr (n1, e)" by simp
    then obtain c where c: "get_child n1 e = Some c" "e = seg_edge s" "s \<noteq> []"
      and old: "(get_child n e = Some c \<and> n1 = n) \<or>
        (get_child n e = None \<and> n1 = put_child n e c \<and> (\<exists>t p name ex. c = new_node t p name ex))"
      by (rule childOrCreate_ok)
    obtain c' where rec: "addSegs re p h ms ss c = (c', r)" and n': "n' = put_child n1 e c'"
      using Cons.prems coc c by (auto split: prod.splits)
    note IH = Cons.IH [OF rec]
    have base: "obs f x n (e # es) = obs f x c es" for es
      using old by (auto simp: obs_new_node [of f, OF fresh])
    have "obs f x n' es = (if r = None then
        (obs f x n)(map seg_edge (s # ss) := u (obs f x n (map seg_edge (s # ss)))) else obs f x n) es" for es
    proof (cases es)
      case Nil
      with old n' show ?thesis by auto
    next
      case (Cons e' es')
      with old n' c(2) IH base show ?thesis by (auto simp: fun_upd_def)
    qed
    then show ?thesis by blast
  qed
qed

lemma addSegs_routes:
  "addSegs re p h ms ss n = (n', r) \<Longrightarrow>
   routes n' = (if r = None then (routes n)(map seg_edge ss := h) else routes n)"
  unfolding routes_def by (rule addSegs_obs [where u = "\<lambda>_. h"]) auto

lemma addSegs_mws:
  "addSegs re p h ms ss n = (n', r) \<Longrightarrow>
   route_mws n' =
     (if r = None then (route_mws n)(map seg_edge ss := route_mws n (map seg_edge ss) @ ms)
      else route_mws n)"
  unfolding route_mws_def by (rule addSegs_obs [where u = "\<lambda>x. x @ ms"]) auto

subsection \<open>The invariant of the routing tree\<close>

text \<open>
  \<open>link_ok\<close> says what a child reached through a link looks like: its type, and its \<open>path\<close>,
  \<open>paramName\<close> and \<open>regExpr\<close> agree with the link. \<open>wf_local\<close> adds the exclusion of wildcard,
  parameter and regular-expression children of one node.
\<close>

fun link_ok :: "regexp_lib \<Rightarrow> edge \<Rightarrow> ('h, 'm) node_data \<Rightarrow> bool" where
  "link_ok re (EStatic s) d \<longleftrightarrow>
     seg_edge s = EStatic s \<and> s \<noteq> [] \<and> ntyp d = NodeTypeStatic \<and> path d = s \<and>
     paramName d = [] \<and> regExpr d = None"
| "link_ok re EStar d \<longleftrightarrow>
     ntyp d = NodeTypeAny \<and> path d = ''*'' \<and> paramName d = [] \<and> regExpr d = None"
| "link_ok re EParam d \<longleftrightarrow>
     ntyp d = NodeTypeParam \<and> path d = CHR '':'' # paramName d \<and> regExpr d = None"
| "link_ok re EReg d \<longleftrightarrow>
     ntyp d = NodeTypeReg \<and>
     (\<exists>ex. regExpr d = Some ex \<and> re_compiles re ex \<and>
       path d = CHR '':'' # paramName d @ CHR ''('' # ex @ '')'')"

definition wf_local :: "regexp_lib \<Rightarrow> ('h, 'm) node \<Rightarrow> bool" where
  "wf_local re n \<longleftrightarrow>
     (\<forall>e c. get_child n e = Some c \<longrightarrow> link_ok re e (dat c)) \<and>
     (starChild n = None \<or> paramChild n = None) \<and>
     (starChild n = None \<or> regChild n = None) \<and>
     (paramChild n = None \<or> regChild n = None)"

definition wf_node :: "regexp_lib \<Rightarrow> ('h, 'm) node \<Rightarrow> bool" where
  "wf_node re n \<longleftrightarrow> (\<forall>es c. node_at n es = Some c \<longrightarrow> wf_local re c)"

definition wf_root :: "regexp_lib \<Rightarrow> ('h, 'm) node \<Rightarrow> bool" where
  "wf_root re n \<longleftrightarrow>
     wf_node re n \<and> ntyp (dat n) = NodeTypeStatic \<and> path (dat n) = ''/'' \<and>
     paramName (dat n) = [] \<and> regExpr (dat n) = None"

definition wf_router :: "regexp_lib \<Rightarrow> ('h, 'm) router \<Rightarrow> bool" where
  "wf_router re r \<longleftrightarrow> (\<forall>m n. trees r m = Some n \<longrightarrow> wf_root re n)"

lemma wf_node_local: "wf_node re n \<Longrightarrow> wf_local re n"
  unfolding wf_node_def by (elim allE [where x = "[]"]) auto

lemma wf_node_child: "wf_node re n \<Longrightarrow> get_child n e = Some c \<Longrightarrow> wf_node re c"
  unfolding wf_node_def by (intro allI impI, elim allE [where x = "e # _"]) auto

lemma wf_nodeI:
  assumes "wf_local re n" and "\<And>e c. get_child n e = Some c \<Longrightarrow> wf_node re c"
  shows "wf_node re n"
  unfolding wf_node_def
proof (intro allI impI)
  fix es c
  assume "node_at n es = Some c"
  with assms show "wf_local re c"
    by (cases es) (auto simp: wf_node_def split: option.splits)
qed

lemma wf_node_iff:
  "wf_node re n \<longleftrightarrow> wf_local re n \<and> (\<forall>e c. get_child n e = Some c \<longrightarrow> wf_node re c)"
  using wf_node_local wf_node_child wf_nodeI by blast

lemma wf_local_get:
  "wf_local re n \<longleftrightarrow>
     (\<forall>e c. get_child n e = Some c \<longrightarrow> link_ok re e (dat c)) \<and>
     (get_child n EStar = None \<or> get_child n EParam = None) \<and>
     (get_child n EStar = None \<or> get_child n EReg = None) \<and>
     (get_child n EParam = None \<or> get_child n EReg = None)"
  by (simp add: wf_local_def)

lemma wf_new_node: "wf_node re (new_node t p name ex)"
  by (rule wf_nodeI) (auto simp: wf_local_get)

lemma wf_node_set_handler: "wf_node re n \<Longrightarrow> wf_node re (set_handler h ms n)"
  by (subst wf_node_iff) (auto simp: wf_local_get dest: wf_node_local wf_node_child)

lemma parseParam_reg:
  assumes "parseParam s = (name, ex, True)" and "s \<noteq> []"
  shows "s = hd s # name @ CHR ''('' # ex @ '')'' \<and> CHR ''('' \<notin> set name"
proof -
  from assms obtain b where b: "split_first (CHR ''('') (tl s) = Some (name, b)"
      "b \<noteq> []" "last b = CHR '')''" "ex = butlast b"
    by (auto simp: parseParam_def Let_def split: option.splits if_splits)
  from b(2-4) have "b = ex @ '')''"
    by (metis append_butlast_last_id)
  with split_first_SomeD [OF b(1)] assms(2) show ?thesis
    by (cases s) auto
qed

lemma parseParam_param: "parseParam s = (name, ex, False) \<Longrightarrow> name = tl s"
  by (auto simp: parseParam_def Let_def split: option.splits if_splits)

lemma wf_local_put:
  assumes "wf_local re n" and "link_ok re e (dat c)"
    and "\<forall>e'. e \<in> {EStar, EParam, EReg} \<and> e' \<in> {EStar, EParam, EReg} \<and> e' \<noteq> e \<longrightarrow> get_child n e' = None"
  shows "wf_local re (put_child n e c)"
  using assms unfolding wf_local_get by (cases e) auto

lemma childOrCreateParam_wf:
  assumes "wf_local re n" "childOrCreateParam n s name = Inr (n', e)"
    and "s = CHR '':'' # name"
  shows "wf_local re n'"
  using assms
  by (auto simp: childOrCreateParam_def split: option.splits if_splits intro!: wf_local_put)

lemma childOrCreateReg_wf:
  assumes "wf_local re n" "childOrCreateReg re n s ex name = Inr (n', e)"
    and "s = CHR '':'' # name @ CHR ''('' # ex @ '')''"
  shows "wf_local re n'"
  using assms
  by (auto simp: childOrCreateReg_def split: option.splits if_splits intro!: wf_local_put)

lemma childOrCreate_wf:
  assumes wf: "wf_local re n" and ok: "childOrCreate re n s = Inr (n', e)"
  shows "wf_local re n'"
proof (cases "s = ''*''")
  case True
  with assms show ?thesis
    by (auto simp: childOrCreate_def split: if_splits intro!: wf_local_put)
next
  case star: False
  from ok have s: "s \<noteq> []" by (auto simp: childOrCreate_def)
  show ?thesis
  proof (cases "hd s = CHR '':''")
    case True
    obtain name ex isReg where p: "parseParam s = (name, ex, isReg)"
      by (cases "parseParam s") auto
    have param: "s = CHR '':'' # name" if "\<not> isReg"
      using that p True s parseParam_param [of s name ex] by (cases s) auto
    have reg: "s = CHR '':'' # name @ CHR ''('' # ex @ '')''" if isReg
      using that p True s parseParam_reg [of s name ex] by auto
    show ?thesis
      using ok star True s p wf childOrCreateParam_wf [OF wf _ param]
        childOrCreateReg_wf [OF wf _ reg]
      by (auto simp: childOrCreate_def split: if_splits)
  next
    case False
    with ok star s wf show ?thesis
      by (auto simp: childOrCreate_def seg_edge_def split: if_splits intro!: wf_local_put)
  qed
qed

lemma link_ok_cong:
  "\<lbrakk>ntyp d' = ntyp d; path d' = path d; paramName d' = paramName d; regExpr d' = regExpr d\<rbrakk>
   \<Longrightarrow> link_ok re e d' = link_ok re e d"
  by (cases e) auto

lemma addSegs_sig:
  assumes "addSegs re p h ms ss n = (n', r)"
  shows "ntyp (dat n') = ntyp (dat n) \<and> path (dat n') = path (dat n) \<and>
    paramName (dat n') = paramName (dat n) \<and> regExpr (dat n') = regExpr (dat n)"
proof (cases ss)
  case Nil
  with assms show ?thesis by (auto split: if_splits)
next
  case (Cons s ss')
  have "dat n1 = dat n" if "childOrCreate re n s = Inr (n1, e)" for n1 e
    using that by (auto elim!: childOrCreate_ok)
  with assms Cons show ?thesis
    by (auto split: if_splits sum.splits option.splits prod.splits)
qed

lemma addSegs_wf:
  "addSegs re p h ms ss n = (n', r) \<Longrightarrow> wf_node re n \<Longrightarrow> wf_node re n'"
proof (induction ss arbitrary: n n' r)
  case Nil
  then show ?case by (auto split: if_splits intro: wf_node_set_handler)
next
  case (Cons s ss)
  show ?case
  proof (cases "childOrCreate re n s")
    case (Inl e)
    with Cons.prems show ?thesis by (auto split: if_splits)
  next
    case (Inr b)
    obtain n1 e where b: "b = (n1, e)" by force
    with Inr have coc: "childOrCreate re n s = Inr (n1, e)" by simp
    then obtain c where c: "get_child n1 e = Some c" "s \<noteq> []"
      and old: "(get_child n e = Some c \<and> n1 = n) \<or>
        (get_child n e = None \<and> n1 = put_child n e c \<and> (\<exists>t p name ex. c = new_node t p name ex))"
      by (rule childOrCreate_ok)
    obtain c' where rec: "addSegs re p h ms ss c = (c', r)" and n': "n' = put_child n1 e c'"
      using Cons.prems coc c by (auto split: prod.splits)
    have wf1: "wf_local re n1"
      using childOrCreate_wf [OF wf_node_local coc] Cons.prems(2) by blast
    have wfc: "wf_node re c"
      using old Cons.prems(2) wf_node_child wf_new_node by metis
    have "link_ok re e (dat c)"
      using wf1 c(1) by (auto simp: wf_local_get)
    then have "link_ok re e (dat c')"
      using addSegs_sig [OF rec] link_ok_cong [of "dat c'" "dat c"] by simp
    then have "wf_local re n'"
      using wf1 c(1) n' by (auto simp: wf_local_get)
    moreover have "wf_node re d" if "get_child n' e' = Some d" for e' d
      using that n' old Cons.IH [OF rec wfc] Cons.prems(2)
      by (auto split: if_splits dest: wf_node_child)
    ultimately show ?thesis by (rule wf_nodeI)
  qed
qed

lemma wf_root_new: "wf_root re (new_node NodeTypeStatic ''/'' [] None)"
  by (simp add: wf_root_def wf_new_node)

lemma addSegs_wf_root: "addSegs re p h ms ss n = (n', r) \<Longrightarrow> wf_root re n \<Longrightarrow> wf_root re n'"
  unfolding wf_root_def using addSegs_wf addSegs_sig by metis

lemma wf_newRouter: "wf_router re newRouter"
  by (simp add: wf_router_def newRouter_def)

subsection \<open>The route table\<close>

text \<open>
  The abstract view of a router: the table of registered handlers, by HTTP method and position.
  A path is registered at the position of its segments.
\<close>

definition table :: "('h, 'm) router \<Rightarrow> string \<Rightarrow> edge list \<Rightarrow> 'h option" where
  "table r m es = (case trees r m of None \<Rightarrow> None | Some n \<Rightarrow> routes n es)"

definition table_mws :: "('h, 'm) router \<Rightarrow> string \<Rightarrow> edge list \<Rightarrow> 'm list" where
  "table_mws r m es = (case trees r m of None \<Rightarrow> [] | Some n \<Rightarrow> route_mws n es)"

definition path_segs :: "string \<Rightarrow> string list" where
  "path_segs p = (if p = ''/'' then [] else split_on (CHR ''/'') (tl p))"

definition path_edges :: "string \<Rightarrow> edge list" where
  "path_edges p = map seg_edge (path_segs p)"

lemma routes_set_handler: "routes (set_handler h ms n) = (routes n)([] := h)"
proof
  fix es
  show "routes (set_handler h ms n) es = ((routes n)([] := h)) es"
    by (cases es) (auto simp: routes_def)
qed

lemma route_mws_set_handler:
  "route_mws (set_handler h ms n) = (route_mws n)([] := route_mws n [] @ ms)"
proof
  fix es
  show "route_mws (set_handler h ms n) es = ((route_mws n)([] := route_mws n [] @ ms)) es"
    by (cases es) (auto simp: route_mws_def)
qed

lemma routes_new_node: "routes (new_node t p name ex) es = None"
  unfolding routes_def by (rule obs_new_node) simp

lemma route_mws_new_node: "route_mws (new_node t p name ex) es = []"
  unfolding route_mws_def by (rule obs_new_node) simp

text \<open>The one step of \<open>addRoute\<close> that touches the trees: the root of the method is created or reused.\<close>

definition method_root :: "('h, 'm) router \<Rightarrow> string \<Rightarrow> ('h, 'm) node" where
  "method_root r m =
     (case trees r m of Some n \<Rightarrow> n | None \<Rightarrow> new_node NodeTypeStatic ''/'' [] None)"

lemma table_method_root: "table r m = routes (method_root r m)"
  by (auto simp: table_def method_root_def routes_new_node fun_eq_iff split: option.split)

lemma table_mws_method_root: "table_mws r m = route_mws (method_root r m)"
  by (auto simp: table_mws_def method_root_def route_mws_new_node fun_eq_iff split: option.split)

lemma addRoute_cases [consumes 1, case_names rejected store]:
  assumes "addRoute re r m p h ms = (r', e)"
  obtains "r' = r" "e \<noteq> None"
  | n' where "r' = r\<lparr>trees := (trees r)(m \<mapsto> n')\<rparr>"
      "addSegs re p h ms (path_segs p) (method_root r m)
         = (n', if e = Some RootConflict \<and> p = ''/'' then Some (RouteConflict p) else e)"
proof (cases "p = [] \<or> hd p \<noteq> CHR ''/'' \<or> (p \<noteq> ''/'' \<and> last p = CHR ''/'')")
  case True
  with assms that(1) show ?thesis
    by (auto simp: addRoute_def split: if_splits)
next
  case guards: False
  show ?thesis
  proof (cases "p = ''/''")
    case True
    with assms that(2) show ?thesis
      by (auto simp: addRoute_def method_root_def path_segs_def Let_def split: if_splits option.splits)
  next
    case False
    with assms guards that(2) show ?thesis
      by (auto simp: addRoute_def method_root_def path_segs_def Let_def
               split: prod.splits option.splits)
  qed
qed

lemma addSegs_free:
  assumes "addSegs re p h ms ss n = (n', None)"
  shows "routes n (map seg_edge ss) = None"
  using assms
proof (induction ss arbitrary: n n')
  case Nil
  then show ?case by (auto simp: routes_def split: if_splits)
next
  case (Cons s ss)
  then obtain n1 e where coc: "childOrCreate re n s = Inr (n1, e)"
    by (auto split: if_splits sum.splits)
  then obtain c where c: "get_child n1 e = Some c" "e = seg_edge s" "s \<noteq> []"
    and old: "(get_child n e = Some c \<and> n1 = n) \<or>
      (get_child n e = None \<and> n1 = put_child n e c \<and> (\<exists>t p name ex. c = new_node t p name ex))"
    by (rule childOrCreate_ok)
  obtain c' where "addSegs re p h ms ss c = (c', None)"
    using Cons.prems coc c by (auto split: prod.splits)
  then have "routes c (map seg_edge ss) = None" by (rule Cons.IH)
  with old c show ?case by (auto simp: routes_def split: option.split)
qed

lemma addSegs_nonempty: "addSegs re p h ms ss n = (n', None) \<Longrightarrow> s \<in> set ss \<Longrightarrow> s \<noteq> []"
  by (induction ss arbitrary: n n')
     (auto split: if_splits sum.splits option.splits prod.splits)

lemma table_update:
  "table (r\<lparr>trees := (trees r)(m \<mapsto> n)\<rparr>) = (table r)(m := routes n)"
  by (auto simp: table_def fun_eq_iff)

lemma table_mws_update:
  "table_mws (r\<lparr>trees := (trees r)(m \<mapsto> n)\<rparr>) = (table_mws r)(m := route_mws n)"
  by (auto simp: table_mws_def fun_eq_iff)

lemma addRoute_table_step:
  "table (fst (addRoute re r m p h ms)) =
     (if snd (addRoute re r m p h ms) = None
      then (table r)(m := (table r m)(path_edges p := h)) else table r)"
proof -
  obtain r' e where a: "addRoute re r m p h ms = (r', e)" by force
  then show ?thesis
  proof (cases rule: addRoute_cases)
    case rejected
    with a show ?thesis by auto
  next
    case (store n')
    from addSegs_routes [OF store(2)] store(1) a show ?thesis
      by (auto simp: table_update table_method_root path_edges_def fun_eq_iff split: if_splits)
  qed
qed

text \<open>
  Claim C1: \<open>addRoute\<close> refines the update of a route table. A registration that succeeds stores the
  handler at the position of its path and changes no other entry, for any router and any path; a
  registration that panics, at whatever segment, leaves the table as it was, even though it may have
  created nodes on the way.
\<close>

theorem addRoute_table:
  "table (fst (addRoute re r m p h ms)) =
     (if snd (addRoute re r m p h ms) = None
      then (table r)(m := (table r m)(path_edges p := h)) else table r)"
  by (rule addRoute_table_step)

text \<open>
  A successful registration, \<open>Use\<close> included, appends its middlewares to those already at
  its position, in order, and touches no other position; a panicking one changes none.
\<close>

theorem addRoute_mws:
  "table_mws (fst (addRoute re r m p h ms)) =
     (if snd (addRoute re r m p h ms) = None
      then (table_mws r)(m := (table_mws r m)(path_edges p := table_mws r m (path_edges p) @ ms))
      else table_mws r)"
proof -
  obtain r' e where a: "addRoute re r m p h ms = (r', e)" by force
  then show ?thesis
  proof (cases rule: addRoute_cases)
    case rejected
    with a show ?thesis by auto
  next
    case (store n')
    from addSegs_mws [OF store(2)] store(1) a show ?thesis
      by (auto simp: table_mws_update table_mws_method_root path_edges_def fun_eq_iff
               split: if_splits)
  qed
qed

lemma addRoute_wf_step:
  assumes "wf_router re r"
  shows "wf_router re (fst (addRoute re r m p h ms))"
proof -
  obtain r' e where a: "addRoute re r m p h ms = (r', e)" by force
  have root: "wf_root re (method_root r m)"
    using assms by (auto simp: wf_router_def method_root_def wf_root_new split: option.split)
  from a have "wf_router re r'"
  proof (cases rule: addRoute_cases)
    case rejected
    with assms show ?thesis by simp
  next
    case (store n')
    with assms addSegs_wf_root [OF store(2) root] show ?thesis
      by (auto simp: wf_router_def)
  qed
  with a show ?thesis by simp
qed

text \<open>
  Claim C5: the structural invariant of the routing trees (node types, names and regular expressions
  agree with the links that lead to them; a node has at most one of a wildcard, a parameter and a
  regular-expression child) is preserved by every \<open>addRoute\<close>, also by one that panics half way.
\<close>

theorem addRoute_wf:
  assumes "wf_router re r"
  shows "wf_router re (fst (addRoute re r m p h ms))"
  using assms by (rule addRoute_wf_step)

lemma addRoute_taken:
  assumes "table r m (path_edges p) = Some h0"
  shows "snd (addRoute re r m p h ms) \<noteq> None"
proof
  assume none: "snd (addRoute re r m p h ms) = None"
  then obtain r' where "addRoute re r m p h ms = (r', None)"
    by (cases "addRoute re r m p h ms") auto
  then show False
  proof (cases rule: addRoute_cases)
    case rejected
    then show ?thesis by simp
  next
    case (store n')
    from store(2) have "addSegs re p h ms (path_segs p) (method_root r m) = (n', None)" by simp
    from addSegs_free [OF this] assms show ?thesis
      by (simp add: table_method_root path_edges_def)
  qed
qed

text \<open>
  A registered route cannot be overwritten. If the table holds a handler for the position
  of a path, every further registration of that position panics, whatever its handler.
\<close>

theorem addRoute_duplicate:
  assumes "table r m (path_edges p) = Some h0"
  shows "snd (addRoute re r m p h ms) \<noteq> None"
  using assms by (rule addRoute_taken)

text \<open>
  Two routes cannot share a named regular-expression segment. Once the root of a method
  has a regular-expression child, any path whose first segment is a regular-expression segment with
  a parameter name is rejected as a conflict, also when the segment is the very same: the code
  compares the parameter name of the parent node, not of the child.
\<close>

theorem reg_segment_not_shared:
  assumes "wf_root re n" and "regChild n = Some c" and "s \<noteq> []" and "hd s = CHR '':''"
    and "parseParam s = (name, ex, True)" and "name \<noteq> []"
  shows "addSegs re p h ms (s # ss) n = (n, Some (RegConflict (path (dat c)) s))"
proof -
  have wf: "wf_local re n" and pn: "paramName (dat n) = []"
    using assms(1) wf_node_local by (auto simp: wf_root_def)
  then obtain ex' where "regExpr (dat c) = Some ex'"
    using assms(2) by (auto simp: wf_local_get elim!: allE [where x = EReg])
  moreover have "starChild n = None" "paramChild n = None"
    using wf assms(2) by (auto simp: wf_local_get)
  ultimately have "childOrCreateReg re n s ex name = Inl (RegConflict (path (dat c)) s)"
    using assms(2,6) pn by (auto simp: childOrCreateReg_def)
  moreover have "s \<noteq> ''*''" using assms(4) by auto
  ultimately show ?thesis
    using assms(3-5) by (simp add: childOrCreate_def)
qed

subsection \<open>Concrete runs\<close>

text \<open>A regular-expression library that compiles and matches everything, for concrete runs.\<close>

definition any_re :: regexp_lib where
  "any_re = \<lparr>re_compiles = (\<lambda>_. True), re_match = (\<lambda>_ _. True)\<rparr>"

definition one_route :: "(nat, nat) router" where
  "one_route = fst (addRoute any_re newRouter ''GET'' ''/a'' (Some 1) [7])"

lemmas run_addRoute = addRoute_def childOrCreate_def new_node_def newRouter_def any_re_def

lemma wf_one_route: "wf_router any_re one_route"
  unfolding one_route_def by (rule addRoute_wf_step) (rule wf_newRouter)

theorem addRoute_wf_witness:
  "wf_router any_re (fst (addRoute any_re one_route ''GET'' ''/a/:id'' (Some 2) [8]))"
  by (rule addRoute_wf) (rule wf_one_route)

theorem addRoute_duplicate_witness:
  "snd (addRoute any_re one_route ''GET'' ''/a'' (Some 2) [8]) \<noteq> None"
proof (rule addRoute_duplicate)
  show "table one_route ''GET'' (path_edges ''/a'') = Some 1"
    by (simp add: one_route_def addRoute_table_step) (simp add: run_addRoute)
qed

definition reg_root :: "(nat, nat) node" where
  "reg_root = put_child (new_node NodeTypeStatic ''/'' [] None) EReg
     (new_node NodeTypeReg '':id(x)'' ''id'' (Some ''x''))"

theorem reg_segment_not_shared_witness:
  "addSegs any_re ''/:id(x)/b'' (Some 1) [] ['':id(x)'', ''b''] reg_root =
     (reg_root, Some (RegConflict '':id(x)'' '':id(x)''))"
proof -
  let ?c = "new_node NodeTypeReg '':id(x)'' ''id'' (Some ''x'') :: (nat, nat) node"
  have l: "wf_local any_re (new_node NodeTypeStatic ''/'' [] None :: (nat, nat) node)"
    by (rule wf_node_local) (rule wf_new_node)
  have "wf_local any_re reg_root"
    unfolding reg_root_def by (rule wf_local_put [OF l]) (auto simp: any_re_def)
  then have "wf_node any_re reg_root"
    by (rule wf_nodeI) (auto simp: reg_root_def wf_new_node split: if_splits)
  then have "wf_root any_re reg_root" by (simp add: wf_root_def reg_root_def)
  from reg_segment_not_shared [OF this, of ?c "'':id(x)''" "''id''" "''x''" "''/:id(x)/b''" "Some 1" "[]" "[''b'']"]
  show ?thesis by (simp add: reg_root_def parseParam_def split_first_def)
qed

end
