(* ===== verification/Web_Lookup.thy ===== *)
theory Web_Lookup
  imports Web_Router
begin

text \<open>
  The lookup half of \<open>homework2/route.go\<close>: \<open>childOf\<close>, \<open>childOfNonStatic\<close>, \<open>findRoute\<close>,
  \<open>findMdls\<close> and \<open>matchInfo\<close>. A regular-expression child whose \<open>regExpr\<close> is nil would be a nil
  dereference; the lookups return it as a panic, and a theorem shows that it never happens on the
  trees that \<open>addRoute\<close> builds. A nil \<open>pathParams\<close> map and an empty one are identified.
\<close>

subsection \<open>Operations\<close>

record ('h, 'm) matchInfo =
  mi_n :: "('h, 'm) node"
  pathParams :: "string \<Rightarrow> string option"
  mi_mws :: "'m list"

definition addValue :: "(string \<Rightarrow> string option) \<Rightarrow> string \<Rightarrow> string \<Rightarrow> (string \<Rightarrow> string option)" where
  "addValue ps key val = ps(key \<mapsto> val)"

definition reg_matches :: "regexp_lib \<Rightarrow> ('h, 'm) node \<Rightarrow> string \<Rightarrow> (web_panic, bool) result" where
  "reg_matches re c s =
     (case regExpr (dat c) of None \<Rightarrow> Inl NilDeref | Some ex \<Rightarrow> Inr (re_match re ex s))"

definition childOfNonStatic ::
  "regexp_lib \<Rightarrow> ('h, 'm) node \<Rightarrow> string \<Rightarrow> (web_panic, ('h, 'm) node option) result" where
  "childOfNonStatic re n s =
     (let rest = (if paramChild n \<noteq> None then paramChild n else starChild n) in
      case regChild n of
        Some c \<Rightarrow> bind_result (reg_matches re c s) (\<lambda>b. Inr (if b then Some c else rest))
      | None \<Rightarrow> Inr rest)"

definition childOf ::
  "regexp_lib \<Rightarrow> ('h, 'm) node \<Rightarrow> string \<Rightarrow> (web_panic, ('h, 'm) node option) result" where
  "childOf re n s =
     (case children n s of None \<Rightarrow> childOfNonStatic re n s | Some c \<Rightarrow> Inr (Some c))"

text \<open>One node of one level of \<open>findMdls\<close>: the children appended to \<open>matchChildrenNodes\<close>.\<close>

definition matchChildren ::
  "regexp_lib \<Rightarrow> string \<Rightarrow> ('h, 'm) node \<Rightarrow> (web_panic, ('h, 'm) node list) result" where
  "matchChildren re s n =
     bind_result
       (case starChild n of
          Some c \<Rightarrow> Inr [c]
        | None \<Rightarrow>
            (case regChild n of
               Some c \<Rightarrow> bind_result (reg_matches re c s) (\<lambda>b. Inr (if b then [c] else []))
             | None \<Rightarrow> (case paramChild n of Some c \<Rightarrow> Inr [c] | None \<Rightarrow> Inr [])))
       (\<lambda>cs. Inr (cs @ (case children n s of Some c \<Rightarrow> [c] | None \<Rightarrow> [])))"

fun mdlLevels ::
  "regexp_lib \<Rightarrow> ('h, 'm) node list \<Rightarrow> string list \<Rightarrow> (web_panic, 'm list) result" where
  "mdlLevels re ns [] = Inr []"
| "mdlLevels re ns (s # ss) =
     bind_result (concat_result (matchChildren re s) ns) (\<lambda>cs.
     bind_result (mdlLevels re cs ss) (\<lambda>rest.
     Inr (concat (map (\<lambda>c. mws (dat c)) cs) @ rest)))"

definition findMdls ::
  "regexp_lib \<Rightarrow> ('h, 'm) node \<Rightarrow> string list \<Rightarrow> (web_panic, 'm list) result" where
  "findMdls re root segs =
     bind_result (mdlLevels re [root] segs) (\<lambda>rest. Inr (mws (dat root) @ rest))"

text \<open>The loop of \<open>findRoute\<close> over the segments, with \<open>current\<close> and the parameters found so far.\<close>

fun findSegs ::
  "regexp_lib \<Rightarrow> ('h, 'm) node \<Rightarrow> string list \<Rightarrow> ('h, 'm) node \<Rightarrow> (string \<Rightarrow> string option)
   \<Rightarrow> string list \<Rightarrow> (web_panic, ('h, 'm) matchInfo option) result" where
  "findSegs re root segs current ps [] =
     bind_result (findMdls re root segs) (\<lambda>ms.
       Inr (Some \<lparr>mi_n = current, pathParams = ps, mi_mws = ms\<rparr>))"
| "findSegs re root segs current ps (s # ss) =
     bind_result (childOf re current s) (\<lambda>co.
       case co of
         None \<Rightarrow>
           if ntyp (dat current) = NodeTypeAny
           then bind_result (findMdls re current segs) (\<lambda>ms.
                  Inr (Some \<lparr>mi_n = current, pathParams = ps, mi_mws = ms\<rparr>))
           else Inr None
       | Some child \<Rightarrow>
           findSegs re root segs child
             (if paramName (dat child) \<noteq> [] then addValue ps (paramName (dat child)) s else ps) ss)"

definition findRoute ::
  "regexp_lib \<Rightarrow> ('h, 'm) router \<Rightarrow> string \<Rightarrow> string
   \<Rightarrow> (web_panic, ('h, 'm) matchInfo option) result" where
  "findRoute re r method p =
     (case trees r method of
        None \<Rightarrow> Inr None
      | Some root \<Rightarrow>
          if p = ''/'' then
            Inr (Some \<lparr>mi_n = root, pathParams = (\<lambda>_. None), mi_mws = mws (dat root)\<rparr>)
          else
            let segs = split_on (CHR ''/'') (trim_on (CHR ''/'') p)
            in findSegs re root segs root (\<lambda>_. None) segs)"

subsection \<open>Lookups on well-formed trees\<close>

text \<open>
  Which link a lookup takes at a node, and which segments a link accepts. On a well-formed node
  \<open>childOf\<close> is the priority choice \<open>pick\<close>, and \<open>matchChildren\<close> collects the accepting links.
\<close>

definition accepts :: "regexp_lib \<Rightarrow> edge \<Rightarrow> ('h, 'm) node \<Rightarrow> string \<Rightarrow> bool" where
  "accepts re e c s =
     (case e of
        EStatic k \<Rightarrow> k = s
      | EReg \<Rightarrow> (case regExpr (dat c) of Some ex \<Rightarrow> re_match re ex s | None \<Rightarrow> False)
      | EParam \<Rightarrow> True
      | EStar \<Rightarrow> True)"

definition enabled :: "regexp_lib \<Rightarrow> ('h, 'm) node \<Rightarrow> edge \<Rightarrow> string \<Rightarrow> bool" where
  "enabled re n e s = (case get_child n e of None \<Rightarrow> False | Some c \<Rightarrow> accepts re e c s)"

definition pick :: "regexp_lib \<Rightarrow> ('h, 'm) node \<Rightarrow> string \<Rightarrow> edge option" where
  "pick re n s =
     (if enabled re n (EStatic s) s then Some (EStatic s)
      else if enabled re n EReg s then Some EReg
      else if enabled re n EParam s then Some EParam
      else if enabled re n EStar s then Some EStar
      else None)"

lemma enabled_simps [simp]:
  "enabled re n (EStatic k) s \<longleftrightarrow> get_child n (EStatic k) \<noteq> None \<and> k = s"
  "enabled re n EParam s \<longleftrightarrow> get_child n EParam \<noteq> None"
  "enabled re n EStar s \<longleftrightarrow> get_child n EStar \<noteq> None"
  by (auto simp: enabled_def accepts_def split: option.split)

lemma wf_reg_matches:
  assumes "wf_local re n" and "get_child n EReg = Some c"
  shows "reg_matches re c s = Inr (enabled re n EReg s)"
  using assms
  by (auto simp: wf_local_get reg_matches_def enabled_def accepts_def elim!: allE [where x = EReg])

lemma enabled_reg_None [simp]: "get_child n EReg = None \<Longrightarrow> \<not> enabled re n EReg s"
  by (simp add: enabled_def)

lemma childOf_pick:
  assumes "wf_local re n"
  shows "childOf re n s = Inr (Option.bind (pick re n s) (get_child n))"
proof (cases "get_child n EReg")
  case None
  then show ?thesis
    by (auto simp: childOf_def childOfNonStatic_def pick_def split: option.split)
next
  case (Some c)
  with wf_reg_matches [OF assms Some, of s] show ?thesis
    by (auto simp: childOf_def childOfNonStatic_def pick_def Let_def split: option.split)
qed

definition next_nodes :: "regexp_lib \<Rightarrow> ('h, 'm) node \<Rightarrow> string \<Rightarrow> ('h, 'm) node set" where
  "next_nodes re n s = {c. \<exists>e. get_child n e = Some c \<and> enabled re n e s}"

lemma matchChildren_enabled:
  assumes "wf_local re n"
  shows "\<exists>cs. matchChildren re s n = Inr cs \<and> set cs = next_nodes re n s"
proof -
  have ex: "{c. \<exists>e. get_child n e = Some c \<and> enabled re n e s} =
      {c. get_child n (EStatic s) = Some c} \<union> {c. get_child n EStar = Some c} \<union>
      {c. get_child n EParam = Some c} \<union> {c. get_child n EReg = Some c \<and> enabled re n EReg s}"
    (is "?L = ?R")
  proof (intro equalityI subsetI)
    fix c assume "c \<in> ?L"
    then obtain e where "get_child n e = Some c" "enabled re n e s" by auto
    then show "c \<in> ?R" by (cases e) auto
  next
    fix c assume "c \<in> ?R"
    then show "c \<in> ?L"
      by (auto intro: exI [where x = "EStatic s"] exI [where x = EStar] exI [where x = EParam]
            exI [where x = EReg])
  qed
  show ?thesis
    using assms wf_reg_matches [OF assms, of _ s] unfolding next_nodes_def ex wf_local_get
    by (auto simp: matchChildren_def split: option.split)
qed

subsection \<open>The walk of findRoute\<close>

text \<open>
  \<open>walk\<close> is the list of links the loop of \<open>findRoute\<close> takes, with the segments left over when no
  link is enabled; \<open>follows\<close> says that a list of links leads somewhere and accepts the segments one
  by one; \<open>bindings\<close> are the parameters bound on the way.
\<close>

fun walk :: "regexp_lib \<Rightarrow> ('h, 'm) node \<Rightarrow> string list \<Rightarrow> edge list \<times> string list" where
  "walk re n [] = ([], [])"
| "walk re n (s # ss) =
     (case Option.bind (pick re n s) (get_child n) of
        None \<Rightarrow> ([], s # ss)
      | Some c \<Rightarrow> (case walk re c ss of (es, rest) \<Rightarrow> (the (pick re n s) # es, rest)))"

fun follows :: "regexp_lib \<Rightarrow> ('h, 'm) node \<Rightarrow> edge list \<Rightarrow> string list \<Rightarrow> bool" where
  "follows re n [] [] \<longleftrightarrow> True"
| "follows re n (e # es) (s # ss) \<longleftrightarrow>
     (case get_child n e of None \<Rightarrow> False | Some c \<Rightarrow> accepts re e c s \<and> follows re c es ss)"
| "follows re n _ _ \<longleftrightarrow> False"

fun bindings :: "('h, 'm) node \<Rightarrow> edge list \<Rightarrow> string list \<Rightarrow> (string \<times> string) list" where
  "bindings n (e # es) (s # ss) =
     (case get_child n e of
        None \<Rightarrow> []
      | Some c \<Rightarrow>
          (if paramName (dat c) \<noteq> [] then [(paramName (dat c), s)] else []) @ bindings c es ss)"
| "bindings n _ _ = []"

lemma pick_enabled: "pick re n s = Some e \<Longrightarrow> enabled re n e s"
  by (auto simp: pick_def split: if_splits)

lemma pick_child:
  "pick re n s = Some e \<Longrightarrow> \<exists>c. get_child n e = Some c \<and> accepts re e c s"
  by (drule pick_enabled) (auto simp: enabled_def split: option.splits)

lemma walk_sound:
  assumes "walk re n ss = (es, rest)"
  shows "\<exists>c. node_at n es = Some c \<and> follows re n es (take (length es) ss) \<and>
    rest = drop (length es) ss \<and> length es \<le> length ss"
  using assms
proof (induction ss arbitrary: n es)
  case Nil
  then show ?case by simp
next
  case (Cons s ss)
  show ?case
  proof (cases "pick re n s")
    case None
    with Cons.prems show ?thesis by auto
  next
    case (Some e)
    then obtain c where c: "get_child n e = Some c" "accepts re e c s"
      using pick_child by blast
    obtain es' where w: "walk re c ss = (es', rest)" and es: "es = e # es'"
      using Cons.prems Some c by (auto split: prod.splits)
    from Cons.IH [OF w] es c show ?thesis by auto
  qed
qed

lemma findSegs_walk:
  assumes "wf_node re cur" and "walk re cur ss = (es, rest)" and "node_at cur es = Some n"
  shows "findSegs re root segs cur ps ss =
    (if rest = [] \<or> ntyp (dat n) = NodeTypeAny
     then bind_result (findMdls re (if rest = [] then root else n) segs) (\<lambda>ms.
       Inr (Some \<lparr>mi_n = n, pathParams = ps ++ map_of (rev (bindings cur es ss)), mi_mws = ms\<rparr>))
     else Inr None)"
  using assms
proof (induction ss arbitrary: cur es ps)
  case Nil
  then show ?case by simp
next
  case (Cons s ss)
  show ?case
  proof (cases "pick re cur s")
    case None
    with Cons.prems childOf_pick [OF wf_node_local, of re cur s] show ?thesis by auto
  next
    case (Some e)
    then obtain c where c: "get_child cur e = Some c"
      using pick_child by blast
    obtain es' where w: "walk re c ss = (es', rest)" and es: "es = e # es'"
      using Cons.prems(2) Some c by (auto split: prod.splits)
    from c es Cons.prems(3) have n: "node_at c es' = Some n" by simp
    from Cons.prems(1) c have wfc: "wf_node re c" by (rule wf_node_child)
    show ?thesis
      using Cons.IH [OF wfc w n] childOf_pick [OF wf_node_local [OF Cons.prems(1)], of s] Some c es
      by (simp add: addValue_def)
  qed
qed

lemma node_at_append: "node_at n (es @ fs) = Option.bind (node_at n es) (\<lambda>c. node_at c fs)"
  by (induction es arbitrary: n) (auto split: option.split)

lemma wf_node_at: "wf_node re n \<Longrightarrow> node_at n es = Some c \<Longrightarrow> wf_node re c"
  by (induction es arbitrary: n) (auto split: option.splits dest: wf_node_child)

lemma node_at_link_ok:
  assumes "wf_node re n" and "node_at n (es @ [e]) = Some c"
  shows "link_ok re e (dat c)"
proof -
  from assms(2) obtain d where d: "node_at n es = Some d" "get_child d e = Some c"
    by (auto simp: node_at_append split: option.splits bind_splits)
  with assms(1) have "wf_local re d" by (blast intro: wf_node_at wf_node_local)
  with d(2) show ?thesis by (simp add: wf_local_get)
qed

lemma ntyp_any_star:
  assumes "wf_root re n" and "node_at n es = Some c" and "ntyp (dat c) = NodeTypeAny"
  shows "es \<noteq> [] \<and> last es = EStar"
proof (cases es rule: rev_cases)
  case Nil
  with assms show ?thesis by (auto simp: wf_root_def)
next
  case (snoc es' e)
  with assms node_at_link_ok [of re n es' e c] have "link_ok re e (dat c)"
    by (auto simp: wf_root_def)
  with assms(3) snoc show ?thesis by (cases e) auto
qed

subsection \<open>The middlewares of a request\<close>

text \<open>
  The declarative reading of \<open>findMdls\<close>: the middlewares of all positions whose links accept a
  prefix of the segments.
\<close>

definition applicable :: "regexp_lib \<Rightarrow> ('h, 'm) node \<Rightarrow> string list \<Rightarrow> 'm set" where
  "applicable re n ss =
     {w. \<exists>es k. k \<le> length ss \<and> follows re n es (take k ss) \<and> w \<in> set (route_mws n es)}"

lemma follows_length: "follows re n es ss \<Longrightarrow> length es = length ss"
  by (induction re n es ss rule: follows.induct) (auto split: option.splits)

lemma route_mws_Nil [simp]: "route_mws n [] = mws (dat n)"
  by (simp add: route_mws_def)

lemma route_mws_Cons [simp]:
  "route_mws n (e # es) = (case get_child n e of None \<Rightarrow> [] | Some c \<Rightarrow> route_mws c es)"
  by (simp add: route_mws_def split: option.split)

lemma applicable_Nil: "applicable re n [] = set (mws (dat n))"
proof -
  have "follows re n es [] \<longleftrightarrow> es = []" for es by (cases es) auto
  then show ?thesis by (auto simp: applicable_def)
qed

lemma applicable_Cons:
  "applicable re n (s # ss) =
     set (mws (dat n)) \<union>
     (\<Union>c \<in> next_nodes re n s. applicable re c ss)"
  (is "?L = ?R")
proof (intro equalityI subsetI)
  fix w assume "w \<in> ?L"
  then obtain es k where k: "k \<le> length (s # ss)" and f: "follows re n es (take k (s # ss))"
    and w: "w \<in> set (route_mws n es)"
    unfolding applicable_def by blast
  show "w \<in> ?R"
  proof (cases es)
    case Nil
    with w show ?thesis by simp
  next
    case (Cons e es')
    with f obtain k' where k': "k = Suc k'" by (cases k) auto
    with f Cons obtain c where c: "get_child n e = Some c" "accepts re e c s"
        "follows re c es' (take k' ss)"
      by (auto split: option.splits)
    with w k k' Cons have "w \<in> applicable re c ss"
      unfolding applicable_def by auto
    moreover have "enabled re n e s" using c by (simp add: enabled_def)
    ultimately show ?thesis using c(1) unfolding next_nodes_def by blast
  qed
next
  fix w assume "w \<in> ?R"
  then consider "w \<in> set (mws (dat n))"
    | e c where "get_child n e = Some c" "enabled re n e s" "w \<in> applicable re c ss"
    unfolding next_nodes_def by blast
  then show "w \<in> ?L"
  proof cases
    case 1
    then show ?thesis
      unfolding applicable_def by (auto intro!: exI [where x = "[]"] exI [where x = "0::nat"])
  next
    case (2 e c)
    then obtain es k where "k \<le> length ss" "follows re c es (take k ss)" "w \<in> set (route_mws c es)"
      unfolding applicable_def by blast
    with 2 have "Suc k \<le> length (s # ss) \<and> follows re n (e # es) (take (Suc k) (s # ss)) \<and>
        w \<in> set (route_mws n (e # es))"
      by (simp add: enabled_def)
    then show ?thesis unfolding applicable_def by blast
  qed
qed

lemma concat_matchChildren:
  assumes "\<forall>n \<in> set ns. wf_local re n"
  shows "\<exists>cs. concat_result (matchChildren re s) ns = Inr cs \<and>
    set cs = (\<Union>n \<in> set ns. next_nodes re n s)"
  using assms
proof (induction ns)
  case Nil
  then show ?case by simp
next
  case (Cons n ns)
  then obtain cs where "concat_result (matchChildren re s) ns = Inr cs"
      "set cs = (\<Union>n \<in> set ns. next_nodes re n s)"
    by auto
  moreover obtain ds where "matchChildren re s n = Inr ds" "set ds = next_nodes re n s"
    using matchChildren_enabled Cons.prems by (metis list.set_intros(1))
  ultimately show ?case by simp
qed

lemma mdlLevels_applicable:
  assumes "\<forall>n \<in> set ns. wf_node re n"
  shows "\<exists>ms. mdlLevels re ns ss = Inr ms \<and>
    (\<Union>n \<in> set ns. applicable re n ss) = (\<Union>n \<in> set ns. set (mws (dat n))) \<union> set ms"
  using assms
proof (induction ss arbitrary: ns)
  case Nil
  then show ?case by (simp add: applicable_Nil)
next
  case (Cons s ss)
  from Cons.prems have "\<forall>n \<in> set ns. wf_local re n" by (auto intro: wf_node_local)
  from concat_matchChildren [OF this, of s]
  obtain cs where cs: "concat_result (matchChildren re s) ns = Inr cs"
      "set cs = (\<Union>n \<in> set ns. next_nodes re n s)"
    by auto
  have "\<forall>c \<in> set cs. wf_node re c"
    unfolding cs(2) next_nodes_def using Cons.prems wf_node_child by fast
  from Cons.IH [OF this] obtain ms where ms: "mdlLevels re cs ss = Inr ms"
      "(\<Union>c \<in> set cs. applicable re c ss) = (\<Union>c \<in> set cs. set (mws (dat c))) \<union> set ms"
    by blast
  have "(\<Union>n \<in> set ns. applicable re n (s # ss)) =
      (\<Union>n \<in> set ns. set (mws (dat n))) \<union> (\<Union>c \<in> set cs. applicable re c ss)"
    unfolding applicable_Cons cs(2) by blast
  also have "\<dots> = (\<Union>n \<in> set ns. set (mws (dat n))) \<union>
      set (concat (map (\<lambda>c. mws (dat c)) cs) @ ms)"
    unfolding ms(2) by simp
  finally show ?case using cs(1) ms(1) by simp
qed

lemma findMdls_applicable:
  assumes "wf_node re n"
  shows "\<exists>ms. findMdls re n ss = Inr ms \<and> set ms = applicable re n ss"
  using mdlLevels_applicable [of "[n]" re ss] assms by (auto simp: findMdls_def)

subsection \<open>What findRoute returns\<close>

definition req_segs :: "string \<Rightarrow> string list" where
  "req_segs p = (if p = ''/'' then [] else split_on (CHR ''/'') (trim_on (CHR ''/'') p))"

lemma findRoute_findSegs:
  assumes "trees r m = Some root" and "wf_root re root"
  shows "findRoute re r m p = findSegs re root (req_segs p) root (\<lambda>_. None) (req_segs p)"
  using assms by (auto simp: findRoute_def req_segs_def findMdls_def Let_def)

lemma findRoute_walk:
  assumes "trees r m = Some root" and "wf_root re root"
    and "walk re root (req_segs p) = (es, rest)" and "node_at root es = Some n"
  shows "findRoute re r m p =
    (if rest = [] \<or> ntyp (dat n) = NodeTypeAny
     then bind_result (findMdls re (if rest = [] then root else n) (req_segs p)) (\<lambda>ms.
       Inr (Some \<lparr>mi_n = n, pathParams = map_of (rev (bindings root es (req_segs p))), mi_mws = ms\<rparr>))
     else Inr None)"
  using findSegs_walk [of re root "req_segs p" es rest n root "req_segs p" "\<lambda>_. None"] assms
  by (simp add: findRoute_findSegs [OF assms(1,2)] wf_root_def)

lemma findRoute_no_panic:
  assumes "wf_router re r"
  shows "\<exists>res. findRoute re r m p = Inr res"
proof (cases "trees r m")
  case None
  then show ?thesis by (simp add: findRoute_def)
next
  case (Some root)
  with assms have wf: "wf_root re root" by (simp add: wf_router_def)
  obtain es rest where w: "walk re root (req_segs p) = (es, rest)" by force
  from walk_sound [OF w] obtain n where n: "node_at root es = Some n" by blast
  from wf n have wfn: "wf_node re root" "wf_node re n"
    by (auto simp: wf_root_def intro: wf_node_at)
  obtain ms where "findMdls re (if rest = [] then root else n) (req_segs p) = Inr ms"
    using findMdls_applicable [OF wfn(1)] findMdls_applicable [OF wfn(2)] by metis
  with findRoute_walk [OF Some wf w n] show ?thesis by simp
qed

text \<open>
  Claim C4: on a router built by registrations \<open>findRoute\<close> never panics: for every method and every
  request path it returns a match or reports that there is none.
\<close>

theorem findRoute_total:
  assumes "wf_router re r"
  shows "\<exists>res. findRoute re r m p = Inr res"
  using assms by (rule findRoute_no_panic)

text \<open>What is known of a match, in one place.\<close>

definition matched ::
  "regexp_lib \<Rightarrow> ('h, 'm) router \<Rightarrow> string \<Rightarrow> string list \<Rightarrow> ('h, 'm) matchInfo
   \<Rightarrow> ('h, 'm) node \<Rightarrow> edge list \<Rightarrow> string list \<Rightarrow> bool" where
  "matched re r m segs mi root es rest \<longleftrightarrow>
     trees r m = Some root \<and> wf_root re root \<and> walk re root segs = (es, rest) \<and>
     node_at root es = Some (mi_n mi) \<and> follows re root es (take (length es) segs) \<and>
     length es \<le> length segs \<and> rest = drop (length es) segs \<and>
     (rest = [] \<or> ntyp (dat (mi_n mi)) = NodeTypeAny) \<and>
     findMdls re (if rest = [] then root else mi_n mi) segs = Inr (mi_mws mi) \<and>
     pathParams mi = map_of (rev (bindings root es segs))"

lemma findRoute_matched:
  assumes wfr: "wf_router re r" and found: "findRoute re r m p = Inr (Some mi)"
  shows "\<exists>root es rest. matched re r m (req_segs p) mi root es rest"
proof -
  from found obtain root where root: "trees r m = Some root"
    by (auto simp: findRoute_def split: option.splits)
  with wfr have wf: "wf_root re root" by (simp add: wf_router_def)
  obtain es rest where w: "walk re root (req_segs p) = (es, rest)" by force
  from walk_sound [OF w] obtain n where n: "node_at root es = Some n"
    "follows re root es (take (length es) (req_segs p))" "length es \<le> length (req_segs p)"
    "rest = drop (length es) (req_segs p)" by blast
  from findRoute_walk [OF root wf w n(1)] found
  have "(if rest = [] \<or> ntyp (dat n) = NodeTypeAny
     then bind_result (findMdls re (if rest = [] then root else n) (req_segs p)) (\<lambda>ms.
       Inr (Some \<lparr>mi_n = n, pathParams = map_of (rev (bindings root es (req_segs p))), mi_mws = ms\<rparr>))
     else Inr None) = Inr (Some mi)" by (rule subst)
  then have "mi_n mi = n" "rest = [] \<or> ntyp (dat n) = NodeTypeAny"
    "findMdls re (if rest = [] then root else n) (req_segs p) = Inr (mi_mws mi)"
    "pathParams mi = map_of (rev (bindings root es (req_segs p)))"
    by (auto simp: bind_result_Inr_iff split: if_splits)
  with root wf w n have "matched re r m (req_segs p) mi root es rest"
    by (auto simp: matched_def split: if_splits)
  then show ?thesis by blast
qed

text \<open>
  Claim C2: soundness of the lookup. A match of \<open>findRoute\<close> is a position of the route table whose
  links accept the segments of the request one by one; either they accept all of them, or the
  position ends in a wildcard, which takes the rest. The handler is the one the table holds there,
  and the path parameters are the bindings met on the way, a later one overriding an earlier one.
\<close>

theorem findRoute_sound:
  assumes "wf_router re r" and "findRoute re r m p = Inr (Some mi)"
  shows "\<exists>root es. trees r m = Some root \<and>
    follows re root es (take (length es) (req_segs p)) \<and>
    handler (dat (mi_n mi)) = table r m es \<and>
    (length es = length (req_segs p) \<or>
     length es < length (req_segs p) \<and> es \<noteq> [] \<and> last es = EStar) \<and>
    pathParams mi = map_of (rev (bindings root es (req_segs p)))"
proof -
  obtain root es rest where f: "matched re r m (req_segs p) mi root es rest"
    using findRoute_matched [OF assms] by blast
  then have "handler (dat (mi_n mi)) = table r m es"
    by (simp add: matched_def table_def routes_def obs_def)
  moreover have "length es = length (req_segs p) \<or>
      length es < length (req_segs p) \<and> es \<noteq> [] \<and> last es = EStar"
    using f ntyp_any_star [of re root es "mi_n mi"] by (auto simp: matched_def)
  ultimately show ?thesis using f unfolding matched_def by blast
qed

text \<open>
  The middlewares of an exact match. When the matched node is not a wildcard, \<open>findRoute\<close>
  collects exactly the middlewares of all positions, static, parameter, regular expression or
  wildcard, that accept a prefix of the request, and no others.
\<close>

theorem findRoute_mws_applicable:
  assumes "wf_router re r" and "findRoute re r m p = Inr (Some mi)"
    and "ntyp (dat (mi_n mi)) \<noteq> NodeTypeAny"
  shows "\<exists>root. trees r m = Some root \<and> set (mi_mws mi) = applicable re root (req_segs p)"
proof -
  obtain root es rest where f: "matched re r m (req_segs p) mi root es rest"
    using findRoute_matched [OF assms(1,2)] by blast
  then have "wf_node re root" by (simp add: matched_def wf_root_def)
  from findMdls_applicable [OF this, of "req_segs p"]
  obtain ms where ms: "findMdls re root (req_segs p) = Inr ms"
      "set ms = applicable re root (req_segs p)" by (elim exE conjE)
  from f have "trees r m = Some root" "rest = [] \<or> ntyp (dat (mi_n mi)) = NodeTypeAny"
    and "findMdls re (if rest = [] then root else mi_n mi) (req_segs p) = Inr (mi_mws mi)"
    unfolding matched_def by blast+
  with assms(3) have "trees r m = Some root" "findMdls re root (req_segs p) = Inr (mi_mws mi)"
    by auto
  with ms show ?thesis by simp
qed

subsection \<open>Static routes\<close>

text \<open>Registering a list of routes, each one whether or not it panics.\<close>

fun addRoutes ::
  "regexp_lib \<Rightarrow> ('h, 'm) router \<Rightarrow> (string \<times> string \<times> 'h option \<times> 'm list) list
   \<Rightarrow> ('h, 'm) router" where
  "addRoutes re r [] = r"
| "addRoutes re r ((m, p, h, ms) # rs) = addRoutes re (fst (addRoute re r m p h ms)) rs"

definition static_segs :: "string list \<Rightarrow> bool" where
  "static_segs ss \<longleftrightarrow> (\<forall>s \<in> set ss. s \<noteq> [] \<and> s \<noteq> ''*'' \<and> hd s \<noteq> CHR '':'')"

lemma static_seg_edge: "static_segs ss \<Longrightarrow> map seg_edge ss = map EStatic ss"
  by (auto simp: static_segs_def seg_edge_def)

lemma addRoutes_wf: "wf_router re r \<Longrightarrow> wf_router re (addRoutes re r rs)"
  by (induction re r rs rule: addRoutes.induct) (auto intro: addRoute_wf_step)

lemma addRoutes_table:
  "table r m es = Some h \<Longrightarrow> table (addRoutes re r rs) m es = Some h"
proof (induction re r rs rule: addRoutes.induct)
  case (1 re r)
  then show ?case by simp
next
  case (2 re r m' p' h' ms' rs)
  have "table (fst (addRoute re r m' p' h' ms')) m es = Some h"
  proof (cases "snd (addRoute re r m' p' h' ms') = None")
    case False
    with "2.prems" show ?thesis by (simp only: addRoute_table_step if_False)
  next
    case True
    then have "\<not> (m' = m \<and> path_edges p' = es)"
      using addRoute_taken "2.prems" by metis
    with True "2.prems" show ?thesis by (auto simp: addRoute_table_step)
  qed
  with 2 show ?case by simp
qed

lemma walk_static:
  "node_at n (map EStatic ss) = Some c \<Longrightarrow> walk re n ss = (map EStatic ss, [])"
  by (induction ss arbitrary: n) (auto simp: pick_def split: option.splits)

lemma req_segs_path_segs:
  assumes "p \<noteq> []" and "hd p = CHR ''/''" and "static_segs (path_segs p)"
  shows "req_segs p = path_segs p"
proof (cases "p = ''/''")
  case True
  then show ?thesis by (simp add: req_segs_def path_segs_def)
next
  case False
  then obtain q where p: "p = CHR ''/'' # q" and q: "q \<noteq> []"
    using assms(1,2) by (cases p) auto
  let ?ss = "split_on (CHR ''/'') q"
  have ss: "\<forall>s \<in> set ?ss. s \<noteq> [] \<and> CHR ''/'' \<notin> set s"
    using assms(3) p q by (auto simp: path_segs_def static_segs_def dest: split_on_pieces)
  have j: "join_with (CHR ''/'') ?ss = q" by (rule join_with_split_on)
  have "hd q = hd (hd ?ss)" "last q = last (last ?ss)"
    using hd_join_with [of ?ss "CHR ''/''"] last_join_with [of ?ss "CHR ''/''"] ss j by auto
  moreover have "hd ?ss \<in> set ?ss" "last ?ss \<in> set ?ss" by simp_all
  ultimately have "hd q \<noteq> CHR ''/''" "last q \<noteq> CHR ''/''"
    using ss by (metis hd_in_set, metis last_in_set)
  with p q False show ?thesis
    by (simp add: req_segs_def path_segs_def trim_on_id)
qed

lemma addRoute_hd:
  "snd (addRoute re r m p h ms) = None \<Longrightarrow> p \<noteq> [] \<and> hd p = CHR ''/''"
  by (auto simp: addRoute_def split: if_splits)

lemma findRoute_static_table:
  assumes "wf_router re r" and "table r m (path_edges p) = Some h"
    and "p \<noteq> []" and "hd p = CHR ''/''" and "static_segs (path_segs p)"
  shows "\<exists>mi. findRoute re r m p = Inr (Some mi) \<and> handler (dat (mi_n mi)) = Some h"
proof -
  from assms(2) obtain root n where root: "trees r m = Some root"
    and n: "node_at root (map EStatic (path_segs p)) = Some n" "handler (dat n) = Some h"
    using static_seg_edge [OF assms(5)]
    by (auto simp: table_def routes_def obs_def path_edges_def split: option.splits)
  from root assms(1) have wf: "wf_root re root" by (simp add: wf_router_def)
  then have wfn: "wf_node re root" by (simp add: wf_root_def)
  note segs = req_segs_path_segs [OF assms(3-5)]
  from walk_static [OF n(1), of re] have "walk re root (req_segs p) = (path_edges p, [])"
    by (simp add: segs static_seg_edge [OF assms(5)] path_edges_def)
  from findRoute_walk [OF root wf this] n(1) findMdls_applicable [OF wfn, of "path_segs p"] root
  show ?thesis
    using n(2) segs static_seg_edge [OF assms(5)] by (auto simp: path_edges_def)
qed

lemma static_route_found:
  assumes "wf_router re r" and "static_segs (path_segs p)"
    and "snd (addRoute re r m p (Some h) ms) = None"
  shows "\<exists>mi. findRoute re (addRoutes re (fst (addRoute re r m p (Some h) ms)) rs) m p = Inr (Some mi) \<and>
    handler (dat (mi_n mi)) = Some h"
proof -
  let ?r = "fst (addRoute re r m p (Some h) ms)"
  have "table ?r m (path_edges p) = Some h"
    using assms(3) by (simp add: addRoute_table_step)
  then have "table (addRoutes re ?r rs) m (path_edges p) = Some h"
    by (rule addRoutes_table)
  moreover have "wf_router re (addRoutes re ?r rs)"
    using assms(1) by (intro addRoutes_wf addRoute_wf_step)
  moreover have "p \<noteq> []" "hd p = CHR ''/''"
    using addRoute_hd [OF assms(3)] by blast+
  ultimately show ?thesis
    using assms(2) by (intro findRoute_static_table)
qed

text \<open>
  Claim C3: a static route, once registered, is found for ever. After a successful registration of a
  path without parameters, regular expressions or wildcards, a request for that very path reaches
  the registered handler, whatever is registered before or after it, by panicking calls too.
\<close>

theorem static_route_permanent:
  assumes "wf_router re r" and "static_segs (path_segs p)"
    and "snd (addRoute re r m p (Some h) ms) = None"
  shows "\<exists>mi. findRoute re (addRoutes re (fst (addRoute re r m p (Some h) ms)) rs) m p = Inr (Some mi) \<and>
    handler (dat (mi_n mi)) = Some h"
  using assms by (rule static_route_found)

subsection \<open>Wildcards take the rest of the path\<close>

lemma walk_append:
  assumes "walk re n ss = (es, [])" and "node_at n es = Some c"
  shows "walk re n (ss @ ts) = (case walk re c ts of (fs, rest) \<Rightarrow> (es @ fs, rest))"
  using assms
proof (induction ss arbitrary: n es)
  case Nil
  then show ?case by simp
next
  case (Cons s ss)
  then obtain e d where e: "pick re n s = Some e" "get_child n e = Some d"
    by (cases "pick re n s") (auto dest: pick_child)
  then obtain es' where "walk re d ss = (es', [])" "es = e # es'"
    using Cons.prems(1) by (auto split: prod.splits)
  with Cons.IH [of d es'] Cons.prems(2) e show ?case by (auto split: prod.splits)
qed

lemma walk_stuck:
  assumes "walk re n ss = (es, s # rest)" and "node_at n es = Some c"
  shows "walk re n (ss @ ts) = (es, s # rest @ ts)"
  using assms
proof (induction ss arbitrary: n es)
  case Nil
  then show ?case by simp
next
  case (Cons s' ss)
  show ?case
  proof (cases "pick re n s'")
    case None
    with Cons.prems show ?thesis by auto
  next
    case (Some e)
    then obtain d where e: "get_child n e = Some d"
      using pick_child by blast
    then obtain es' where "walk re d ss = (es', s # rest)" "es = e # es'"
      using Cons.prems(1) Some by (auto split: prod.splits)
    with Cons.IH [of d es'] Cons.prems(2) Some e show ?thesis by auto
  qed
qed

lemma bindings_take:
  "length es \<le> length ss \<Longrightarrow> bindings n es (ss @ ts) = bindings n es ss"
proof (induction es arbitrary: n ss)
  case Nil
  then show ?case by simp
next
  case (Cons e es)
  then show ?case by (cases ss) (auto split: option.split)
qed

lemma mdlLevels_no_nodes [simp]: "mdlLevels re [] ss = Inr []"
  by (induction ss) auto

lemma mdlLevels_leaf:
  "(\<And>e. get_child n e = None) \<Longrightarrow> mdlLevels re [n] (s # ss) = Inr []"
  by (simp add: matchChildren_def)

lemma req_segs_append:
  assumes "p \<noteq> ''/''" "p \<noteq> []" "hd p = CHR ''/''" "hd (tl p) \<noteq> CHR ''/''" "last p \<noteq> CHR ''/''"
    and "q \<noteq> []" "last q \<noteq> CHR ''/''"
  shows "req_segs (p @ CHR ''/'' # q) = req_segs p @ split_on (CHR ''/'') q"
proof -
  from assms(1-3) obtain t where p: "p = CHR ''/'' # t" and t: "t \<noteq> []"
    by (cases p) auto
  with assms have ht: "hd t \<noteq> CHR ''/''" "last t \<noteq> CHR ''/''" by auto
  have "trim_on (CHR ''/'') (t @ CHR ''/'' # q) = t @ CHR ''/'' # q"
    using t ht(1) assms(6,7) by (intro trim_on_append_id) auto
  with p t ht show ?thesis
    by (simp add: req_segs_def trim_on_id split_on_append)
qed

text \<open>
  Claim C13: a wildcard at the end of a route takes the rest of the path, and the request then loses
  the middlewares above it. In a router built by registrations, if a request reaches a wildcard node
  without children, every longer path under it reaches the same node with the same parameters; but its
  middlewares are those of the wildcard node alone, since \<open>findMdls\<close> is started there and not at the root.
  The request is any path other than \<open>/\<close> that begins with one slash and does not end in one; what is added
  behind another slash is not empty and does not end in one either.
\<close>

theorem wildcard_tail:
  assumes "wf_router re r" and "findRoute re r m p = Inr (Some mi)"
    and "ntyp (dat (mi_n mi)) = NodeTypeAny" and "\<And>e. get_child (mi_n mi) e = None"
    and "p \<noteq> ''/''" "p \<noteq> []" "hd p = CHR ''/''" "hd (tl p) \<noteq> CHR ''/''" "last p \<noteq> CHR ''/''"
    and "q \<noteq> []" "last q \<noteq> CHR ''/''"
  shows "findRoute re r m (p @ CHR ''/'' # q) =
    Inr (Some \<lparr>mi_n = mi_n mi, pathParams = pathParams mi, mi_mws = mws (dat (mi_n mi))\<rparr>)"
proof -
  obtain root es rest where f: "matched re r m (req_segs p) mi root es rest"
    using findRoute_matched [OF assms(1,2)] by blast
  then have root: "trees r m = Some root" and wf: "wf_root re root"
    and w: "walk re root (req_segs p) = (es, rest)" and n: "node_at root es = Some (mi_n mi)"
    and len: "length es \<le> length (req_segs p)"
    and ps: "pathParams mi = map_of (rev (bindings root es (req_segs p)))"
    unfolding matched_def by blast+
  obtain t ts where q: "split_on (CHR ''/'') q = t # ts"
    by (cases "split_on (CHR ''/'') q") auto
  have segs: "req_segs (p @ CHR ''/'' # q) = req_segs p @ t # ts"
    using req_segs_append [OF assms(5-11)] q by simp
  have leaf: "walk re (mi_n mi) (t # ts) = ([], t # ts)"
    using assms(4) by (simp add: pick_def enabled_def)
  obtain u us where w': "walk re root (req_segs p @ t # ts) = (es, u # us)"
    using walk_append [OF _ n] walk_stuck [OF _ n] w leaf
    by (cases rest) auto
  obtain v vs where "req_segs p @ t # ts = v # vs"
    by (cases "req_segs p") auto
  then have "findMdls re (mi_n mi) (req_segs p @ t # ts) = Inr (mws (dat (mi_n mi)))"
    using mdlLevels_leaf [OF assms(4)] by (simp add: findMdls_def)
  then show ?thesis
    using findRoute_walk [OF root wf _ n, of "p @ CHR ''/'' # q" "u # us"] w' segs assms(3)
      bindings_take [OF len, of root "t # ts"] ps by simp
qed

subsection \<open>Concrete runs\<close>

definition one_node :: "(nat, nat) node" where
  "one_node = set_handler (Some 1) [7] (new_node NodeTypeStatic ''a'' [] None)"

lemma one_route_tree:
  "trees one_route = [''GET'' \<mapsto>
     put_child (new_node NodeTypeStatic ''/'' [] None) (EStatic ''a'') one_node]"
  by (simp add: one_route_def run_addRoute one_node_def)

lemma one_route_found:
  "findRoute any_re one_route ''GET'' ''/a'' =
     Inr (Some \<lparr>mi_n = one_node, pathParams = (\<lambda>_. None), mi_mws = [7]\<rparr>)"
  by (simp add: findRoute_def one_route_tree trim_on_def childOf_def findMdls_def matchChildren_def one_node_def)

theorem findRoute_total_witness: "\<exists>res. findRoute any_re one_route ''GET'' ''/a/b'' = Inr res"
  by (rule findRoute_total) (rule wf_one_route)

theorem findRoute_sound_witness:
  "\<exists>root es. trees one_route ''GET'' = Some root \<and>
    follows any_re root es (take (length es) (req_segs ''/a'')) \<and>
    handler (dat one_node) = table one_route ''GET'' es \<and>
    (length es = length (req_segs ''/a'') \<or>
     length es < length (req_segs ''/a'') \<and> es \<noteq> [] \<and> last es = EStar) \<and>
    (\<lambda>_. None) = map_of (rev (bindings root es (req_segs ''/a'')))"
  using findRoute_sound [OF wf_one_route one_route_found] by simp

theorem findRoute_mws_applicable_witness:
  "\<exists>root. trees one_route ''GET'' = Some root \<and> {7} = applicable any_re root (req_segs ''/a'')"
  using findRoute_mws_applicable [OF wf_one_route one_route_found] by (simp add: one_node_def)

theorem static_route_permanent_witness:
  "\<exists>mi. findRoute any_re (addRoutes any_re (fst (addRoute any_re one_route ''GET'' ''/b'' (Some 2) []))
      [(''GET'', ''/*'', Some 3, [])]) ''GET'' ''/b'' = Inr (Some mi) \<and> handler (dat (mi_n mi)) = Some 2"
proof (rule static_route_permanent [OF wf_one_route])
  show "static_segs (path_segs ''/b'')" by (simp add: static_segs_def path_segs_def)
  show "snd (addRoute any_re one_route ''GET'' ''/b'' (Some 2) []) = None"
    by (simp add: addRoute_def one_route_tree childOrCreate_def)
qed

definition star_node :: "(nat, nat) node" where
  "star_node = set_handler (Some 1) [7] (new_node NodeTypeAny ''*'' [] None)"

definition star_route :: "(nat, nat) router" where
  "star_route = fst (addRoute any_re newRouter ''GET'' ''/*'' (Some 1) [7])"

lemma star_route_found:
  "findRoute any_re star_route ''GET'' ''/x'' =
     Inr (Some \<lparr>mi_n = star_node, pathParams = (\<lambda>_. None), mi_mws = [7]\<rparr>)"
  by (simp add: star_route_def run_addRoute star_node_def findRoute_def trim_on_def childOf_def
        childOfNonStatic_def findMdls_def matchChildren_def)

theorem wildcard_tail_witness:
  "findRoute any_re star_route ''GET'' ''/x/y/z'' =
     Inr (Some \<lparr>mi_n = star_node, pathParams = (\<lambda>_. None), mi_mws = [7]\<rparr>)"
proof -
  have "wf_router any_re star_route"
    unfolding star_route_def by (rule addRoute_wf_step) (rule wf_newRouter)
  from wildcard_tail [OF this star_route_found, of "''y/z''"] show ?thesis
    by (simp add: star_node_def)
qed

end
