(* ===== verification/Web_Router1.thy ===== *)
theory Web_Router1
  imports Web_Lookup
begin

text \<open>
  \<open>homework1\<close>: the same router before middlewares were added (\<open>homework1/route.go\<close>), its request
  context and its \<open>serve\<close> (\<open>homework1/context.go\<close>, \<open>homework1/server.go\<close>). The definitions follow
  that file; the panics, node types and links, which are the same in both packages, are shared.

  The second half shows that \<open>homework2\<close> extends \<open>homework1\<close> conservatively: \<open>erase\<close> forgets the
  middlewares, and commutes with registration and lookup.
\<close>

subsection \<open>Data\<close>

record 'h node_data1 =
  ntyp1 :: nodeType
  path1 :: string
  handler1 :: "'h option"
  paramName1 :: string
  regExpr1 :: "string option"

datatype 'h node1 =
  Node1 (dat1: "'h node_data1")
        (children1: "string \<Rightarrow> 'h node1 option")
        (starChild1: "'h node1 option")
        (paramChild1: "'h node1 option")
        (regChild1: "'h node1 option")

record 'h router1 =
  trees1 :: "string \<Rightarrow> 'h node1 option"

record 'h matchInfo1 =
  mi_n1 :: "'h node1"
  pathParams1 :: "string \<Rightarrow> string option"

definition newRouter1 :: "'h router1" where
  "newRouter1 = \<lparr>trees1 = (\<lambda>_. None)\<rparr>"

definition new_node1 :: "nodeType \<Rightarrow> string \<Rightarrow> string \<Rightarrow> string option \<Rightarrow> 'h node1" where
  "new_node1 t p name expr =
     Node1 \<lparr>ntyp1 = t, path1 = p, handler1 = None, paramName1 = name, regExpr1 = expr\<rparr>
       (\<lambda>_. None) None None None"

fun get_child1 :: "'h node1 \<Rightarrow> edge \<Rightarrow> 'h node1 option" where
  "get_child1 n (EStatic s) = children1 n s"
| "get_child1 n EReg = regChild1 n"
| "get_child1 n EParam = paramChild1 n"
| "get_child1 n EStar = starChild1 n"

fun put_child1 :: "'h node1 \<Rightarrow> edge \<Rightarrow> 'h node1 \<Rightarrow> 'h node1" where
  "put_child1 (Node1 d ch st pa rg) (EStatic s) c = Node1 d (ch(s \<mapsto> c)) st pa rg"
| "put_child1 (Node1 d ch st pa rg) EReg c = Node1 d ch st pa (Some c)"
| "put_child1 (Node1 d ch st pa rg) EParam c = Node1 d ch st (Some c) rg"
| "put_child1 (Node1 d ch st pa rg) EStar c = Node1 d ch (Some c) pa rg"

subsection \<open>Registration\<close>

definition parseParam1 :: "string \<Rightarrow> string \<times> string \<times> bool" where
  "parseParam1 p =
     (let q = tl p in
      case split_first (CHR ''('') q of
        Some (name, expr) \<Rightarrow>
          if expr \<noteq> [] \<and> last expr = CHR '')'' then (name, butlast expr, True)
          else (q, [], False)
      | None \<Rightarrow> (q, [], False))"

definition childOrCreateParam1 ::
  "'h node1 \<Rightarrow> string \<Rightarrow> string \<Rightarrow> (web_panic, 'h node1 \<times> edge) result" where
  "childOrCreateParam1 n p name =
     (if regChild1 n \<noteq> None then Inl (ParamAfterReg p)
      else if starChild1 n \<noteq> None then Inl (ParamAfterStar p)
      else case paramChild1 n of
        Some c \<Rightarrow>
          if path1 (dat1 c) \<noteq> p then Inl (ParamConflict (path1 (dat1 c)) p) else Inr (n, EParam)
      | None \<Rightarrow> Inr (put_child1 n EParam (new_node1 NodeTypeParam p name None), EParam))"

definition childOrCreateReg1 ::
  "regexp_lib \<Rightarrow> 'h node1 \<Rightarrow> string \<Rightarrow> string \<Rightarrow> string \<Rightarrow> (web_panic, 'h node1 \<times> edge) result" where
  "childOrCreateReg1 re n p expr name =
     (if starChild1 n \<noteq> None then Inl (RegAfterStar p)
      else if paramChild1 n \<noteq> None then Inl (RegAfterParam p)
      else case regChild1 n of
        Some c \<Rightarrow>
          (case regExpr1 (dat1 c) of
             None \<Rightarrow> Inl NilDeref
           | Some e \<Rightarrow>
               if e \<noteq> expr \<or> paramName1 (dat1 n) \<noteq> name
               then Inl (RegConflict (path1 (dat1 c)) p) else Inr (n, EReg))
      | None \<Rightarrow>
          if re_compiles re expr
          then Inr (put_child1 n EReg (new_node1 NodeTypeReg p name (Some expr)), EReg)
          else Inl (BadRegexp expr))"

definition childOrCreate1 ::
  "regexp_lib \<Rightarrow> 'h node1 \<Rightarrow> string \<Rightarrow> (web_panic, 'h node1 \<times> edge) result" where
  "childOrCreate1 re n p =
     (if p = ''*'' then
        if paramChild1 n \<noteq> None then Inl (StarAfterParam p)
        else if regChild1 n \<noteq> None then Inl (StarAfterReg p)
        else if starChild1 n = None
          then Inr (put_child1 n EStar (new_node1 NodeTypeAny p [] None), EStar)
        else Inr (n, EStar)
      else if p = [] then Inl IndexOutOfRange
      else if hd p = CHR '':'' then
        (case parseParam1 p of (name, expr, isReg) \<Rightarrow>
           if isReg then childOrCreateReg1 re n p expr name else childOrCreateParam1 n p name)
      else if children1 n p = None
        then Inr (put_child1 n (EStatic p) (new_node1 NodeTypeStatic p [] None), EStatic p)
      else Inr (n, EStatic p))"

fun set_handler1 :: "'h option \<Rightarrow> 'h node1 \<Rightarrow> 'h node1" where
  "set_handler1 h (Node1 d ch st pa rg) = Node1 (d\<lparr>handler1 := h\<rparr>) ch st pa rg"

fun addSegs1 ::
  "regexp_lib \<Rightarrow> string \<Rightarrow> 'h option \<Rightarrow> string list \<Rightarrow> 'h node1 \<Rightarrow> 'h node1 \<times> web_panic option" where
  "addSegs1 re p h [] n =
     (if handler1 (dat1 n) \<noteq> None then (n, Some (RouteConflict p)) else (set_handler1 h n, None))"
| "addSegs1 re p h (s # ss) n =
     (if s = [] then (n, Some (IllegalRoute p))
      else case childOrCreate1 re n s of
        Inl e \<Rightarrow> (n, Some e)
      | Inr (n', e) \<Rightarrow>
          (case get_child1 n' e of
             None \<Rightarrow> (n', Some NilDeref)
           | Some c \<Rightarrow> (case addSegs1 re p h ss c of (c', r) \<Rightarrow> (put_child1 n' e c', r))))"

definition addRoute1 ::
  "regexp_lib \<Rightarrow> 'h router1 \<Rightarrow> string \<Rightarrow> string \<Rightarrow> 'h option \<Rightarrow> 'h router1 \<times> web_panic option" where
  "addRoute1 re r method p h =
     (if p = [] then (r, Some EmptyPath)
      else if hd p \<noteq> CHR ''/'' then (r, Some NoLeadingSlash)
      else if p \<noteq> ''/'' \<and> last p = CHR ''/'' then (r, Some TrailingSlash)
      else
        let root = (case trees1 r method of
                      Some n \<Rightarrow> n
                    | None \<Rightarrow> new_node1 NodeTypeStatic ''/'' [] None);
            store = (\<lambda>n. r\<lparr>trees1 := (trees1 r)(method \<mapsto> n)\<rparr>)
        in if p = ''/'' then
             if handler1 (dat1 root) \<noteq> None then (store root, Some RootConflict)
             else (store (set_handler1 h root), None)
           else case addSegs1 re p h (split_on (CHR ''/'') (tl p)) root of
                  (root', e) \<Rightarrow> (store root', e))"

subsection \<open>Lookup\<close>

definition childOfNonStatic1 ::
  "regexp_lib \<Rightarrow> 'h node1 \<Rightarrow> string \<Rightarrow> (web_panic, 'h node1 option) result" where
  "childOfNonStatic1 re n s =
     (let rest = (if paramChild1 n \<noteq> None then paramChild1 n else starChild1 n) in
      case regChild1 n of
        Some c \<Rightarrow>
          (case regExpr1 (dat1 c) of
             None \<Rightarrow> Inl NilDeref
           | Some ex \<Rightarrow> Inr (if re_match re ex s then Some c else rest))
      | None \<Rightarrow> Inr rest)"

definition childOf1 ::
  "regexp_lib \<Rightarrow> 'h node1 \<Rightarrow> string \<Rightarrow> (web_panic, 'h node1 option) result" where
  "childOf1 re n s =
     (case children1 n s of None \<Rightarrow> childOfNonStatic1 re n s | Some c \<Rightarrow> Inr (Some c))"

definition addValue1 :: "(string \<Rightarrow> string option) \<Rightarrow> string \<Rightarrow> string \<Rightarrow> (string \<Rightarrow> string option)" where
  "addValue1 ps key val = ps(key \<mapsto> val)"

fun findSegs1 ::
  "regexp_lib \<Rightarrow> 'h node1 \<Rightarrow> (string \<Rightarrow> string option) \<Rightarrow> string list
   \<Rightarrow> (web_panic, 'h matchInfo1 option) result" where
  "findSegs1 re root ps [] = Inr (Some \<lparr>mi_n1 = root, pathParams1 = ps\<rparr>)"
| "findSegs1 re root ps (s # ss) =
     bind_result (childOf1 re root s) (\<lambda>co.
       case co of
         None \<Rightarrow>
           if ntyp1 (dat1 root) = NodeTypeAny
           then Inr (Some \<lparr>mi_n1 = root, pathParams1 = ps\<rparr>) else Inr None
       | Some child \<Rightarrow>
           findSegs1 re child
             (if paramName1 (dat1 child) \<noteq> [] then addValue1 ps (paramName1 (dat1 child)) s else ps)
             ss)"

definition findRoute1 ::
  "regexp_lib \<Rightarrow> 'h router1 \<Rightarrow> string \<Rightarrow> string \<Rightarrow> (web_panic, 'h matchInfo1 option) result" where
  "findRoute1 re r method p =
     (case trees1 r method of
        None \<Rightarrow> Inr None
      | Some root \<Rightarrow>
          if p = ''/'' then Inr (Some \<lparr>mi_n1 = root, pathParams1 = (\<lambda>_. None)\<rparr>)
          else findSegs1 re root (\<lambda>_. None) (split_on (CHR ''/'') (trim_on (CHR ''/'') p)))"

subsection \<open>Serving\<close>

record Context1 =
  req_method :: string
  req_path :: string
  resp_status :: "nat option"
  resp_body :: string
  PathParams :: "string \<Rightarrow> string option"

definition write_resp :: "nat \<Rightarrow> string \<Rightarrow> 'c Context1_scheme \<Rightarrow> 'c Context1_scheme" where
  "write_resp st body ctx = ctx\<lparr>resp_status := Some st, resp_body := resp_body ctx @ body\<rparr>"

definition serve1 ::
  "regexp_lib \<Rightarrow> ('c Context1_scheme \<Rightarrow> 'c Context1_scheme) router1 \<Rightarrow> 'c Context1_scheme
   \<Rightarrow> (web_panic, 'c Context1_scheme) result" where
  "serve1 re s ctx =
     bind_result (findRoute1 re s (req_method ctx) (req_path ctx)) (\<lambda>found.
       case found of
         None \<Rightarrow> Inr (write_resp 404 ''Not Found'' ctx)
       | Some mi \<Rightarrow>
           (case handler1 (dat1 (mi_n1 mi)) of
              None \<Rightarrow> Inr (write_resp 404 ''Not Found'' ctx)
            | Some h \<Rightarrow> Inr (h (ctx\<lparr>PathParams := pathParams1 mi\<rparr>))))"

text \<open>A server is its router; \<open>ServeHTTP\<close> makes a fresh context for the request.\<close>

definition NewHTTPServer1 :: "'h router1" where
  "NewHTTPServer1 = newRouter1"

definition new_context1 :: "string \<Rightarrow> string \<Rightarrow> Context1" where
  "new_context1 m p = \<lparr>req_method = m, req_path = p, resp_status = None, resp_body = [], PathParams = (\<lambda>_. None)\<rparr>"

definition ServeHTTP1 ::
  "regexp_lib \<Rightarrow> (Context1 \<Rightarrow> Context1) router1 \<Rightarrow> string \<Rightarrow> string \<Rightarrow> (web_panic, Context1) result" where
  "ServeHTTP1 re s m p = serve1 re s (new_context1 m p)"

definition Post1 :: "regexp_lib \<Rightarrow> 'h router1 \<Rightarrow> string \<Rightarrow> 'h option \<Rightarrow> 'h router1 \<times> web_panic option" where
  "Post1 re s p h = addRoute1 re s ''POST'' p h"

definition Get1 :: "regexp_lib \<Rightarrow> 'h router1 \<Rightarrow> string \<Rightarrow> 'h option \<Rightarrow> 'h router1 \<times> web_panic option" where
  "Get1 re s p h = addRoute1 re s ''GET'' p h"

subsection \<open>Erasing the middlewares\<close>

definition erase_data :: "('h, 'm) node_data \<Rightarrow> 'h node_data1" where
  "erase_data d =
     \<lparr>ntyp1 = ntyp d, path1 = path d, handler1 = handler d, paramName1 = paramName d,
      regExpr1 = regExpr d\<rparr>"

primrec erase :: "('h, 'm) node \<Rightarrow> 'h node1" where
  "erase (Node d ch st pa rg) =
     Node1 (erase_data d) (map_option erase \<circ> ch) (map_option erase st) (map_option erase pa)
       (map_option erase rg)"

definition erase_router :: "('h, 'm) router \<Rightarrow> 'h router1" where
  "erase_router r = \<lparr>trees1 = (\<lambda>m. map_option erase (trees r m))\<rparr>"

definition erase_mi :: "('h, 'm) matchInfo \<Rightarrow> 'h matchInfo1" where
  "erase_mi mi = \<lparr>mi_n1 = erase (mi_n mi), pathParams1 = pathParams mi\<rparr>"

lemma erase_data_sel [simp]:
  "ntyp1 (erase_data d) = ntyp d" "path1 (erase_data d) = path d"
  "handler1 (erase_data d) = handler d" "paramName1 (erase_data d) = paramName d"
  "regExpr1 (erase_data d) = regExpr d"
  by (simp_all add: erase_data_def)

lemma dat1_erase [simp]: "dat1 (erase n) = erase_data (dat n)"
  by (cases n) simp

lemma get_child1_erase [simp]: "get_child1 (erase n) e = map_option erase (get_child n e)"
  by (cases n; cases e) auto

lemma child1_erase [simp]:
  "starChild1 (erase n) = map_option erase (get_child n EStar)"
  "paramChild1 (erase n) = map_option erase (get_child n EParam)"
  "regChild1 (erase n) = map_option erase (get_child n EReg)"
  "children1 (erase n) s = map_option erase (get_child n (EStatic s))"
  by (cases n; simp)+

lemma put_child1_erase [simp]: "put_child1 (erase n) e (erase c) = erase (put_child n e c)"
  by (cases n; cases e) (auto simp: fun_eq_iff)

lemma erase_new_node [simp]: "erase (new_node t p name ex) = new_node1 t p name ex"
  by (simp add: new_node1_def new_node_def erase_data_def fun_eq_iff)

lemma put_new_node1_erase [simp]:
  "put_child1 (erase n) e (new_node1 t p name ex) = erase (put_child n e (new_node t p name ex))"
  by (simp flip: put_child1_erase)

lemma set_handler1_erase [simp]: "set_handler1 h (erase n) = erase (set_handler h ms n)"
  by (cases n) (simp add: erase_data_def)

lemma childOrCreateParam1_erase:
  "childOrCreateParam1 (erase n) s name =
     map_sum id (map_prod erase id) (childOrCreateParam n s name)"
  by (auto simp: childOrCreateParam1_def childOrCreateParam_def split: option.split)

lemma childOrCreateReg1_erase:
  "childOrCreateReg1 re (erase n) s ex name =
     map_sum id (map_prod erase id) (childOrCreateReg re n s ex name)"
  by (auto simp: childOrCreateReg1_def childOrCreateReg_def split: option.split)

lemma parseParam1_eq: "parseParam1 p = parseParam p"
  by (simp add: parseParam1_def parseParam_def)

lemma childOrCreate1_erase:
  "childOrCreate1 re (erase n) s = map_sum id (map_prod erase id) (childOrCreate re n s)"
  unfolding childOrCreate1_def childOrCreate_def childOrCreateParam1_erase childOrCreateReg1_erase
    child1_erase option.map_disc_iff get_child_simps parseParam1_eq
  by (simp split: prod.split)

lemma addSegs1_erase:
  "addSegs1 re p h ss (erase n) = map_prod erase id (addSegs re p h ms ss n)"
proof (induction ss arbitrary: n)
  case Nil
  then show ?case by (simp add: set_handler1_erase [of h n ms])
next
  case (Cons s ss)
  show ?case
  proof (cases "childOrCreate re n s")
    case (Inl e)
    then show ?thesis by (simp add: childOrCreate1_erase)
  next
    case (Inr b)
    then show ?thesis
      using Cons.IH
      by (auto simp: childOrCreate1_erase split: option.split prod.split sum.split)
  qed
qed

text \<open>
  Registration in \<open>homework2\<close> is registration in \<open>homework1\<close> plus middlewares. Erasing the
  middlewares of a router and then registering a route, or registering it with any middlewares and
  then erasing them, give the same router and the same panic, for every router and path.
\<close>

theorem addRoute_erase:
  "addRoute1 re (erase_router r) m p h = map_prod erase_router id (addRoute re r m p h ms)"
proof -
  let ?root = "case trees r m of Some n \<Rightarrow> n | None \<Rightarrow> new_node NodeTypeStatic ''/'' [] None"
  have root: "(case trees1 (erase_router r) m of Some n \<Rightarrow> n
      | None \<Rightarrow> new_node1 NodeTypeStatic ''/'' [] None) = erase ?root"
    by (simp add: erase_router_def split: option.split)
  have store: "(erase_router r)\<lparr>trees1 := (trees1 (erase_router r))(m \<mapsto> erase n)\<rparr> =
      erase_router (r\<lparr>trees := (trees r)(m \<mapsto> n)\<rparr>)" for n
    by (simp add: erase_router_def fun_eq_iff)
  show ?thesis
    unfolding addRoute1_def addRoute_def Let_def root
    by (simp add: store addSegs1_erase [where ms = ms] set_handler1_erase [where ms = ms]
             split: prod.split)
qed

lemma childOf1_erase: "childOf1 re (erase n) s = map_sum id (map_option erase) (childOf re n s)"
  by (auto simp: childOf1_def childOf_def childOfNonStatic1_def childOfNonStatic_def reg_matches_def
                 Let_def split: option.split)

lemma findSegs1_erase:
  assumes "wf_node re root" and "wf_node re cur"
  shows "findSegs1 re (erase cur) ps ss =
    map_sum id (map_option erase_mi) (findSegs re root segs cur ps ss)"
  using assms(2)
proof (induction ss arbitrary: cur ps)
  case Nil
  obtain ms where "findMdls re root segs = Inr ms"
    using findMdls_applicable [OF assms(1)] by blast
  then show ?case by (simp add: erase_mi_def)
next
  case (Cons s ss)
  have co: "childOf re cur s = Inr (Option.bind (pick re cur s) (get_child cur))"
    by (rule childOf_pick [OF wf_node_local [OF Cons.prems]])
  show ?case
  proof (cases "Option.bind (pick re cur s) (get_child cur)")
    case None
    obtain ms where "findMdls re cur segs = Inr ms"
      using findMdls_applicable [OF Cons.prems] by blast
    with None co show ?thesis by (simp add: childOf1_erase erase_mi_def)
  next
    case (Some c)
    then have "wf_node re c"
      using Cons.prems by (auto simp: bind_eq_Some_conv dest: wf_node_child)
    with Some co Cons.IH [of c] show ?thesis
      by (simp add: childOf1_erase addValue1_def addValue_def)
  qed
qed

lemma findRoute1_erase:
  assumes "wf_router re r"
  shows "findRoute1 re (erase_router r) m p = map_sum id (map_option erase_mi) (findRoute re r m p)"
proof (cases "trees r m")
  case None
  then show ?thesis by (simp add: findRoute1_def findRoute_def erase_router_def)
next
  case (Some root)
  with assms have "wf_node re root" by (auto simp: wf_router_def wf_root_def)
  with Some findSegs1_erase [of re root root] show ?thesis
    by (auto simp: findRoute1_def findRoute_def erase_router_def erase_mi_def Let_def)
qed

text \<open>
  A lookup in \<open>homework2\<close> finds what \<open>homework1\<close> finds. On every router that registrations
  can build, the match of \<open>homework2\<close>, its middlewares forgotten, is the match of \<open>homework1\<close> on the
  erased router: same node, same path parameters, and no match exactly when there is none there.
\<close>

theorem findRoute_erase:
  assumes "wf_router re r"
  shows "findRoute1 re (erase_router r) m p = map_sum id (map_option erase_mi) (findRoute re r m p)"
  using assms by (rule findRoute1_erase)

theorem findRoute_erase_witness:
  "findRoute1 any_re (erase_router one_route) ''GET'' ''/a'' =
     map_sum id (map_option erase_mi) (findRoute any_re one_route ''GET'' ''/a'')"
  by (rule findRoute_erase) (rule wf_one_route)

end
