(* ===== verification/Web_Server.thy ===== *)
theory Web_Server
  imports Web_Router1
begin

text \<open>
  \<open>homework2/server.go\<close>, \<open>homework2/context.go\<close> and \<open>homework2/middleware.go\<close>. A handler is a
  function on the request context; the request's method and path, and what has been written to the
  response, are fields of the context. \<open>Start\<close> only hands the server to \<open>http.ListenAndServe\<close> and
  is not modelled.
\<close>

record Context = Context1 +
  RespStatusCode :: int
  RespData :: string

type_synonym HandleFunc = "Context \<Rightarrow> Context"
type_synonym Middleware = "HandleFunc \<Rightarrow> HandleFunc"
type_synonym HTTPServer = "(HandleFunc, Middleware) router"

definition NewHTTPServer :: HTTPServer where
  "NewHTTPServer = newRouter"

text \<open>\<open>ServeHTTP\<close> makes a fresh context for the request and calls \<open>serve\<close>.\<close>

definition new_context :: "string \<Rightarrow> string \<Rightarrow> Context" where
  "new_context m p =
     \<lparr>req_method = m, req_path = p, resp_status = None, resp_body = [],
      PathParams = (\<lambda>_. None), RespStatusCode = 0, RespData = []\<rparr>"

definition serve :: "regexp_lib \<Rightarrow> HTTPServer \<Rightarrow> Context \<Rightarrow> (web_panic, Context) result" where
  "serve re s ctx =
     bind_result (findRoute re s (req_method ctx) (req_path ctx)) (\<lambda>found.
       case found of
         None \<Rightarrow> Inr (write_resp 404 ''Not Found'' ctx)
       | Some mi \<Rightarrow>
           (case handler (dat (mi_n mi)) of
              None \<Rightarrow> Inr (write_resp 404 ''Not Found'' ctx)
            | Some h \<Rightarrow> Inr (h (ctx\<lparr>PathParams := pathParams mi\<rparr>))))"

definition ServeHTTP ::
  "regexp_lib \<Rightarrow> HTTPServer \<Rightarrow> string \<Rightarrow> string \<Rightarrow> (web_panic, Context) result" where
  "ServeHTTP re s m p = serve re s (new_context m p)"

definition Post ::
  "regexp_lib \<Rightarrow> HTTPServer \<Rightarrow> string \<Rightarrow> HandleFunc option \<Rightarrow> HTTPServer \<times> web_panic option" where
  "Post re s p h = addRoute re s ''POST'' p h []"

definition Get ::
  "regexp_lib \<Rightarrow> HTTPServer \<Rightarrow> string \<Rightarrow> HandleFunc option \<Rightarrow> HTTPServer \<times> web_panic option" where
  "Get re s p h = addRoute re s ''GET'' p h []"

definition Use ::
  "regexp_lib \<Rightarrow> HTTPServer \<Rightarrow> string \<Rightarrow> string \<Rightarrow> Middleware list
   \<Rightarrow> HTTPServer \<times> web_panic option" where
  "Use re s m p ms = addRoute re s m p None ms"

text \<open>\<open>MiddlewareBuilder.Build\<close>.\<close>

definition Build_middleware :: "string \<Rightarrow> Middleware" where
  "Build_middleware s = (\<lambda>nxt ctx. nxt (ctx\<lparr>RespData := s\<rparr>))"

subsection \<open>Requests\<close>

text \<open>
  A request to a registered static route runs its handler. After \<open>Get\<close> has registered a
  handler for a static path, and whatever is registered later, serving a GET request for that path
  is a run of exactly that handler, on the context of the request with the path parameters set.
\<close>

theorem ServeHTTP_static:
  assumes "wf_router re s" and "static_segs (path_segs p)" and "snd (Get re s p (Some h)) = None"
  shows "\<exists>ps. ServeHTTP re (addRoutes re (fst (Get re s p (Some h))) rs) ''GET'' p =
    Inr (h ((new_context ''GET'' p)\<lparr>PathParams := ps\<rparr>))"
proof -
  obtain mi where "findRoute re (addRoutes re (fst (Get re s p (Some h))) rs) ''GET'' p = Inr (Some mi)"
      "handler (dat (mi_n mi)) = Some h"
    using static_route_found [of re s p "''GET''" h "[]" rs] assms by (auto simp: Get_def)
  then show ?thesis
    by (auto simp: ServeHTTP_def serve_def new_context_def)
qed

text \<open>
  What \<open>serve\<close> answers, on every branch. On a router built by registrations it never
  panics; it answers 404 with the body \<open>Not Found\<close> exactly when no position matches or the matched
  node has no handler, and otherwise the result is that of the handler.
\<close>

theorem serve_answers:
  assumes "wf_router re s"
  shows "(\<exists>mi h. findRoute re s (req_method ctx) (req_path ctx) = Inr (Some mi) \<and>
      handler (dat (mi_n mi)) = Some h \<and>
      serve re s ctx = Inr (h (ctx\<lparr>PathParams := pathParams mi\<rparr>))) \<or>
    ((\<forall>mi. findRoute re s (req_method ctx) (req_path ctx) = Inr (Some mi) \<longrightarrow>
        handler (dat (mi_n mi)) = None) \<and>
      serve re s ctx = Inr (write_resp 404 ''Not Found'' ctx))"
proof -
  obtain found where f: "findRoute re s (req_method ctx) (req_path ctx) = Inr found"
    using findRoute_no_panic [OF assms] by blast
  then show ?thesis
    by (cases found) (auto simp: serve_def split: option.split)
qed

lemma serve_serve1:
  assumes "wf_router re s"
  shows "serve re s ctx = serve1 re (erase_router s) ctx"
proof -
  obtain found where f: "findRoute re s (req_method ctx) (req_path ctx) = Inr found"
    using findRoute_no_panic [OF assms] by blast
  then show ?thesis
    by (cases found)
       (auto simp: serve_def serve1_def findRoute1_erase [OF assms] erase_mi_def split: option.split)
qed

lemma Get_Post_erase:
  "Get1 re (erase_router s) p h = map_prod erase_router id (Get re s p h)"
  "Post1 re (erase_router s) p h = map_prod erase_router id (Post re s p h)"
  by (simp_all add: Get1_def Get_def Post1_def Post_def addRoute_erase)

text \<open>
  Middlewares are collected but never run. Two routers built by registrations that differ
  in their middlewares only, so that they are equal once the middlewares are erased, answer every
  request alike: \<open>serve\<close> of \<open>homework2\<close> ignores what \<open>Use\<close> registered.
\<close>

theorem serve_ignores_middlewares:
  assumes "wf_router re s" and "wf_router re t" and "erase_router s = erase_router t"
  shows "serve re s ctx = serve re t ctx"
  using assms by (simp add: serve_serve1)

text \<open>The registrations of \<open>addRoutes\<close> in \<open>homework1\<close>, which has no middlewares.\<close>

fun addRoutes1 :: "regexp_lib \<Rightarrow> 'h router1 \<Rightarrow> (string \<times> string \<times> 'h option \<times> 'm list) list \<Rightarrow> 'h router1" where
  "addRoutes1 re r [] = r"
| "addRoutes1 re r ((m, p, h, _) # rs) = addRoutes1 re (fst (addRoute1 re r m p h)) rs"

lemma addRoutes_erase: "addRoutes1 re (erase_router r) rs = erase_router (addRoutes re r rs)"
proof (induction re r rs rule: addRoutes.induct)
  case (2 re r m p h ms rs)
  then show ?case by (simp add: addRoute_erase [of re r m p h ms])
qed simp

lemma erase_NewHTTPServer: "erase_router NewHTTPServer = NewHTTPServer1"
  by (simp add: NewHTTPServer_def NewHTTPServer1_def newRouter_def newRouter1_def erase_router_def)

text \<open>
  Claim C7: a server of \<open>homework2\<close> behaves as a server of \<open>homework1\<close>. After the same registrations, with whatever
  middlewares, both answer every request with the same response, and the next registration panics in
  one as it does in the other. So middlewares are collected but never run.
\<close>

theorem servers_agree:
  "serve re (addRoutes re NewHTTPServer rs) ctx = serve1 re (addRoutes1 re NewHTTPServer1 rs) ctx
    \<and> snd (addRoute re (addRoutes re NewHTTPServer rs) m p h ms) =
        snd (addRoute1 re (addRoutes1 re NewHTTPServer1 rs) m p h)"
proof -
  let ?s = "addRoutes re NewHTTPServer rs"
  have "addRoutes1 re NewHTTPServer1 rs = erase_router ?s"
    by (simp add: addRoutes_erase flip: erase_NewHTTPServer)
  moreover have "wf_router re ?s"
    unfolding NewHTTPServer_def by (intro addRoutes_wf wf_newRouter)
  ultimately show ?thesis
    by (simp add: serve_serve1 addRoute_erase [of re ?s m p h ms])
qed

subsection \<open>Concrete runs\<close>

definition hello :: HandleFunc where
  "hello ctx = write_resp 200 ''hello'' ctx"

theorem ServeHTTP_static_witness:
  "\<exists>ps. ServeHTTP any_re (addRoutes any_re (fst (Get any_re NewHTTPServer ''/a'' (Some hello))) []) ''GET'' ''/a'' =
    Inr (hello ((new_context ''GET'' ''/a'')\<lparr>PathParams := ps\<rparr>))"
proof (rule ServeHTTP_static)
  show "wf_router any_re NewHTTPServer" unfolding NewHTTPServer_def by (rule wf_newRouter)
  show "static_segs (path_segs ''/a'')" by (simp add: static_segs_def path_segs_def)
  show "snd (Get any_re NewHTTPServer ''/a'' (Some hello)) = None"
    by (simp add: Get_def NewHTTPServer_def run_addRoute)
qed

theorem serve_answers_witness:
  "serve any_re NewHTTPServer (new_context ''GET'' ''/a'') =
     Inr (write_resp 404 ''Not Found'' (new_context ''GET'' ''/a''))"
  using serve_answers [of any_re NewHTTPServer "new_context ''GET'' ''/a''"] wf_newRouter
  by (auto simp: NewHTTPServer_def findRoute_def newRouter_def)

theorem serve_ignores_middlewares_witness:
  "serve any_re (fst (Use any_re (fst (Get any_re NewHTTPServer ''/a'' (Some hello))) ''GET'' ''/b''
       [Build_middleware ''x''])) (new_context ''GET'' ''/a'') =
   serve any_re (fst (Use any_re (fst (Get any_re NewHTTPServer ''/a'' (Some hello))) ''GET'' ''/b'' []))
     (new_context ''GET'' ''/a'')"
proof -
  let ?s = "fst (Get any_re NewHTTPServer ''/a'' (Some hello))"
  have wf: "wf_router any_re ?s"
    unfolding Get_def NewHTTPServer_def by (rule addRoute_wf_step) (rule wf_newRouter)
  have use: "wf_router any_re (fst (Use any_re ?s ''GET'' ''/b'' ms))" for ms
    unfolding Use_def by (rule addRoute_wf_step) (rule wf)
  have "erase_router (fst (Use any_re ?s ''GET'' ''/b'' ms)) = fst (addRoute1 any_re (erase_router ?s) ''GET'' ''/b'' None)"
    for ms
    by (simp add: Use_def addRoute_erase [of any_re ?s "''GET''" "''/b''" None ms])
  then show ?thesis
    by (intro serve_ignores_middlewares use) simp
qed

end
