(* ===== verification/Rpc_Message.thy ===== *)
theory Rpc_Message
  imports Prelude "HOL-Library.Multiset"
begin

text \<open>
  The wire format of \<open>rpc/message\<close>: \<open>Request\<close> and \<open>Response\<close>, \<open>EncodeReq\<close>, \<open>DecodeReq\<close>,
  \<open>EncodeResp\<close>, \<open>DecodeResp\<close> and the length calculations.

  Strings and byte slices are lists of \<^typ>\<open>8 word\<close>; a nil slice or map and an empty one are
  identified, since the code only takes their length, ranges over them and looks keys up. The length
  fields are \<^typ>\<open>32 word\<close>, so their sums wrap. A Go map is ranged over in an unspecified order: the
  operations that range over \<open>Meta\<close> take that order as an argument (\<open>iter_of\<close>), a different one for
  each loop. An index or slice expression out of range is a panic.
\<close>

unbundle bit_operations_syntax

subsection \<open>Data\<close>

record message =
  HeadLength :: "32 word"
  BodyLength :: "32 word"
  RequestID :: "32 word"
  Version :: "8 word"
  Compresser :: "8 word"
  Serializer :: "8 word"
  Data :: bytes

record Request = message +
  ServiceName :: bytes
  MethodName :: bytes
  Meta :: "bytes \<Rightarrow> bytes option"

record Response = message +
  Error :: bytes

datatype rpc_panic = SliceBounds | IndexRange | NilPointer | ZeroValue | SendOnClosed

abbreviation newline :: byte where "newline \<equiv> 10"
abbreviation creturn :: byte where "creturn \<equiv> 13"

text \<open>The orders in which a loop may range over a map.\<close>

definition iter_of :: "(bytes \<Rightarrow> bytes option) \<Rightarrow> (bytes \<times> bytes) list \<Rightarrow> bool" where
  "iter_of m kvs \<longleftrightarrow> distinct (map fst kvs) \<and> map_of kvs = m"

subsection \<open>binary.BigEndian\<close>

definition PutUint32 :: "32 word \<Rightarrow> bytes" where
  "PutUint32 w = [ucast (drop_bit 24 w), ucast (drop_bit 16 w), ucast (drop_bit 8 w), ucast w]"

fun Uint32 :: "bytes \<Rightarrow> 32 word" where
  "Uint32 [a, b, c, d] =
     ucast d OR push_bit 8 (ucast c) OR push_bit 16 (ucast b) OR push_bit 24 (ucast a)"
| "Uint32 _ = 0"

lemma length_PutUint32 [simp]: "length (PutUint32 w) = 4"
  by (simp add: PutUint32_def)

lemma Uint32_PutUint32 [simp]: "Uint32 (PutUint32 w) = w"
proof (rule bit_word_eqI)
  fix n :: nat
  assume n: "n < LENGTH(32)"
  then have "n < 8 \<or> (8 \<le> n \<and> n < 16) \<or> (16 \<le> n \<and> n < 24) \<or> (24 \<le> n \<and> n < 32)" by auto
  then show "bit (Uint32 (PutUint32 w)) n = bit w n"
    by (auto simp: PutUint32_def bit_simps)
qed

subsection \<open>The write cursor of the encoders\<close>

text \<open>
  The encoders keep \<open>cur\<close>, the rest of the buffer. A buffer is the part already passed and the
  rest. \<open>emit\<close> is \<open>copy(cur, s); cur = cur[len(s):]\<close>, which panics when the rest is shorter than
  \<open>s\<close>; \<open>emit_byte\<close> is \<open>cur[0] = b; cur = cur[1:]\<close>; \<open>emit_last\<close> is the final \<open>copy\<close>, which stops at
  the end of the buffer without a panic.
\<close>

type_synonym buffer = "bytes \<times> bytes"

definition emit :: "bytes \<Rightarrow> buffer \<Rightarrow> (rpc_panic, buffer) result" where
  "emit s b = (case b of (done, rest) \<Rightarrow>
     if length s \<le> length rest then Inr (done @ s, drop (length s) rest) else Inl SliceBounds)"

definition emit_byte :: "byte \<Rightarrow> buffer \<Rightarrow> (rpc_panic, buffer) result" where
  "emit_byte c b = (case b of (done, rest) \<Rightarrow>
     if rest = [] then Inl IndexRange else Inr (done @ [c], tl rest))"

definition emit_last :: "bytes \<Rightarrow> buffer \<Rightarrow> bytes" where
  "emit_last s b = (case b of (done, rest) \<Rightarrow>
     done @ take (length rest) s @ drop (length s) rest)"

fun emit_meta :: "(bytes \<times> bytes) list \<Rightarrow> buffer \<Rightarrow> (rpc_panic, buffer) result" where
  "emit_meta [] b = Inr b"
| "emit_meta ((k, v) # kvs) b =
     bind_result (emit k b) (\<lambda>b. bind_result (emit_byte creturn b) (\<lambda>b.
     bind_result (emit v b) (\<lambda>b. bind_result (emit_byte newline b) (\<lambda>b.
     emit_meta kvs b))))"

text \<open>
  The 15 bytes of fixed fields, the same for requests and responses: three slices of four bytes and
  three single bytes, so a buffer shorter than 12 bytes panics in a slice expression and one of 12 to
  14 bytes in an index expression.
\<close>

definition fixed_fields :: "'a message_scheme \<Rightarrow> bytes" where
  "fixed_fields m =
     PutUint32 (HeadLength m) @ PutUint32 (BodyLength m) @ PutUint32 (RequestID m) @
     [Version m, Compresser m, Serializer m]"

definition start_buffer :: "'a message_scheme \<Rightarrow> (rpc_panic, buffer) result" where
  "start_buffer m =
     (let n = unat (HeadLength m + BodyLength m) in
      if n < 12 then Inl SliceBounds
      else if n < 15 then Inl IndexRange
      else Inr (fixed_fields m, replicate (n - 15) 0))"

subsection \<open>Requests\<close>

definition EncodeReq :: "(bytes \<times> bytes) list \<Rightarrow> Request \<Rightarrow> (rpc_panic, bytes) result" where
  "EncodeReq kvs req =
     bind_result (start_buffer req) (\<lambda>b.
     bind_result (emit (ServiceName req) b) (\<lambda>b. bind_result (emit_byte newline b) (\<lambda>b.
     bind_result (emit (MethodName req) b) (\<lambda>b. bind_result (emit_byte newline b) (\<lambda>b.
     bind_result (emit_meta kvs b) (\<lambda>b. Inr (emit_last (Data req) b)))))))"

text \<open>\<open>bytes.IndexByte\<close> followed by the two slices around the byte; index -1 makes the slice panic.\<close>

definition cut :: "byte \<Rightarrow> bytes \<Rightarrow> (rpc_panic, bytes \<times> bytes) result" where
  "cut c bs = (case split_first c bs of None \<Rightarrow> Inl SliceBounds | Some p \<Rightarrow> Inr p)"

function decode_meta ::
  "bytes \<Rightarrow> (bytes \<Rightarrow> bytes option) \<Rightarrow> (rpc_panic, bytes \<Rightarrow> bytes option) result" where
  "decode_meta header m =
     (case split_first newline header of
        None \<Rightarrow> Inr m
      | Some (pair, rest) \<Rightarrow>
          bind_result (cut creturn pair) (\<lambda>(k, v). decode_meta rest (m(k \<mapsto> v))))"
  by pat_completeness auto
termination
  by (relation "measure (\<lambda>(h, m). length h)") (auto dest!: split_first_SomeD)

declare decode_meta.simps [simp del]

text \<open>
  The decoders get a slice: the bytes \<open>data\<close> it shows, and \<open>spare\<close>, those its array has behind them. A
  slice expression is bounded by the capacity, the length of both, and may show bytes of \<open>spare\<close>; an
  index, and the slice up to the end, are bounded by the length of \<open>data\<close>. \<open>header_slice\<close> is
  \<open>data[15:HeadLength]\<close>, \<open>body_slice\<close> is \<open>data[HeadLength:]\<close>, when there is a body.
\<close>

definition header_slice :: "32 word \<Rightarrow> bytes \<Rightarrow> bytes \<Rightarrow> (rpc_panic, bytes) result" where
  "header_slice h data spare =
     (if 15 \<le> unat h \<and> unat h \<le> length data + length spare
      then Inr (take (unat h - 15) (drop 15 (data @ spare)))
      else Inl SliceBounds)"

definition body_slice :: "'a message_scheme \<Rightarrow> bytes \<Rightarrow> (rpc_panic, bytes) result" where
  "body_slice f data =
     (if BodyLength f \<noteq> 0
      then if unat (HeadLength f) \<le> length data then Inr (drop (unat (HeadLength f)) data) else Inl SliceBounds
      else Inr [])"

definition decode_fixed :: "bytes \<Rightarrow> bytes \<Rightarrow> (rpc_panic, message) result" where
  "decode_fixed data spare =
     (if length data + length spare < 12 then Inl SliceBounds
      else if length data < 15 then Inl IndexRange
      else Inr \<lparr>HeadLength = Uint32 (take 4 data), BodyLength = Uint32 (take 4 (drop 4 data)),
                RequestID = Uint32 (take 4 (drop 8 data)), Version = data ! 12,
                Compresser = data ! 13, Serializer = data ! 14, Data = []\<rparr>)"

definition DecodeReqSlice :: "bytes \<Rightarrow> bytes \<Rightarrow> (rpc_panic, Request) result" where
  "DecodeReqSlice data spare =
     bind_result (decode_fixed data spare) (\<lambda>f.
     bind_result (header_slice (HeadLength f) data spare) (\<lambda>header.
     bind_result (cut newline header) (\<lambda>(svc, header).
     bind_result (cut newline header) (\<lambda>(meth, header).
     bind_result (decode_meta header (\<lambda>_. None)) (\<lambda>meta.
     bind_result (body_slice f data) (\<lambda>dat.
     Inr \<lparr>HeadLength = HeadLength f, BodyLength = BodyLength f, RequestID = RequestID f,
          Version = Version f, Compresser = Compresser f, Serializer = Serializer f, Data = dat,
          ServiceName = svc, MethodName = meth, Meta = meta\<rparr>))))))"

text \<open>A slice that fills its array, as the \<open>make\<close> of \<open>ReadMsg\<close> gives it.\<close>

definition DecodeReq :: "bytes \<Rightarrow> (rpc_panic, Request) result" where
  "DecodeReq data = DecodeReqSlice data []"

definition meta_size :: "(bytes \<times> bytes) list \<Rightarrow> nat" where
  "meta_size kvs = sum_list (map (\<lambda>(k, v). length k + 1 + length v + 1) kvs)"

definition header_size :: "(bytes \<times> bytes) list \<Rightarrow> Request \<Rightarrow> nat" where
  "header_size kvs req = 15 + length (ServiceName req) + 1 + length (MethodName req) + 1 + meta_size kvs"

definition CalculateHeaderLength :: "(bytes \<times> bytes) list \<Rightarrow> Request \<Rightarrow> Request" where
  "CalculateHeaderLength kvs req = req\<lparr>HeadLength := word_of_nat (header_size kvs req)\<rparr>"

definition CalculateBodyLength :: "'a message_scheme \<Rightarrow> 'a message_scheme" where
  "CalculateBodyLength m = m\<lparr>BodyLength := word_of_nat (length (Data m))\<rparr>"

subsection \<open>Responses\<close>

definition EncodeResp :: "Response \<Rightarrow> (rpc_panic, bytes) result" where
  "EncodeResp resp =
     bind_result (start_buffer resp) (\<lambda>b.
     bind_result (emit (Error resp) b) (\<lambda>b. Inr (emit_last (Data resp) b)))"

definition DecodeRespSlice :: "bytes \<Rightarrow> bytes \<Rightarrow> (rpc_panic, Response) result" where
  "DecodeRespSlice data spare =
     bind_result (decode_fixed data spare) (\<lambda>f.
     bind_result (if unat (HeadLength f) > 15 then header_slice (HeadLength f) data spare else Inr []) (\<lambda>err.
     bind_result (body_slice f data) (\<lambda>dat.
     Inr \<lparr>HeadLength = HeadLength f, BodyLength = BodyLength f, RequestID = RequestID f,
          Version = Version f, Compresser = Compresser f, Serializer = Serializer f,
          Data = dat, Error = err\<rparr>)))"

definition DecodeResp :: "bytes \<Rightarrow> (rpc_panic, Response) result" where
  "DecodeResp data = DecodeRespSlice data []"

definition CalculateHeaderLengthResp :: "Response \<Rightarrow> Response" where
  "CalculateHeaderLengthResp resp = resp\<lparr>HeadLength := 15 + word_of_nat (length (Error resp))\<rparr>"

subsection \<open>What the encoders write\<close>

definition meta_bytes :: "(bytes \<times> bytes) list \<Rightarrow> bytes" where
  "meta_bytes kvs = concat (map (\<lambda>(k, v). k @ creturn # v @ [newline]) kvs)"

lemma length_fixed_fields [simp]: "length (fixed_fields m) = 15"
  by (simp add: fixed_fields_def)

lemma emit_zeros:
  "length s \<le> k \<Longrightarrow> emit s (d, replicate k 0) = Inr (d @ s, replicate (k - length s) 0)"
  by (simp add: emit_def)

lemma emit_byte_zeros:
  "0 < k \<Longrightarrow> emit_byte c (d, replicate k 0) = Inr (d @ [c], replicate (k - 1) 0)"
  by (cases k) (simp_all add: emit_byte_def)

lemma length_meta_bytes: "length (meta_bytes kvs) = meta_size kvs"
  by (induction kvs) (auto simp: meta_bytes_def meta_size_def)

lemma emit_meta_zeros:
  "meta_size kvs \<le> n \<Longrightarrow>
   emit_meta kvs (d, replicate n 0) = Inr (d @ meta_bytes kvs, replicate (n - meta_size kvs) 0)"
proof (induction kvs arbitrary: d n)
  case Nil
  then show ?case by (simp add: meta_bytes_def meta_size_def)
next
  case (Cons kv kvs)
  obtain k v where kv: "kv = (k, v)" by force
  have sz: "meta_size (kv # kvs) = length k + length v + 2 + meta_size kvs"
    by (simp add: meta_size_def kv)
  have mb: "meta_bytes (kv # kvs) = k @ creturn # v @ newline # meta_bytes kvs"
    by (simp add: meta_bytes_def kv)
  from Cons.prems sz have
    "length k \<le> n" "0 < n - length k" "length v \<le> n - length k - 1"
    "0 < n - length k - 1 - length v" "meta_size kvs \<le> n - length k - 1 - length v - 1" by auto
  then show ?case
    unfolding kv emit_meta.simps
    by (simp add: emit_zeros emit_byte_zeros Cons.IH sz [unfolded kv] mb [unfolded kv])
qed

lemma iter_of_meta_size:
  assumes "iter_of m kvs" and "iter_of m kvs'"
  shows "meta_size kvs = meta_size kvs'"
proof -
  have "set kvs = set kvs'"
    using assms map_of_inject_set [of kvs kvs'] by (auto simp: iter_of_def)
  moreover have "distinct kvs" "distinct kvs'"
    using assms by (auto simp: iter_of_def distinct_map)
  ultimately have "mset kvs = mset kvs'"
    by (simp add: set_eq_iff_mset_eq_distinct)
  then have "mset (map (\<lambda>(k, v). length k + 1 + length v + 1) kvs) =
      mset (map (\<lambda>(k, v). length k + 1 + length v + 1) kvs')"
    by simp
  then show ?thesis
    unfolding meta_size_def by (metis sum_mset_sum_list)
qed

text \<open>A message whose length fields are those of its parts, in less than 4 GiB.\<close>

definition sized :: "nat \<Rightarrow> 'a message_scheme \<Rightarrow> bool" where
  "sized hs m \<longleftrightarrow> HeadLength m = word_of_nat hs \<and> BodyLength m = word_of_nat (length (Data m)) \<and>
     15 \<le> hs \<and> hs + length (Data m) < 2 ^ 32"

lemma sized_unat:
  assumes "sized hs m"
  shows "unat (HeadLength m) = hs" "unat (BodyLength m) = length (Data m)"
    "unat (HeadLength m + BodyLength m) = hs + length (Data m)"
  using assms
  by (auto simp: sized_def unat_word_ariths unat_of_nat take_bit_nat_eq_self_iff)

lemma start_buffer_sized:
  "sized hs m \<Longrightarrow>
   start_buffer m = Inr (fixed_fields m, replicate (hs + length (Data m) - 15) 0)"
  using sized_unat [of hs m] by (simp add: start_buffer_def Let_def sized_def)

lemma EncodeReq_bytes:
  assumes "sized (header_size kvs' req) req" and "iter_of (Meta req) kvs" "iter_of (Meta req) kvs'"
  shows "EncodeReq kvs req =
    Inr (fixed_fields req @ ServiceName req @ newline # MethodName req @ newline #
         meta_bytes kvs @ Data req)"
proof -
  have sz: "meta_size kvs' = meta_size kvs"
    using assms(2,3) by (rule iter_of_meta_size [symmetric])
  let ?n = "header_size kvs' req + length (Data req) - 15"
  have "length (ServiceName req) \<le> ?n" "0 < ?n - length (ServiceName req)"
    "length (MethodName req) \<le> ?n - length (ServiceName req) - 1"
    "0 < ?n - length (ServiceName req) - 1 - length (MethodName req)"
    "meta_size kvs \<le> ?n - length (ServiceName req) - 1 - length (MethodName req) - 1"
    "?n - length (ServiceName req) - 1 - length (MethodName req) - 1 - meta_size kvs = length (Data req)"
    by (auto simp: header_size_def sz)
  then show ?thesis
    by (simp add: EncodeReq_def start_buffer_sized [OF assms(1)] emit_zeros emit_byte_zeros
          emit_meta_zeros emit_last_def del: One_nat_def)
qed

lemma EncodeResp_bytes:
  assumes "sized (15 + length (Error resp)) resp"
  shows "EncodeResp resp = Inr (fixed_fields resp @ Error resp @ Data resp)"
  by (simp add: EncodeResp_def start_buffer_sized [OF assms] emit_zeros emit_last_def)

subsection \<open>What the decoders read\<close>

lemma decode_fixed_append:
  "decode_fixed (fixed_fields m @ rest) spare =
     Inr \<lparr>HeadLength = HeadLength m, BodyLength = BodyLength m, RequestID = RequestID m,
          Version = Version m, Compresser = Compresser m, Serializer = Serializer m, Data = []\<rparr>"
proof -
  have "length (fixed_fields m @ rest) \<ge> 15" by simp
  then show ?thesis
    unfolding decode_fixed_def by (simp add: fixed_fields_def nth_append)
qed

lemma header_slice_append:
  assumes "unat h = 15 + length hdr"
  shows "header_slice h (fixed_fields m @ hdr @ body) spare = Inr hdr"
  using assms by (simp add: header_slice_def)

lemma cut_append: "c \<notin> set a \<Longrightarrow> cut c (a @ c # b) = Inr (a, b)"
  by (simp add: cut_def split_first_append)

lemma decode_meta_bytes:
  assumes "\<forall>(k, v) \<in> set kvs. creturn \<notin> set k \<and> newline \<notin> set k \<and> newline \<notin> set v"
  shows "decode_meta (meta_bytes kvs) m = Inr (m ++ map_of (rev kvs))"
  using assms
proof (induction kvs arbitrary: m)
  case Nil
  then show ?case by (simp add: meta_bytes_def decode_meta.simps [of "[]"] split_first_def)
next
  case (Cons kv kvs)
  obtain k v where kv: "kv = (k, v)" by force
  have "meta_bytes (kv # kvs) = (k @ creturn # v) @ newline # meta_bytes kvs"
    by (simp add: meta_bytes_def kv)
  moreover have "newline \<notin> set (k @ creturn # v)" and cr: "creturn \<notin> set k"
    using Cons.prems kv by auto
  ultimately have sf: "split_first newline (meta_bytes (kv # kvs)) = Some (k @ creturn # v, meta_bytes kvs)"
    using split_first_append by metis
  have IH: "decode_meta (meta_bytes kvs) (m(k \<mapsto> v)) = Inr (m(k \<mapsto> v) ++ map_of (rev kvs))"
    using Cons by simp
  show ?case
    by (subst decode_meta.simps) (simp add: sf [unfolded kv] cut_append [OF cr] IH kv)
qed

subsection \<open>Round trips\<close>

text \<open>
  The requests the format can carry: no separator in the names and keys, no line end in the
  values. \<open>Data\<close> is unrestricted.
\<close>

definition meta_ok :: "(bytes \<Rightarrow> bytes option) \<Rightarrow> bool" where
  "meta_ok m \<longleftrightarrow>
     (\<forall>k \<in> dom m. creturn \<notin> set k \<and> newline \<notin> set k \<and> newline \<notin> set (the (m k)))"

definition carried :: "Request \<Rightarrow> bool" where
  "carried req \<longleftrightarrow> newline \<notin> set (ServiceName req) \<and> newline \<notin> set (MethodName req) \<and>
     meta_ok (Meta req)"

text \<open>The length fields are set and their sum fits in 32 bits.\<close>

definition req_sized :: "Request \<Rightarrow> bool" where
  "req_sized req \<longleftrightarrow> (\<exists>kvs. iter_of (Meta req) kvs \<and> sized (header_size kvs req) req)"

lemma req_sizedD:
  assumes "req_sized req" and "iter_of (Meta req) kvs"
  shows "sized (header_size kvs req) req"
proof -
  from assms(1) obtain kvs' where "iter_of (Meta req) kvs'" and sz: "sized (header_size kvs' req) req"
    by (auto simp: req_sized_def)
  with assms(2) have "meta_size kvs = meta_size kvs'" by (intro iter_of_meta_size)
  with sz show ?thesis by (simp add: header_size_def)
qed

lemma iter_of_meta_ok:
  assumes "iter_of m kvs" and "meta_ok m"
  shows "\<forall>(k, v) \<in> set kvs. creturn \<notin> set k \<and> newline \<notin> set k \<and> newline \<notin> set v"
proof (clarify)
  fix k v
  assume "(k, v) \<in> set kvs"
  with assms(1) have "m k = Some v" by (auto simp: iter_of_def)
  with bspec [OF assms(2) [unfolded meta_ok_def] domI, OF this]
  show "creturn \<notin> set k \<and> newline \<notin> set k \<and> newline \<notin> set v"
    by simp
qed

lemma iter_of_rev: "iter_of m kvs \<Longrightarrow> map_of (rev kvs) = m"
  using map_of_inject_set [of "rev kvs" kvs] by (simp add: iter_of_def rev_map [symmetric])

lemma request_codec:
  assumes "req_sized req" and "iter_of (Meta req) kvs" and "carried req"
  shows "bind_result (EncodeReq kvs req) DecodeReq = Inr req"
proof -
  note sz = req_sizedD [OF assms(1,2)]
  let ?hdr = "ServiceName req @ newline # MethodName req @ newline # meta_bytes kvs"
  have len: "unat (HeadLength req) = 15 + length ?hdr"
    using sized_unat(1) [OF sz] by (simp add: header_size_def length_meta_bytes)
  have nl: "newline \<notin> set (ServiceName req)" "newline \<notin> set (MethodName req)"
    using assms(3) by (auto simp: carried_def)
  have meta: "decode_meta (meta_bytes kvs) (\<lambda>_. None) = Inr (Meta req)"
    using decode_meta_bytes [OF iter_of_meta_ok [OF assms(2)], of "\<lambda>_. None"]
      assms(2,3) by (simp add: carried_def iter_of_rev)
  have body: "BodyLength req = 0 \<Longrightarrow> Data req = []"
    using sized_unat(2) [OF sz] by (simp add: unat_eq_zero)
  have enc: "EncodeReq kvs req = Inr (fixed_fields req @ ?hdr @ Data req)"
    using EncodeReq_bytes [OF sz assms(2,2)] by simp
  show ?thesis
    unfolding enc bind_result.simps DecodeReq_def DecodeReqSlice_def decode_fixed_append
    by (simp add: header_slice_append [OF len, simplified] cut_append nl meta body_slice_def len body)
qed

lemma response_codec:
  assumes "sized (15 + length (Error resp)) resp"
  shows "bind_result (EncodeResp resp) DecodeResp = Inr resp"
proof -
  have len: "unat (HeadLength resp) = 15 + length (Error resp)"
    using sized_unat(1) [OF assms] .
  have body: "BodyLength resp = 0 \<Longrightarrow> Data resp = []"
    using sized_unat(2) [OF assms] by (simp add: unat_eq_zero)
  show ?thesis
    unfolding EncodeResp_bytes [OF assms] bind_result.simps DecodeResp_def DecodeRespSlice_def decode_fixed_append
    using body by (auto simp: header_slice_append body_slice_def len)
qed

lemma bit8_high: "8 \<le> n \<Longrightarrow> bit (x :: 8 word) n \<longleftrightarrow> False"
  using bit_imp_le_length [of x n] by auto

lemma PutUint32_Uint32: "length bs = 4 \<Longrightarrow> PutUint32 (Uint32 bs) = bs"
proof -
  assume "length bs = 4"
  then obtain a b c d where bs: "bs = [a, b, c, d]"
    by (auto simp: length_Suc_conv numeral_eq_Suc)
  show ?thesis
    unfolding bs PutUint32_def Uint32.simps
    by (auto intro!: bit_word_eqI simp: bit_simps bit8_high)
qed

subsection \<open>The contract of a codec\<close>

text \<open>
  What both encoders promise to the connection code: an encoded message says its own length in its
  first eight bytes, has the fixed fields, and is decoded to itself.
\<close>

definition frame_length :: "bytes \<Rightarrow> nat" where
  "frame_length bs = unat (Uint32 (take 4 bs) + Uint32 (take 4 (drop 4 bs)))"

locale message_codec =
  fixes enc :: "'m \<Rightarrow> (rpc_panic, bytes) result"
    and dec :: "bytes \<Rightarrow> (rpc_panic, 'm) result"
    and ok :: "'m \<Rightarrow> bool"
  assumes enc_frame: "ok m \<Longrightarrow> \<exists>bs. enc m = Inr bs \<and> 15 \<le> length bs \<and> frame_length bs = length bs"
    and dec_enc: "ok m \<Longrightarrow> enc m = Inr bs \<Longrightarrow> dec bs = Inr m"
begin

lemma enc_inject: "ok m \<Longrightarrow> ok m' \<Longrightarrow> enc m = enc m' \<Longrightarrow> m = m'"
  by (metis Inr_inject dec_enc enc_frame)

end

text \<open>A request is given with the order in which the encoder ranges over its \<open>Meta\<close>.\<close>

definition good_req :: "(Request \<Rightarrow> (bytes \<times> bytes) list) \<Rightarrow> Request \<Rightarrow> bool" where
  "good_req order req \<longleftrightarrow> iter_of (Meta req) (order req) \<and> req_sized req \<and> carried req"

definition good_resp :: "Response \<Rightarrow> bool" where
  "good_resp resp \<longleftrightarrow> sized (15 + length (Error resp)) resp"

lemma frame_length_fixed:
  "frame_length (fixed_fields m @ rest) = unat (HeadLength m + BodyLength m)"
  by (simp add: frame_length_def fixed_fields_def)

interpretation req_codec: message_codec "\<lambda>req. EncodeReq (order req) req" DecodeReq "good_req order"
proof unfold_locales
  fix m
  assume "good_req order m"
  then have m: "iter_of (Meta m) (order m)" "req_sized m" by (auto simp: good_req_def)
  note sz = req_sizedD [OF m(2,1)]
  show "\<exists>bs. EncodeReq (order m) m = Inr bs \<and> 15 \<le> length bs \<and> frame_length bs = length bs"
    using sized_unat(3) [OF sz]
    by (simp add: EncodeReq_bytes [OF sz m(1,1)] frame_length_fixed header_size_def length_meta_bytes)
next
  fix m bs
  assume "good_req order m" "EncodeReq (order m) m = Inr bs"
  then show "DecodeReq bs = Inr m"
    using request_codec [of m "order m"] by (simp add: good_req_def)
qed

interpretation resp_codec: message_codec EncodeResp DecodeResp good_resp
proof unfold_locales
  fix m
  assume "good_resp m"
  then have sz: "sized (15 + length (Error m)) m" by (simp add: good_resp_def)
  show "\<exists>bs. EncodeResp m = Inr bs \<and> 15 \<le> length bs \<and> frame_length bs = length bs"
    using sized_unat(3) [OF sz] by (simp add: EncodeResp_bytes [OF sz] frame_length_fixed)
next
  fix m bs
  assume "good_resp m" "EncodeResp m = Inr bs"
  then show "DecodeResp bs = Inr m"
    using response_codec [of m] by (simp add: good_resp_def)
qed

lemma good_req_calculated:
  assumes "iter_of (Meta req) (order req)" and "\<And>r. Meta r = Meta req \<Longrightarrow> order r = order req"
    and "iter_of (Meta req) kvs" and "carried req" and "header_size kvs req + length (Data req) < 2 ^ 32"
  shows "good_req order (CalculateBodyLength (CalculateHeaderLength kvs req))"
proof -
  let ?r = "CalculateBodyLength (CalculateHeaderLength kvs req)"
  have "sized (header_size kvs ?r) ?r"
    using assms(5) by (simp add: sized_def CalculateBodyLength_def CalculateHeaderLength_def header_size_def)
  moreover have "Meta ?r = Meta req" "carried ?r"
    using assms(4) by (simp_all add: CalculateBodyLength_def CalculateHeaderLength_def carried_def)
  ultimately show ?thesis
    using assms(1,2,3) unfolding good_req_def req_sized_def by metis
qed

subsection \<open>Properties\<close>

text \<open>
  Claim C8: a request whose length fields were computed by \<open>CalculateHeaderLength\<close> and
  \<open>CalculateBodyLength\<close>, whose names and meta data carry no separator and which is smaller than
  4 GiB, is encoded without a panic and decoded to the same request, whatever order the two loops
  over \<open>Meta\<close> take.
\<close>

theorem request_roundtrip:
  assumes "iter_of (Meta req) kvs" and "iter_of (Meta req) kvs'" and "carried req"
    and "header_size kvs' req + length (Data req) < 2 ^ 32"
  shows "\<exists>bs. EncodeReq kvs (CalculateBodyLength (CalculateHeaderLength kvs' req)) = Inr bs \<and>
    DecodeReq bs = Inr (CalculateBodyLength (CalculateHeaderLength kvs' req))"
proof -
  have good: "good_req (\<lambda>_. kvs) (CalculateBodyLength (CalculateHeaderLength kvs' req))"
    using assms by (intro good_req_calculated) simp_all
  with req_codec.enc_frame [OF good] req_codec.dec_enc [OF good] show ?thesis by metis
qed

text \<open>
  Claim C9: a response whose length fields were computed, whatever bytes its error and data hold, is
  encoded without a panic and decoded to the same response, when it is smaller than 4 GiB.
\<close>

theorem response_roundtrip:
  assumes "15 + length (Error resp) + length (Data resp) < 2 ^ 32"
  shows "\<exists>bs. EncodeResp (CalculateBodyLength (CalculateHeaderLengthResp resp)) = Inr bs \<and>
    DecodeResp bs = Inr (CalculateBodyLength (CalculateHeaderLengthResp resp))"
proof -
  have good: "good_resp (CalculateBodyLength (CalculateHeaderLengthResp resp))"
    using assms by (simp add: good_resp_def sized_def CalculateBodyLength_def CalculateHeaderLengthResp_def)
  with resp_codec.enc_frame [OF good] resp_codec.dec_enc [OF good] show ?thesis by metis
qed

text \<open>
  A response frame is canonical. If the length fields of some bytes are at least 15 for the
  header and give their length without a wrap-around, then decoding them succeeds and encoding the
  result gives the same bytes.
\<close>

theorem response_canonical:
  assumes "15 \<le> unat (Uint32 (take 4 bs))"
    and "length bs = unat (Uint32 (take 4 bs)) + unat (Uint32 (take 4 (drop 4 bs)))"
    and "length bs < 2 ^ 32"
  shows "\<exists>resp. DecodeResp bs = Inr resp \<and> EncodeResp resp = Inr bs"
proof -
  let ?h = "Uint32 (take 4 bs)" and ?b = "Uint32 (take 4 (drop 4 bs))"
  let ?err = "take (unat ?h - 15) (drop 15 bs)" and ?dat = "drop (unat ?h) bs"
  let ?resp = "\<lparr>HeadLength = ?h, BodyLength = ?b, RequestID = Uint32 (take 4 (drop 8 bs)),
    Version = bs ! 12, Compresser = bs ! 13, Serializer = bs ! 14, Data = ?dat, Error = ?err\<rparr>"
  have len: "15 \<le> length bs" "unat ?h \<le> length bs" "length bs = 15 \<Longrightarrow> unat ?h = 15"
    using assms(1,2) by linarith+
  have hb: "unat ?b = length bs - unat ?h"
    using assms(2) by linarith
  have fxd: "decode_fixed bs [] = Inr \<lparr>HeadLength = ?h, BodyLength = ?b,
      RequestID = Uint32 (take 4 (drop 8 bs)), Version = bs ! 12, Compresser = bs ! 13,
      Serializer = bs ! 14, Data = []\<rparr>"
    using len(1) by (simp add: decode_fixed_def)
  have err: "(if unat ?h > 15 then header_slice ?h bs [] else Inr []) = Inr ?err"
    using assms(1) len(2) by (auto simp: header_slice_def)
  have dat: "body_slice \<lparr>HeadLength = ?h, BodyLength = ?b, RequestID = Uint32 (take 4 (drop 8 bs)),
      Version = bs ! 12, Compresser = bs ! 13, Serializer = bs ! 14, Data = []\<rparr> bs = Inr ?dat"
  proof (cases "?b = 0")
    case True
    with hb have "length bs \<le> unat ?h" by simp
    with True show ?thesis by (simp add: body_slice_def)
  qed (use len(2) in \<open>simp add: body_slice_def\<close>)
  have dec: "DecodeResp bs = Inr ?resp"
    by (simp only: DecodeResp_def DecodeRespSlice_def fxd bind_result.simps message.simps err dat)
  have l: "15 + length ?err = unat ?h" "length ?dat = unat ?b"
    using assms(1) len(1,2) hb by simp_all
  have "unat ?h + unat ?b < 2 ^ 32"
    using assms(3) unfolding assms(2) .
  then have "sized (15 + length (Error ?resp)) ?resp"
    unfolding sized_def message.simps Response.simps l using assms(1) by simp
  then have enc: "EncodeResp ?resp = Inr (fixed_fields ?resp @ ?err @ ?dat)"
    using EncodeResp_bytes [of ?resp] by simp
  have "take 4 bs @ take 4 (drop 4 bs) @ take 4 (drop 8 bs) @ take 3 (drop 12 bs) = take 15 bs"
    using take_add [of 4 4 bs] take_add [of 8 4 bs] take_add [of 12 3 bs] by simp
  moreover have "take 3 (drop 12 bs) = [bs ! 12, bs ! 13, bs ! 14]"
    using len by (intro nth_equalityI) (auto simp: less_Suc_eq numeral_3_eq_3)
  moreover have "?err @ ?dat = drop 15 bs"
    using append_take_drop_id [of "unat ?h - 15" "drop 15 bs"] assms(1) by simp
  ultimately have "fixed_fields ?resp @ ?err @ ?dat = take 15 bs @ drop 15 bs"
    using len by (simp add: fixed_fields_def PutUint32_Uint32)
  then have "fixed_fields ?resp @ ?err @ ?dat = bs" by simp
  with dec enc show ?thesis by auto
qed

text \<open>The frames \<open>DecodeReq\<close> accepts, read off the lines of the header.\<close>

fun meta_lines_ok :: "bytes list \<Rightarrow> bool" where
  "meta_lines_ok [] \<longleftrightarrow> True"
| "meta_lines_ok [_] \<longleftrightarrow> True"
| "meta_lines_ok (l # l' # ls) \<longleftrightarrow> creturn \<in> set l \<and> meta_lines_ok (l' # ls)"

fun header_lines_ok :: "bytes list \<Rightarrow> bool" where
  "header_lines_ok (svc # meth # l # ls) \<longleftrightarrow> meta_lines_ok (l # ls)"
| "header_lines_ok _ \<longleftrightarrow> False"

definition decodable :: "bytes \<Rightarrow> bytes \<Rightarrow> bool" where
  "decodable data spare \<longleftrightarrow>
     (let h = unat (Uint32 (take 4 data)) in
      15 \<le> length data \<and> 15 \<le> h \<and> h \<le> length data + length spare \<and>
      header_lines_ok (split_on newline (take (h - 15) (drop 15 (data @ spare)))) \<and>
      (Uint32 (take 4 (drop 4 data)) \<noteq> 0 \<longrightarrow> h \<le> length data))"

lemma split_on_split_first:
  "split_on c xs = (case split_first c xs of None \<Rightarrow> [xs] | Some (a, b) \<Rightarrow> a # split_on c b)"
proof (cases "split_first c xs")
  case None
  then show ?thesis by (simp add: split_first_def split_on_no_sep split: if_splits)
next
  case (Some p)
  then show ?thesis
    using split_first_SomeD [of c xs "fst p" "snd p"] by (cases p) (auto simp: split_on_append_sep)
qed

lemma decode_meta_ok:
  "(\<exists>m'. decode_meta hdr m = Inr m') \<longleftrightarrow> meta_lines_ok (split_on newline hdr)"
proof (induction hdr m rule: decode_meta.induct)
  case (1 hdr m)
  show ?case
  proof (cases "split_first newline hdr")
    case None
    then show ?thesis
      by (simp add: decode_meta.simps [of hdr] split_on_split_first [of newline hdr])
  next
    case (Some p)
    obtain pair rest where p: "p = (pair, rest)" by force
    obtain l ls where ls: "split_on newline rest = l # ls"
      by (cases "split_on newline rest") auto
    have lines: "split_on newline hdr = pair # l # ls"
      using Some p ls by (simp add: split_on_split_first [of newline hdr])
    show ?thesis
    proof (cases "split_first creturn pair")
      case None
      then have "creturn \<notin> set pair" by (simp add: split_first_def split: if_splits)
      then show ?thesis
        using Some p None by (simp add: decode_meta.simps [of hdr] lines cut_def)
    next
      case (Some kv)
      obtain k v where kv: "kv = (k, v)" by force
      have IH: "(\<exists>m'. decode_meta rest (m(k \<mapsto> v)) = Inr m') \<longleftrightarrow> meta_lines_ok (l # ls)"
        using 1 [OF \<open>split_first newline hdr = Some p\<close> p [symmetric], of k v] unfolding ls .
      have "creturn \<in> set pair"
        using Some kv split_first_SomeD [of creturn pair k v] by auto
      then show ?thesis
        by (subst decode_meta.simps)
          (simp add: \<open>split_first newline hdr = Some p\<close> p Some kv lines cut_def IH)
    qed
  qed
qed

lemma DecodeReqSlice_header:
  assumes "15 \<le> length data" and "header_slice (Uint32 (take 4 data)) data spare = Inr hdr"
  shows "(\<exists>req. DecodeReqSlice data spare = Inr req) \<longleftrightarrow> header_lines_ok (split_on newline hdr) \<and>
    (Uint32 (take 4 (drop 4 data)) \<noteq> 0 \<longrightarrow> unat (Uint32 (take 4 data)) \<le> length data)"
proof (cases "split_first newline hdr")
  case None
  then show ?thesis
    using assms by (simp add: DecodeReqSlice_def decode_fixed_def cut_def split_on_split_first [of newline hdr])
next
  case (Some p)
  obtain svc h1 where p: "p = (svc, h1)" by force
  show ?thesis
  proof (cases "split_first newline h1")
    case None
    then show ?thesis
      using assms Some p
      by (simp add: DecodeReqSlice_def decode_fixed_def cut_def split_on_split_first [of newline hdr]
            split_on_split_first [of newline h1])
  next
    case (Some q)
    obtain meth h2 where q: "q = (meth, h2)" by force
    obtain l ls where ls: "split_on newline h2 = l # ls"
      by (cases "split_on newline h2") auto
    have lines: "split_on newline hdr = svc # meth # l # ls"
      using \<open>split_first newline hdr = Some p\<close> p Some q ls
      by (simp add: split_on_split_first [of newline hdr] split_on_split_first [of newline h1])
    show ?thesis
      using assms \<open>split_first newline hdr = Some p\<close> p Some q decode_meta_ok [of h2 "\<lambda>_. None"] ls
      by (auto simp: DecodeReqSlice_def decode_fixed_def body_slice_def cut_def lines bind_result_Inr_iff)
  qed
qed

text \<open>
  Claim C10: \<open>DecodeReq\<close> returns on exactly the well-formed slices and panics on every other: fewer than
  15 bytes, a header length below 15 or past the capacity, a header (which may reach into the spare
  bytes behind the slice) with fewer than two line ends or with a complete meta line without \<open>\r\<close>, or
  a body that starts past the end of the bytes.
\<close>

theorem DecodeReq_returns_iff: "(\<exists>req. DecodeReqSlice data spare = Inr req) \<longleftrightarrow> decodable data spare"
proof (cases "15 \<le> length data \<and> 15 \<le> unat (Uint32 (take 4 data)) \<and>
    unat (Uint32 (take 4 data)) \<le> length data + length spare")
  case True
  then show ?thesis
    using DecodeReqSlice_header [of data spare] by (simp add: header_slice_def decodable_def Let_def)
next
  case False
  then show ?thesis
    by (auto simp: DecodeReqSlice_def decode_fixed_def header_slice_def decodable_def Let_def)
qed

subsection \<open>Concrete messages\<close>

definition ping :: Request where
  "ping = \<lparr>HeadLength = 0, BodyLength = 0, RequestID = 7, Version = 1, Compresser = 1, Serializer = 1,
     Data = [10, 13, 0], ServiceName = [117, 115], MethodName = [71], Meta = [[107] \<mapsto> [118]]\<rparr>"

definition pong :: Response where
  "pong = \<lparr>HeadLength = 0, BodyLength = 0, RequestID = 7, Version = 1, Compresser = 1, Serializer = 1,
     Data = [1, 2], Error = [10, 101]\<rparr>"

lemma ping_ok: "iter_of (Meta ping) [([107], [118])]" "carried ping"
  "header_size [([107], [118])] ping + length (Data ping) < 2 ^ 32"
  by (auto simp: iter_of_def ping_def carried_def meta_ok_def header_size_def meta_size_def)

theorem request_roundtrip_witness:
  "\<exists>bs. EncodeReq [([107], [118])] (CalculateBodyLength (CalculateHeaderLength [([107], [118])] ping)) = Inr bs \<and>
    DecodeReq bs = Inr (CalculateBodyLength (CalculateHeaderLength [([107], [118])] ping))"
  by (rule request_roundtrip [OF ping_ok(1,1,2,3)])

theorem response_roundtrip_witness:
  "\<exists>bs. EncodeResp (CalculateBodyLength (CalculateHeaderLengthResp pong)) = Inr bs \<and>
    DecodeResp bs = Inr (CalculateBodyLength (CalculateHeaderLengthResp pong))"
  by (rule response_roundtrip) (simp add: pong_def)

end
