(* ===== verification/Rpc_Conn.thy ===== *)
theory Rpc_Conn
  imports Rpc_Message
begin

text \<open>
  The connection of \<open>rpc\<close>: \<open>net.Conn\<close> as the code uses it, and \<open>ReadMsg\<close> of \<open>rpc/tcp.go\<close>.

  The bytes still to be read are a list of segments, in the order the network delivers them; one
  \<open>Read\<close> returns at most the rest of the first segment, as a TCP read does. \<open>remote\<close> is the peer: the
  segments it sends in answer to a written message. A connection the peer has closed is \<open>broken\<close> for
  writing.
\<close>

record net_conn =
  inbound :: "bytes list"
  outbound :: "bytes list"
  remote :: "bytes \<Rightarrow> bytes list"
  broken :: bool

datatype conn_error = EOF | BrokenPipe

text \<open>
  \<open>conn.Read(p)\<close> with \<open>len(p) = n\<close>: an empty buffer reads nothing, a connection with nothing left
  is at its end.
\<close>

fun Read :: "nat \<Rightarrow> bytes list \<Rightarrow> (conn_error, bytes) result \<times> bytes list" where
  "Read 0 cs = (Inr [], cs)"
| "Read (Suc n) [] = (Inl EOF, [])"
| "Read (Suc n) (c # cs) =
     (Inr (take (Suc n) c), (if length c \<le> Suc n then cs else drop (Suc n) c # cs))"

text \<open>\<open>conn.Write\<close> writes the whole message, or fails when the peer has gone.\<close>

definition Write :: "bytes \<Rightarrow> net_conn \<Rightarrow> conn_error option \<times> net_conn" where
  "Write bs c =
     (if broken c then (Some BrokenPipe, c)
      else (None, c\<lparr>outbound := outbound c @ [bs], inbound := inbound c @ remote c bs\<rparr>))"

text \<open>A zeroed buffer of \<open>n\<close> bytes after \<open>bs\<close> was read into it.\<close>

definition fill :: "nat \<Rightarrow> bytes \<Rightarrow> bytes" where
  "fill n bs = bs @ replicate (n - length bs) 0"

text \<open>
  \<open>ReadMsg\<close>: the number of bytes read is dropped, only the error is looked at. \<open>data[8:]\<close> panics
  when the two lengths add up to less than 8. The result is the data, the error and the rest.
\<close>

definition numOfLengthBytes :: nat where
  "numOfLengthBytes = 8"

definition ReadMsg ::
  "bytes list \<Rightarrow> (rpc_panic, (bytes \<times> conn_error option) \<times> bytes list) result" where
  "ReadMsg cs =
     (case Read numOfLengthBytes cs of
        (Inl e, cs) \<Rightarrow> Inr (([], Some e), cs)
      | (Inr got, cs) \<Rightarrow>
          (let lenBs = fill numOfLengthBytes got;
               headerLength = Uint32 (take 4 lenBs);
               bodyLength = Uint32 (drop 4 lenBs);
               n = unat (headerLength + bodyLength)
           in if n < 8 then Inl SliceBounds
              else (case Read (n - 8) cs of
                      (Inl e, cs) \<Rightarrow> Inr ((lenBs @ fill (n - 8) [], Some e), cs)
                    | (Inr got, cs) \<Rightarrow> Inr ((lenBs @ fill (n - 8) got, None), cs))))"

text \<open>The next \<open>k\<close> messages of a connection, none of which may fail.\<close>

fun ReadMsgs :: "nat \<Rightarrow> bytes list \<Rightarrow> (bytes list \<times> bytes list) option" where
  "ReadMsgs 0 cs = Some ([], cs)"
| "ReadMsgs (Suc k) cs =
     (case ReadMsg cs of
        Inr ((bs, None), cs) \<Rightarrow> map_option (\<lambda>(bss, cs). (bs # bss, cs)) (ReadMsgs k cs)
      | _ \<Rightarrow> None)"

subsection \<open>Reading a frame\<close>

definition framed :: "bytes \<Rightarrow> bool" where
  "framed bs \<longleftrightarrow> 8 < length bs \<and> frame_length bs = length bs"

definition segments :: "bytes \<Rightarrow> bytes list" where
  "segments bs = (if bs = [] then [] else [bs])"

lemma Read_pos: "0 < n \<Longrightarrow> Read n (c # cs) =
    (Inr (take n c), (if length c \<le> n then cs else drop n c # cs))"
  by (cases n) auto

lemma Uint32_prefix:
  "8 \<le> length a \<Longrightarrow> frame_length (a @ b) = unat (Uint32 (take 4 a) + Uint32 (drop 4 (take 8 a)))"
  by (simp add: frame_length_def drop_take)

text \<open>
  The first segment holds the length fields: what is read is the rest of the frame, or as much of it
  as the next read returns.
\<close>

lemma ReadMsg_split:
  assumes "8 < length a" and "frame_length (a @ b) = length (a @ b)"
  shows "ReadMsg ((a @ extra) # cs) =
    Inr ((a @ fill (length b) (take (length b) extra), None), segments (drop (length b) extra) @ cs)"
proof -
  define x y where "x = take 8 a" and "y = drop 8 a"
  have a: "a = x @ y" and x: "length x = 8" and y: "y \<noteq> []"
    using assms(1) by (simp_all add: x_def y_def)
  have "unat (Uint32 (take 4 x) + Uint32 (drop 4 x)) = 8 + length y + length b"
    using Uint32_prefix [of a b] assms x by (simp add: a)
  with x y show ?thesis
    by (simp add: ReadMsg_def numOfLengthBytes_def a fill_def Read_pos Let_def segments_def)
qed

lemma ReadMsg_frame:
  "framed bs \<Longrightarrow> ReadMsg ((bs @ extra) # cs) = Inr ((bs, None), segments extra @ cs)"
  using ReadMsg_split [of bs "[]" extra cs] by (simp add: framed_def fill_def)

lemma ReadMsgs_frames:
  "\<forall>bs \<in> set bss. framed bs \<Longrightarrow> ReadMsgs (length bss) (segments (concat bss)) = Some (bss, [])"
proof (induction bss)
  case Nil
  then show ?case by (simp add: segments_def)
next
  case (Cons bs bss)
  then have f: "framed bs" by simp
  then have "segments (concat (bs # bss)) = [bs @ concat bss]"
    by (auto simp: segments_def framed_def)
  with Cons show ?case by (simp add: ReadMsg_frame [OF f])
qed

context message_codec
begin

lemma enc_framed: "ok m \<Longrightarrow> enc m = Inr bs \<Longrightarrow> framed bs"
  using enc_frame [of m] by (auto simp: framed_def)

text \<open>What a client of the codec relies on: the message sent is the message received.\<close>

lemma receive:
  assumes "ok m" and "enc m = Inr bs"
  shows "ReadMsg ((bs @ extra) # cs) = Inr ((bs, None), segments extra @ cs)" and "dec bs = Inr m"
  using ReadMsg_frame [OF enc_framed [OF assms]] dec_enc [OF assms] by auto

lemma receive_all:
  assumes "\<forall>m \<in> set ms. ok m" and "concat_result (\<lambda>m. bind_result (enc m) (\<lambda>bs. Inr [bs])) ms = Inr bss"
  shows "ReadMsgs (length ms) (segments (concat bss)) = Some (bss, []) \<and> map dec bss = map Inr ms"
proof -
  have "length bss = length ms \<and> (\<forall>bs \<in> set bss. framed bs) \<and> map dec bss = map Inr ms"
    using assms
  proof (induction ms arbitrary: bss)
    case Nil
    then show ?case by simp
  next
    case (Cons m ms)
    from Cons.prems(1) obtain bs where bs: "enc m = Inr bs" using enc_frame [of m] by auto
    with Cons.prems(2) obtain bss' where
      "concat_result (\<lambda>m. bind_result (enc m) (\<lambda>bs. Inr [bs])) ms = Inr bss'" and b: "bss = bs # bss'"
      by (auto simp: bind_result_Inr_iff)
    with Cons have "length bss' = length ms \<and> (\<forall>bs \<in> set bss'. framed bs) \<and> map dec bss' = map Inr ms"
      by simp
    moreover have "framed bs" "dec bs = Inr m"
      using Cons.prems(1) bs by (auto intro: enc_framed dec_enc)
    ultimately show ?case using b by simp
  qed
  then show ?thesis using ReadMsgs_frames [of bss] by metis
qed

end

subsection \<open>Properties\<close>

text \<open>
  Messages written one after the other and delivered in one segment are read back one by
  one: \<open>ReadMsg\<close> finds every boundary, and decoding gives the requests that were encoded.
\<close>

theorem ReadMsg_requests:
  assumes "\<forall>req \<in> set reqs. good_req order req"
    and "concat_result (\<lambda>req. bind_result (EncodeReq (order req) req) (\<lambda>bs. Inr [bs])) reqs = Inr bss"
  shows "ReadMsgs (length reqs) (segments (concat bss)) = Some (bss, []) \<and>
    map DecodeReq bss = map Inr reqs"
  using assms by (rule req_codec.receive_all)

text \<open>
  Claim C14: a message the network delivers in two segments is not read whole. When the first segment
  holds the length fields and a part of the message, \<open>ReadMsg\<close> returns that part filled up with the
  zeros of its buffer, reports no error, and leaves the rest of the message on the connection: it
  calls \<open>Read\<close> once where it would have to read until the buffer is full.
\<close>

theorem ReadMsg_short_read:
  assumes "8 < length a" and "b \<noteq> []" and "frame_length (a @ b) = length (a @ b)"
  shows "ReadMsg (a # b # cs) = Inr ((a @ replicate (length b) 0, None), b # cs)"
  using ReadMsg_split [OF assms(1,3), of "[]"] by (simp add: fill_def segments_def)

text \<open>
  Length fields that add up to less than 8, among them fields whose sum wraps around,
  make \<open>ReadMsg\<close> panic.
\<close>

theorem ReadMsg_short_length_panics:
  assumes "8 \<le> length a" and "frame_length a < 8"
  shows "ReadMsg (a # cs) = Inl SliceBounds"
  using assms Uint32_prefix [of a "[]"]
  by (simp add: ReadMsg_def numOfLengthBytes_def Read_pos fill_def Let_def take_take)

definition pings :: "Request list" where
  "pings = replicate 2 (CalculateBodyLength (CalculateHeaderLength [([107], [118])] ping))"

lemma pings_good: "\<forall>req \<in> set pings. good_req (\<lambda>_. [([107], [118])]) req"
  using good_req_calculated [of ping "\<lambda>_. [([107], [118])]", OF ping_ok(1) refl ping_ok]
  by (auto simp: pings_def)

theorem ReadMsg_requests_witness:
  "\<exists>bss. ReadMsgs 2 (segments (concat bss)) = Some (bss, []) \<and> map DecodeReq bss = map Inr pings"
proof -
  obtain bs where "EncodeReq [([107], [118])] (hd pings) = Inr bs"
    using req_codec.enc_frame [of "\<lambda>_. [([107], [118])]" "hd pings"] pings_good by (auto simp: pings_def)
  then have "concat_result (\<lambda>req. bind_result (EncodeReq [([107], [118])] req) (\<lambda>bs. Inr [bs])) pings = Inr [bs, bs]"
    by (simp add: pings_def numeral_2_eq_2)
  from ReadMsg_requests [OF pings_good this] show ?thesis
    by (intro exI [of _ "[bs, bs]"]) (simp add: pings_def)
qed

theorem ReadMsg_short_read_witness:
  "ReadMsg [[0, 0, 0, 15, 0, 0, 0, 2, 1], replicate 8 5] =
     Inr (([0, 0, 0, 15, 0, 0, 0, 2, 1] @ replicate 8 0, None), [replicate 8 5])"
  using ReadMsg_short_read [of "[0, 0, 0, 15, 0, 0, 0, 2, 1]" "replicate 8 5" "[]"]
  by (simp add: frame_length_def)

end
