(* ===== verification/Rpc_Context.thy ===== *)
theory Rpc_Context
  imports Rpc_Conn
begin

text \<open>
  What both ends of \<open>rpc\<close> share: the context values of \<open>rpc/context.go\<close>, the interfaces
  \<open>serialize.Serializer\<close> and \<open>compression.Compression\<close> (their implementations are library code: a
  serializer and a compression are arguments of the model), the decimal numbers of \<open>strconv\<close>
  in which a deadline travels, and the error texts. An error is its text, as it travels.
\<close>

subsection \<open>Contexts\<close>

text \<open>
  A context has a deadline in nanoseconds and the value stored under \<open>onewayKey\<close>.
\<close>

record rpc_ctx =
  ctx_deadline :: "int option"
  ctx_oneway :: "bool option"

definition Background :: rpc_ctx where
  "Background = \<lparr>ctx_deadline = None, ctx_oneway = None\<rparr>"

definition WithDeadline :: "rpc_ctx \<Rightarrow> int \<Rightarrow> rpc_ctx" where
  "WithDeadline ctx d = ctx\<lparr>ctx_deadline :=
     (case ctx_deadline ctx of None \<Rightarrow> Some d | Some p \<Rightarrow> Some (min p d))\<rparr>"

definition CtxWithOneway :: "rpc_ctx \<Rightarrow> rpc_ctx" where
  "CtxWithOneway ctx = ctx\<lparr>ctx_oneway := Some True\<rparr>"

definition isOneway :: "rpc_ctx \<Rightarrow> bool" where
  "isOneway ctx = (case ctx_oneway ctx of None \<Rightarrow> False | Some oneway \<Rightarrow> oneway)"

text \<open>\<open>Time.UnixMilli\<close> rounds down to milliseconds, \<open>time.UnixMilli\<close> goes back.\<close>

definition UnixMilli :: "int \<Rightarrow> int" where
  "UnixMilli t = t div 1000000"

definition of_UnixMilli :: "int \<Rightarrow> int" where
  "of_UnixMilli ms = ms * 1000000"

subsection \<open>Serializers, compressions, errors\<close>

text \<open>
  \<open>Decode\<close> writes through the pointer it gets: it takes the old value and gives the new one, also
  when it fails.
\<close>

record 'v Serializer =
  sl_Code :: "8 word"
  sl_Encode :: "'v \<Rightarrow> (bytes, bytes) result"
  sl_Decode :: "bytes \<Rightarrow> 'v \<Rightarrow> 'v \<times> bytes option"

record Compression =
  cc_Code :: "8 word"
  cc_Compress :: "bytes \<Rightarrow> bytes \<times> bytes option"
  cc_Decompress :: "bytes \<Rightarrow> (bytes, bytes) result"

definition err_no_service :: bytes where
  "err_no_service =
    [228, 189, 160, 232, 166, 129, 232, 176, 131, 231, 148, 168, 231, 154, 132, 230, 156,
     141, 229, 138, 161, 228, 184, 141, 229, 173, 152, 229, 156, 168]"

definition err_oneway :: bytes where
  "err_oneway =
    [109, 105, 99, 114, 111, 58, 32, 229, 190, 174, 230, 156, 141, 229, 138, 161, 230, 156,
     141, 229, 138, 161, 231, 171, 175, 32, 111, 110, 101, 119, 97, 121, 32, 232, 175, 183,
     230, 177, 130]"

definition err_serializer :: bytes where
  "err_serializer =
    [109, 105, 99, 114, 111, 58, 32, 228, 184, 141, 230, 148, 175, 230, 140, 129, 231, 154,
     132, 229, 186, 143, 229, 136, 151, 229, 140, 150, 229, 141, 143, 232, 174, 174]"

definition err_compression :: bytes where
  "err_compression =
    [109, 105, 99, 114, 111, 58, 32, 228, 184, 141, 230, 148, 175, 230, 140, 129, 231, 154,
     132, 229, 142, 139, 231, 188, 169, 229, 141, 143, 232, 174, 174]"

definition err_decompress :: bytes where
  "err_decompress =
    [109, 105, 99, 114, 111, 58, 32, 232, 167, 163, 229, 142, 139, 231, 188, 169, 229, 164,
     177, 232, 180, 165]"

definition err_oneway_result :: bytes where
  "err_oneway_result =
    [109, 105, 99, 114, 111, 58, 32, 232, 191, 153, 230, 152, 175, 228, 184, 128, 228, 184,
     170, 32, 111, 110, 101, 119, 97, 121, 32, 232, 176, 131, 231, 148, 168, 239, 188, 140,
     228, 189, 160, 228, 184, 141, 229, 186, 148, 232, 175, 165, 229, 164, 132, 231, 144,
     134, 228, 187, 187, 228, 189, 149, 231, 187, 147, 230, 158, 156]"

definition err_nil_service :: bytes where
  "err_nil_service =
    [114, 112, 99, 58, 32, 228, 184, 141, 230, 148, 175, 230, 140, 129, 32, 110, 105, 108]"

definition err_not_pointer :: bytes where
  "err_not_pointer =
    [114, 112, 99, 58, 32, 229, 143, 170, 230, 148, 175, 230, 140, 129, 230, 140, 135, 229,
     144, 145, 231, 187, 147, 230, 158, 132, 228, 189, 147, 231, 154, 132, 228, 184, 128,
     231, 186, 167, 230, 140, 135, 233, 146, 136]"

definition of_str :: "string \<Rightarrow> bytes" where
  "of_str s = map of_char s"

subsection \<open>strconv\<close>

fun digits :: "nat \<Rightarrow> bytes" where
  "digits n = (if n < 10 then [48 + word_of_nat n] else digits (n div 10) @ [48 + word_of_nat (n mod 10)])"

declare digits.simps [simp del]

definition FormatInt :: "int \<Rightarrow> bytes" where
  "FormatInt i = (if i < 0 then 45 # digits (nat (- i)) else digits (nat i))"

fun parse_digits :: "nat \<Rightarrow> bytes \<Rightarrow> nat option" where
  "parse_digits acc [] = Some acc"
| "parse_digits acc (c # cs) =
     (if 48 \<le> c \<and> c \<le> 57 then parse_digits (acc * 10 + (unat c - 48)) cs else None)"

definition parse_nat :: "bytes \<Rightarrow> nat option" where
  "parse_nat s = (if s = [] then None else parse_digits 0 s)"

definition int64_range :: "int \<Rightarrow> bool" where
  "int64_range i \<longleftrightarrow> - (2 ^ 63) \<le> i \<and> i < 2 ^ 63"

text \<open>\<open>strconv.ParseInt(s, 10, 64)\<close>.\<close>

definition ParseInt :: "bytes \<Rightarrow> int option" where
  "ParseInt s =
     (let v = (case s of
                 [] \<Rightarrow> None
               | c # cs \<Rightarrow>
                   if c = 45 then map_option (\<lambda>n. - int n) (parse_nat cs)
                   else if c = 43 then map_option int (parse_nat cs)
                   else map_option int (parse_nat s))
      in case v of None \<Rightarrow> None | Some i \<Rightarrow> if int64_range i then Some i else None)"

lemma parse_digits_append:
  "parse_digits acc (a @ b) = (case parse_digits acc a of None \<Rightarrow> None | Some n \<Rightarrow> parse_digits n b)"
  by (induction a arbitrary: acc) auto

lemma digit_byte:
  assumes "n < 10"
  shows "48 \<le> (48 + word_of_nat n :: byte) \<and> (48 + word_of_nat n :: byte) \<le> 57 \<and>
    unat (48 + word_of_nat n :: byte) = 48 + n"
proof -
  from assms have "n \<in> {0, 1, 2, 3, 4, 5, 6, 7, 8, 9}" by auto
  then show ?thesis by auto
qed

lemma parse_digits_digits: "parse_digits 0 (digits n) = Some n"
proof (induction n rule: digits.induct)
  case (1 n)
  show ?case
  proof (cases "n < 10")
    case True
    then show ?thesis using digit_byte [OF True] by (simp add: digits.simps [of n])
  next
    case False
    then show ?thesis
      using 1 digit_byte [of "n mod 10"]
      by (simp add: digits.simps [of n] parse_digits_append)
  qed
qed

lemma digits_bytes: "c \<in> set (digits n) \<Longrightarrow> 48 \<le> c \<and> c \<le> 57"
proof (induction n rule: digits.induct)
  case (1 n)
  then show ?case
    using digit_byte [of n] digit_byte [of "n mod 10"]
    by (cases "n < 10") (auto simp: digits.simps [of n])
qed

lemma digits_not_Nil [simp]: "digits n \<noteq> []"
  by (simp add: digits.simps [of n])

lemma ParseInt_FormatInt:
  assumes "int64_range i"
  shows "ParseInt (FormatInt i) = Some i"
proof (cases "i < 0")
  case True
  with assms show ?thesis
    by (simp add: ParseInt_def FormatInt_def parse_nat_def parse_digits_digits)
next
  case False
  obtain c cs where d: "digits (nat i) = c # cs" by (cases "digits (nat i)") auto
  then have "48 \<le> c" using digits_bytes [of c "nat i"] by simp
  then have "c \<noteq> 45" "c \<noteq> 43" by (auto simp: word_le_nat_alt)
  with d False assms parse_digits_digits [of "nat i"] show ?thesis
    by (simp add: ParseInt_def FormatInt_def parse_nat_def)
qed

lemma FormatInt_no_newline: "newline \<notin> set (FormatInt i)"
  using digits_bytes [of newline] by (auto simp: FormatInt_def)

text \<open>
  A deadline survives its trip in the meta data: the decimal text \<open>FormatInt\<close> writes for a
  64-bit number is read back by \<open>ParseInt\<close>, and holds no line end.
\<close>

theorem deadline_roundtrip:
  assumes "int64_range (UnixMilli t)"
  shows "ParseInt (FormatInt (UnixMilli t)) = Some (UnixMilli t) \<and>
    newline \<notin> set (FormatInt (UnixMilli t))"
  using ParseInt_FormatInt [OF assms] FormatInt_no_newline by simp

end
