(* ===== verification/Rpc_Server.thy ===== *)
theory Rpc_Server
  imports Rpc_Context
begin

text \<open>
  The server of \<open>rpc/server.go\<close>: its registries, \<open>handleConn\<close>, \<open>Invoke\<close> and the reflective call of a
  service method.

  A registered service is an argument of the model: its name and its methods, found by name as
  \<open>reflect\<close> finds them. A method gives its result, \<^const>\<open>None\<close> when nil, and its error, for a context and
  an argument; a service with state of its own is outside the model. The calls a
  one-way request starts in a goroutine of their own are recorded, since the connection does not
  wait for them.
\<close>

subsection \<open>Services and registries\<close>

record 'v Method =
  in_zero :: 'v
  call :: "rpc_ctx \<Rightarrow> 'v \<Rightarrow> 'v option \<times> bytes option"

record 'v Service =
  svc_Name :: bytes
  svc_methods :: "bytes \<Rightarrow> 'v Method option"

record 'v reflectionStub =
  rs_service :: "'v Service"
  rs_serializers :: "8 word \<Rightarrow> 'v Serializer option"
  rs_compressions :: "8 word \<Rightarrow> Compression option"

text \<open>
  The stubs of \<open>services\<close> share the server's serializer map, and get its compression map at each
  call: a stub is put together when it is looked up.
\<close>

record 'v Server =
  services :: "bytes \<Rightarrow> 'v Service option"
  serializers :: "8 word \<Rightarrow> 'v Serializer option"
  compressions :: "8 word \<Rightarrow> Compression option"

definition RegisterSerializer :: "'v Serializer \<Rightarrow> 'v Server \<Rightarrow> 'v Server" where
  "RegisterSerializer sl s = s\<lparr>serializers := (serializers s)(sl_Code sl \<mapsto> sl)\<rparr>"

definition RegisterCompression :: "Compression \<Rightarrow> 'v Server \<Rightarrow> 'v Server" where
  "RegisterCompression cc s = s\<lparr>compressions := (compressions s)(cc_Code cc \<mapsto> cc)\<rparr>"

definition RegisterService :: "'v Service \<Rightarrow> 'v Server \<Rightarrow> 'v Server" where
  "RegisterService service s = s\<lparr>services := (services s)(svc_Name service \<mapsto> service)\<rparr>"

definition NewServer :: "'v Serializer \<Rightarrow> Compression \<Rightarrow> 'v Server" where
  "NewServer json zstd =
     RegisterCompression zstd (RegisterSerializer json
       \<lparr>services = Map.empty, serializers = Map.empty, compressions = Map.empty\<rparr>)"

subsection \<open>The call\<close>

text \<open>
  \<open>MethodByName\<close> of an unknown name gives the zero value, whose \<open>Type()\<close> panics; \<open>Name\<close> is a method
  of every service and takes no argument, so \<open>In(1)\<close> panics.
\<close>

definition find_method :: "'v Service \<Rightarrow> bytes \<Rightarrow> (rpc_panic, 'v Method) result" where
  "find_method service name =
     (if name = of_str ''Name'' then Inl IndexRange
      else case svc_methods service name of None \<Rightarrow> Inl ZeroValue | Some m \<Rightarrow> Inr m)"

definition invoke ::
  "'v reflectionStub \<Rightarrow> rpc_ctx \<Rightarrow> Request \<Rightarrow> (rpc_panic, bytes \<times> bytes option) result" where
  "invoke s ctx req =
     bind_result (find_method (rs_service s) (MethodName req)) (\<lambda>method.
     case rs_serializers s (Serializer req) of None \<Rightarrow> Inr ([], Some err_serializer) | Some serializer \<Rightarrow>
     case rs_compressions s (Compresser req) of None \<Rightarrow> Inr ([], Some err_compression) | Some compressor \<Rightarrow>
     case cc_Decompress compressor (Data req) of Inl _ \<Rightarrow> Inr ([], Some err_decompress) | Inr data \<Rightarrow>
     case sl_Decode serializer data (in_zero method) of
       (_, Some err) \<Rightarrow> Inr ([], Some err)
     | (inReq, None) \<Rightarrow>
         (case call method ctx inReq of
            (None, err) \<Rightarrow> Inr ([], err)
          | (Some result, err) \<Rightarrow>
              (case sl_Encode serializer result of
                 Inl er \<Rightarrow> Inr ([], Some er)
               | Inr res \<Rightarrow> Inr (fst (cc_Compress compressor res), err))))"

type_synonym spawned = "(rpc_ctx \<times> Request) list"

definition Invoke ::
  "'v Server \<Rightarrow> rpc_ctx \<Rightarrow> Request \<Rightarrow> (rpc_panic, (Response option \<times> bytes option) \<times> spawned) result" where
  "Invoke s ctx req =
     (let resp = \<lparr>HeadLength = 0, BodyLength = 0, RequestID = RequestID req, Version = Version req,
                  Compresser = Compresser req, Serializer = Serializer req, Data = [], Error = []\<rparr>
      in case services s (ServiceName req) of
           None \<Rightarrow> Inr ((Some resp, Some err_no_service), [])
         | Some service \<Rightarrow>
             if isOneway ctx then Inr ((None, Some err_oneway), [(ctx, req)])
             else bind_result
                    (invoke \<lparr>rs_service = service, rs_serializers = serializers s,
                             rs_compressions = compressions s\<rparr> ctx req)
                    (\<lambda>(respData, err). Inr ((Some (resp\<lparr>Data := respData\<rparr>), err), [])))"

subsection \<open>A connection\<close>

text \<open>The context of a request, read from its meta data.\<close>

definition request_ctx :: "Request \<Rightarrow> rpc_ctx" where
  "request_ctx req =
     (let ctx = Background;
          ctx = (case Meta req (of_str ''deadline'') of
                   None \<Rightarrow> ctx
                 | Some deadlineStr \<Rightarrow>
                     (case ParseInt deadlineStr of
                        None \<Rightarrow> ctx
                      | Some deadline \<Rightarrow> WithDeadline ctx (of_UnixMilli deadline)))
      in if Meta req (of_str ''one-way'') = Some (of_str ''true'') then CtxWithOneway ctx else ctx)"

record conn_state =
  conn :: net_conn
  spawned :: spawned

datatype conn_outcome = Panicked rpc_panic | Returned conn_error | Answered

text \<open>
  One round of the loop of \<open>handleConn\<close>: a panic, a return with an error (the caller then closes the
  connection), or the next round.
\<close>

definition answer :: "Response option \<Rightarrow> bytes option \<Rightarrow> (rpc_panic, Response) result" where
  "answer resp err =
     (case resp of
        None \<Rightarrow> Inl NilPointer
      | Some r \<Rightarrow>
          Inr (CalculateBodyLength (CalculateHeaderLengthResp
            (case err of None \<Rightarrow> r | Some e \<Rightarrow> r\<lparr>Error := e\<rparr>))))"

definition handleRound :: "'v Server \<Rightarrow> conn_state \<Rightarrow> conn_outcome \<times> conn_state" where
  "handleRound s st =
     (case ReadMsg (inbound (conn st)) of
        Inl p \<Rightarrow> (Panicked p, st)
      | Inr ((_, Some e), cs) \<Rightarrow> (Returned e, st\<lparr>conn := (conn st)\<lparr>inbound := cs\<rparr>\<rparr>)
      | Inr ((reqBs, None), cs) \<Rightarrow>
          (let st = st\<lparr>conn := (conn st)\<lparr>inbound := cs\<rparr>\<rparr> in
           case DecodeReq reqBs of
             Inl p \<Rightarrow> (Panicked p, st)
           | Inr req \<Rightarrow>
               (case Invoke s (request_ctx req) req of
                  Inl p \<Rightarrow> (Panicked p, st)
                | Inr ((resp, err), started) \<Rightarrow>
                    (let st = st\<lparr>spawned := spawned st @ started\<rparr> in
                     case bind_result (answer resp err) EncodeResp of
                       Inl p \<Rightarrow> (Panicked p, st)
                     | Inr bs \<Rightarrow>
                         (case Write bs (conn st) of
                            (Some e, _) \<Rightarrow> (Returned e, st)
                          | (None, c) \<Rightarrow> (Answered, st\<lparr>conn := c\<rparr>))))))"

text \<open>The loop, for at most \<open>k\<close> rounds.\<close>

fun handleConn :: "nat \<Rightarrow> 'v Server \<Rightarrow> conn_state \<Rightarrow> conn_outcome \<times> conn_state" where
  "handleConn 0 s st = (Answered, st)"
| "handleConn (Suc k) s st =
     (case handleRound s st of
        (Answered, st) \<Rightarrow> handleConn k s st
      | r \<Rightarrow> r)"

subsection \<open>What a connection is owed\<close>

text \<open>The response a request is owed, and the requests that get one.\<close>

definition reply :: "'v Server \<Rightarrow> Request \<Rightarrow> (rpc_panic, Response) result" where
  "reply s req = bind_result (Invoke s (request_ctx req) req) (\<lambda>((resp, err), _). answer resp err)"

definition answerable :: "'v Server \<Rightarrow> Request \<Rightarrow> bool" where
  "answerable s req \<longleftrightarrow>
     (case reply s req of Inl _ \<Rightarrow> False | Inr r \<Rightarrow> 15 + length (Error r) + length (Data r) < 2 ^ 32)"

lemma answer_good:
  "answer resp err = Inr r \<Longrightarrow> 15 + length (Error r) + length (Data r) < 2 ^ 32 \<Longrightarrow> good_resp r"
  by (auto simp: answer_def good_resp_def sized_def CalculateBodyLength_def CalculateHeaderLengthResp_def
      split: option.splits)

lemma Invoke_spawns:
  "Invoke s ctx req = Inr ((Some resp, err), started) \<Longrightarrow> started = []"
  by (auto simp: Invoke_def bind_result_Inr_iff Let_def split: option.splits if_splits)

lemma Invoke_echo:
  assumes "Invoke s ctx req = Inr ((Some resp, err), started)"
  shows "RequestID resp = RequestID req \<and> Version resp = Version req \<and>
    Compresser resp = Compresser req \<and> Serializer resp = Serializer req \<and>
    (services s (ServiceName req) = None \<longrightarrow> err = Some err_no_service \<and> Data resp = [])"
  using assms by (auto simp: Invoke_def bind_result_Inr_iff Let_def split: option.splits if_splits)

lemma reply_cases:
  assumes "reply s req = Inr r"
  obtains resp err where "Invoke s (request_ctx req) req = Inr ((Some resp, err), [])"
    and "answer (Some resp) err = Inr r"
proof -
  from assms obtain o1 err started where
    i: "Invoke s (request_ctx req) req = Inr ((o1, err), started)" and a: "answer o1 err = Inr r"
    by (auto simp: reply_def bind_result_Inr_iff)
  from a obtain resp where "o1 = Some resp" by (cases o1) (auto simp: answer_def)
  with i a Invoke_spawns that show thesis by metis
qed

lemma reply_good: "answerable s req \<Longrightarrow> \<exists>r. reply s req = Inr r \<and> good_resp r"
  by (cases "reply s req") (auto simp: answerable_def elim!: reply_cases intro: answer_good)

lemma reply_encoded:
  assumes "answerable s req"
  obtains r out where "reply s req = Inr r" "EncodeResp r = Inr out" "DecodeResp out = Inr r" "framed out"
  using reply_good [OF assms] resp_codec.enc_frame resp_codec.dec_enc resp_codec.enc_framed by metis

text \<open>One round on a connection whose next bytes are a whole request.\<close>

lemma handleRound_request:
  assumes "inbound (conn st) = (bs @ extra) # cs" and "good_req order req" and "EncodeReq (order req) req = Inr bs"
    and "reply s req = Inr r" and "EncodeResp r = Inr out" and "\<not> broken (conn st)"
  shows "handleRound s st = (Answered, st\<lparr>conn := (conn st)
    \<lparr>inbound := segments extra @ cs @ remote (conn st) out, outbound := outbound (conn st) @ [out]\<rparr>\<rparr>)"
proof -
  obtain resp err where "Invoke s (request_ctx req) req = Inr ((Some resp, err), [])"
    "answer (Some resp) err = Inr r"
    using assms(4) by (rule reply_cases)
  then show ?thesis
    using assms(5,6)
    by (simp add: handleRound_def assms(1) req_codec.receive [OF assms(2,3)] Write_def Let_def)
qed

lemma handleRound_EOF:
  "inbound (conn st) = [] \<Longrightarrow> handleRound s st = (Returned EOF, st)"
  by (simp add: handleRound_def ReadMsg_def numOfLengthBytes_def numeral_eq_Suc)

lemma handleConn_requests:
  assumes "\<forall>req \<in> set reqs. good_req order req \<and> answerable s req"
    and "concat_result (\<lambda>req. bind_result (EncodeReq (order req) req) (\<lambda>bs. Inr [bs])) reqs = Inr bss"
    and "inbound (conn st) = segments (concat bss)" and "remote (conn st) = (\<lambda>_. [])"
    and "\<not> broken (conn st)"
  shows "\<exists>outs. handleConn (Suc (length reqs)) s st =
      (Returned EOF, st\<lparr>conn := (conn st)\<lparr>inbound := [], outbound := outbound (conn st) @ outs\<rparr>\<rparr>) \<and>
    map DecodeResp outs = map (reply s) reqs"
  using assms
proof (induction reqs arbitrary: bss st)
  case Nil
  then show ?case by (simp add: segments_def handleRound_EOF)
next
  case (Cons req reqs)
  from Cons.prems(1) obtain bs where bs: "EncodeReq (order req) req = Inr bs" and good: "good_req order req"
    using req_codec.enc_frame by fastforce
  with Cons.prems(2) obtain bss' where bss: "bss = bs # bss'" and
    bss': "concat_result (\<lambda>req. bind_result (EncodeReq (order req) req) (\<lambda>bs. Inr [bs])) reqs = Inr bss'"
    by (auto simp: bind_result_Inr_iff)
  obtain r out where r: "reply s req = Inr r" "EncodeResp r = Inr out" "DecodeResp out = Inr r"
    using Cons.prems(1) reply_encoded [of s req] by (metis list.set_intros(1))
  let ?st = "st\<lparr>conn := (conn st)\<lparr>inbound := segments (concat bss'), outbound := outbound (conn st) @ [out]\<rparr>\<rparr>"
  have "bs \<noteq> []" using req_codec.enc_framed [OF good bs] by (auto simp: framed_def)
  then have "inbound (conn st) = (bs @ concat bss') # []"
    using Cons.prems(3) bss by (simp add: segments_def)
  from handleRound_request [OF this good bs r(1,2) Cons.prems(5)] Cons.prems(4)
  have step: "handleRound s st = (Answered, ?st)" by simp
  from Cons.IH [OF _ bss', of ?st] Cons.prems obtain outs where
    "handleConn (Suc (length reqs)) s ?st =
      (Returned EOF, ?st\<lparr>conn := (conn ?st)\<lparr>inbound := [], outbound := outbound (conn ?st) @ outs\<rparr>\<rparr>)"
    and "map DecodeResp outs = map (reply s) reqs"
    by auto
  with step r(1,3) show ?case
    by (intro exI [of _ "out # outs"]) (simp del: handleConn.simps add: handleConn.simps(2) [of "Suc _"])
qed

text \<open>A call that goes through: what has to be registered for the request, and what the method gives.\<close>

definition prepared ::
  "'v Server \<Rightarrow> Request \<Rightarrow> 'v Serializer \<Rightarrow> Compression \<Rightarrow> 'v Method \<Rightarrow> 'v \<Rightarrow> bool" where
  "prepared s req sl cc m arg \<longleftrightarrow>
     (\<exists>service data. services s (ServiceName req) = Some service \<and>
        MethodName req \<noteq> of_str ''Name'' \<and> svc_methods service (MethodName req) = Some m \<and>
        serializers s (Serializer req) = Some sl \<and> compressions s (Compresser req) = Some cc \<and>
        cc_Decompress cc (Data req) = Inr data \<and> sl_Decode sl data (in_zero m) = (arg, None))"

definition finished :: "Request \<Rightarrow> bytes \<Rightarrow> bytes \<Rightarrow> Response" where
  "finished req err res = CalculateBodyLength (CalculateHeaderLengthResp
     \<lparr>HeadLength = 0, BodyLength = 0, RequestID = RequestID req, Version = Version req,
      Compresser = Compresser req, Serializer = Serializer req, Data = res, Error = err\<rparr>)"

definition error_text :: "bytes option \<Rightarrow> bytes" where
  "error_text err = (case err of None \<Rightarrow> [] | Some e \<Rightarrow> e)"

lemma reply_prepared:
  assumes "prepared s req sl cc m arg" and "\<not> isOneway (request_ctx req)"
    and "call m (request_ctx req) arg = (Some v, err)" and "sl_Encode sl v = Inr res"
  shows "reply s req = Inr (finished req (error_text err) (fst (cc_Compress cc res)))"
  using assms
  by (auto simp: prepared_def reply_def Invoke_def invoke_def find_method_def Let_def answer_def finished_def
        error_text_def split: option.splits)

lemma reply_prepared_nil:
  assumes "prepared s req sl cc m arg" and "\<not> isOneway (request_ctx req)"
    and "call m (request_ctx req) arg = (None, err)"
  shows "reply s req = Inr (finished req (error_text err) [])"
  using assms
  by (auto simp: prepared_def reply_def Invoke_def invoke_def find_method_def Let_def answer_def finished_def
        error_text_def split: option.splits)

subsection \<open>Properties\<close>

text \<open>
  A connection on which good, answerable requests arrive in one segment gets one response
  for each of them, in their order, each decoding to what the server owes that request, and then the
  connection is closed at the end of its input.
\<close>

theorem handleConn_answers_all:
  assumes "\<forall>req \<in> set reqs. good_req order req \<and> answerable s req"
    and "concat_result (\<lambda>req. bind_result (EncodeReq (order req) req) (\<lambda>bs. Inr [bs])) reqs = Inr bss"
    and "inbound (conn st) = segments (concat bss)" and "remote (conn st) = (\<lambda>_. [])"
    and "\<not> broken (conn st)"
  shows "\<exists>outs. handleConn (Suc (length reqs)) s st =
      (Returned EOF, st\<lparr>conn := (conn st)\<lparr>inbound := [], outbound := outbound (conn st) @ outs\<rparr>\<rparr>) \<and>
    map DecodeResp outs = map (reply s) reqs"
  using assms by (rule handleConn_requests)

text \<open>
  A response answers its request: it carries the request's identifier, version,
  compression and serializer; for an unknown service it holds that error and no data; and its length
  fields are those of its parts.
\<close>

theorem reply_answers_request:
  assumes "reply s req = Inr r"
  shows "RequestID r = RequestID req \<and> Version r = Version req \<and> Compresser r = Compresser req \<and>
    Serializer r = Serializer req \<and>
    (services s (ServiceName req) = None \<longrightarrow> Error r = err_no_service \<and> Data r = []) \<and>
    HeadLength r = 15 + word_of_nat (length (Error r)) \<and> BodyLength r = word_of_nat (length (Data r))"
proof -
  obtain resp err where "Invoke s (request_ctx req) req = Inr ((Some resp, err), [])"
    and r: "answer (Some resp) err = Inr r"
    using assms by (rule reply_cases)
  from Invoke_echo [OF this(1)] r show ?thesis
    by (cases err) (auto simp: answer_def CalculateBodyLength_def CalculateHeaderLengthResp_def)
qed

text \<open>
  A one-way request for a registered service starts the call and then panics the server:
  \<open>Invoke\<close> returns a nil response with an error, and \<open>handleConn\<close> stores the error text in that nil
  response.
\<close>

theorem oneway_request_panics:
  assumes "inbound (conn st) = (bs @ extra) # cs" and "good_req order req" and "EncodeReq (order req) req = Inr bs"
    and "services s (ServiceName req) \<noteq> None"
    and "Meta req (of_str ''one-way'') = Some (of_str ''true'')"
  shows "\<exists>st'. handleRound s st = (Panicked NilPointer, st') \<and> outbound (conn st') = outbound (conn st) \<and>
    spawned st' = spawned st @ [(request_ctx req, req)]"
proof -
  have "isOneway (request_ctx req)"
    using assms(5) by (simp add: request_ctx_def isOneway_def CtxWithOneway_def Let_def)
  then show ?thesis
    using assms(4)
    by (auto simp: handleRound_def assms(1) req_codec.receive [OF assms(2,3)] Invoke_def answer_def Let_def)
qed

text \<open>
  A request that names a method the service does not have panics the server, whatever its
  data; nothing is written.
\<close>

theorem unknown_method_panics:
  assumes "inbound (conn st) = (bs @ extra) # cs" and "good_req order req" and "EncodeReq (order req) req = Inr bs"
    and "services s (ServiceName req) = Some service" and "svc_methods service (MethodName req) = None"
    and "Meta req (of_str ''one-way'') = None"
  shows "\<exists>p st'. handleRound s st = (Panicked p, st') \<and> outbound (conn st') = outbound (conn st) \<and>
    spawned st' = spawned st"
proof -
  have "\<not> isOneway (request_ctx req)"
    using assms(6) by (simp add: request_ctx_def isOneway_def Background_def WithDeadline_def Let_def
        split: option.splits)
  then show ?thesis
    using assms(4,5)
    by (simp add: handleRound_def assms(1) req_codec.receive [OF assms(2,3)] Invoke_def invoke_def
          find_method_def Let_def)
qed

subsection \<open>Concrete connections\<close>

text \<open>A serializer of byte strings, a compression that adds one byte, a service that echoes.\<close>

definition plain_serializer :: "bytes Serializer" where
  "plain_serializer = \<lparr>sl_Code = 1, sl_Encode = Inr, sl_Decode = (\<lambda>d _. (d, None))\<rparr>"

definition tagging :: Compression where
  "tagging = \<lparr>cc_Code = 1, cc_Compress = (\<lambda>d. (0 # d, None)),
     cc_Decompress = (\<lambda>d. case d of [] \<Rightarrow> Inl [] | _ # d \<Rightarrow> Inr d)\<rparr>"

definition echo :: "bytes Method" where
  "echo = \<lparr>in_zero = [], call = (\<lambda>ctx d. (Some d, None))\<rparr>"

definition echo_service :: "bytes Service" where
  "echo_service = \<lparr>svc_Name = [117, 115], svc_methods = [[71] \<mapsto> echo]\<rparr>"

definition echo_server :: "bytes Server" where
  "echo_server = RegisterService echo_service (NewServer plain_serializer tagging)"

definition idle :: "bytes list \<Rightarrow> conn_state" where
  "idle cs = \<lparr>conn = \<lparr>inbound = cs, outbound = [], remote = (\<lambda>_. []), broken = False\<rparr>, spawned = []\<rparr>"

lemmas echo_defs = echo_server_def echo_service_def RegisterService_def NewServer_def
  RegisterCompression_def RegisterSerializer_def plain_serializer_def tagging_def echo_def

lemma pings_encoded: "\<exists>bs. EncodeReq [([107], [118])] (hd pings) = Inr bs \<and> length pings = 2 \<and>
    (\<forall>req \<in> set pings. EncodeReq [([107], [118])] req = Inr bs)"
  using req_codec.enc_frame [of "\<lambda>_. [([107], [118])]" "hd pings"] pings_good by (auto simp: pings_def)

lemma pings_answerable: "req \<in> set pings \<Longrightarrow> answerable echo_server req"
proof -
  assume "req \<in> set pings"
  then have m: "Meta req = [[107] \<mapsto> [118]]" "ServiceName req = [117, 115]" "MethodName req = [71]"
    "Data req = [10, 13, 0]" "Serializer req = 1" "Compresser req = 1"
    by (auto simp: pings_def ping_def CalculateBodyLength_def CalculateHeaderLength_def)
  then have "request_ctx req = Background"
    by (simp add: request_ctx_def of_str_def Let_def)
  then have "reply echo_server req = Inr (finished req [] [0, 13, 0])"
    using m by (simp add: reply_def Invoke_def invoke_def find_method_def echo_defs answer_def finished_def
        isOneway_def Background_def of_str_def Let_def)
  then show "answerable echo_server req"
    by (simp add: answerable_def finished_def CalculateBodyLength_def CalculateHeaderLengthResp_def)
qed

theorem handleConn_answers_all_witness:
  "\<exists>bss outs. handleConn 3 echo_server (idle (segments (concat bss))) =
      (Returned EOF, (idle [])\<lparr>conn := (conn (idle []))\<lparr>outbound := outs\<rparr>\<rparr>) \<and>
    map DecodeResp outs = map (reply echo_server) pings"
proof -
  obtain bs where "EncodeReq [([107], [118])] (hd pings) = Inr bs" and len: "length pings = 2"
    using pings_encoded by blast
  then have enc: "concat_result (\<lambda>req. bind_result (EncodeReq [([107], [118])] req) (\<lambda>bs. Inr [bs])) pings = Inr [bs, bs]"
    by (simp add: pings_def numeral_2_eq_2)
  have good: "\<forall>req \<in> set pings. good_req (\<lambda>_. [([107], [118])]) req \<and> answerable echo_server req"
    using pings_good pings_answerable by blast
  from handleConn_answers_all [OF good enc, of "idle (segments (concat [bs, bs]))"] obtain outs where
    "handleConn 3 echo_server (idle (segments (concat [bs, bs]))) =
      (Returned EOF, (idle [])\<lparr>conn := (conn (idle []))\<lparr>outbound := outs\<rparr>\<rparr>)"
    "map DecodeResp outs = map (reply echo_server) pings"
    by (auto simp: len idle_def simp del: handleConn.simps)
  then show ?thesis by blast
qed

definition oneway_ping :: Request where
  "oneway_ping = CalculateBodyLength (CalculateHeaderLength [(of_str ''one-way'', of_str ''true'')]
     (ping\<lparr>Meta := [of_str ''one-way'' \<mapsto> of_str ''true'']\<rparr>))"

lemma oneway_ping_good: "good_req (\<lambda>_. [(of_str ''one-way'', of_str ''true'')]) oneway_ping"
  unfolding oneway_ping_def
  by (intro good_req_calculated)
    (auto simp: iter_of_def ping_def carried_def meta_ok_def header_size_def meta_size_def of_str_def)

theorem oneway_request_panics_witness:
  "\<exists>bs st'. handleRound echo_server (idle [bs]) = (Panicked NilPointer, st') \<and>
    spawned st' = [(request_ctx oneway_ping, oneway_ping)]"
proof -
  obtain bs where bs: "EncodeReq [(of_str ''one-way'', of_str ''true'')] oneway_ping = Inr bs"
    using req_codec.enc_frame [OF oneway_ping_good] by auto
  have "inbound (conn (idle [bs])) = (bs @ []) # []" by (simp add: idle_def)
  from oneway_request_panics [OF this oneway_ping_good bs, of echo_server] show ?thesis
    by (intro exI [of _ bs])
      (auto simp: echo_defs oneway_ping_def ping_def CalculateBodyLength_def CalculateHeaderLength_def idle_def)
qed

end
