(* ===== verification/Rpc_Client.thy ===== *)
theory Rpc_Client
  imports Rpc_Server
begin

text \<open>
  The client of \<open>rpc/client.go\<close>: the functions \<open>setFuncField\<close> puts into the fields of a service, the
  client's options, \<open>doInvoke\<close> and \<open>send\<close>; and the remote call as a whole, from the field of the client's
  service through both codecs and the server to the method and back. The connection pool is library
  code: what its \<open>Get\<close> gives is an argument. \<open>Client.Invoke\<close> itself is the subject of
  \<open>Rpc_Invoke\<close>.
\<close>

datatype rpc_error = Text bytes | ConnError conn_error | PoolError

subsection \<open>Sending\<close>

definition send ::
  "net_conn option \<Rightarrow> rpc_ctx \<Rightarrow> bytes \<Rightarrow> (rpc_panic, bytes \<times> rpc_error option) result \<times> net_conn option" where
  "send get ctx data =
     (case get of
        None \<Rightarrow> (Inr ([], Some PoolError), None)
      | Some c \<Rightarrow>
          (case Write data c of
             (Some err, c) \<Rightarrow> (Inr ([], Some (ConnError err)), Some c)
           | (None, c) \<Rightarrow>
               if isOneway ctx then (Inr ([], Some (Text err_oneway_result)), Some c)
               else (case ReadMsg (inbound c) of
                       Inl p \<Rightarrow> (Inl p, Some c)
                     | Inr ((bs, err), cs) \<Rightarrow>
                         (Inr (bs, map_option ConnError err), Some (c\<lparr>inbound := cs\<rparr>)))))"

definition doInvoke ::
  "(bytes \<times> bytes) list \<Rightarrow> net_conn option \<Rightarrow> rpc_ctx \<Rightarrow> Request \<Rightarrow>
     (rpc_panic, (rpc_error, Response) result) result" where
  "doInvoke kvs get ctx req =
     bind_result (EncodeReq kvs req) (\<lambda>data.
     bind_result (fst (send get ctx data)) (\<lambda>(resp, err).
     case err of
       Some e \<Rightarrow> Inr (Inl e)
     | None \<Rightarrow> bind_result (DecodeResp resp) (\<lambda>r. Inr (Inr r))))"

subsection \<open>The functions of a service\<close>

type_synonym proxy = "rpc_ctx \<Rightarrow> Request \<Rightarrow> (rpc_panic, (rpc_error, Response) result) result"
type_synonym 'v stub = "rpc_ctx \<Rightarrow> 'v \<Rightarrow> (rpc_panic, 'v \<times> rpc_error option) result"

definition call_meta :: "rpc_ctx \<Rightarrow> bytes \<Rightarrow> bytes option" where
  "call_meta ctx =
     (let meta = Map.empty;
          meta = (case ctx_deadline ctx of
                    None \<Rightarrow> meta
                  | Some deadline \<Rightarrow> meta(of_str ''deadline'' \<mapsto> FormatInt (UnixMilli deadline)))
      in if isOneway ctx then meta(of_str ''one-way'' \<mapsto> of_str ''true'') else meta)"

text \<open>The request of a call; \<open>kvs\<close> is the order in which the header length is summed up.\<close>

definition call_request ::
  "'v Serializer \<Rightarrow> Compression \<Rightarrow> bytes \<Rightarrow> bytes \<Rightarrow> (bytes \<times> bytes) list \<Rightarrow> rpc_ctx \<Rightarrow> bytes \<Rightarrow> Request" where
  "call_request s c svc meth kvs ctx reqData =
     CalculateBodyLength (CalculateHeaderLength kvs
       \<lparr>HeadLength = 0, BodyLength = 0, RequestID = 0, Version = 0, Compresser = cc_Code c,
        Serializer = sl_Code s, Data = fst (cc_Compress c reqData), ServiceName = svc,
        MethodName = meth, Meta = call_meta ctx\<rparr>)"

definition call_stub ::
  "'v Serializer \<Rightarrow> Compression \<Rightarrow> proxy \<Rightarrow> bytes \<Rightarrow> bytes \<Rightarrow> 'v \<Rightarrow> (bytes \<times> bytes) list \<Rightarrow> 'v stub" where
  "call_stub s c p svc meth retVal kvs ctx arg =
     (case sl_Encode s arg of
        Inl err \<Rightarrow> Inr (retVal, Some (Text err))
      | Inr reqData \<Rightarrow>
          bind_result (p ctx (call_request s c svc meth kvs ctx reqData)) (\<lambda>r.
          case r of
            Inl err \<Rightarrow> Inr (retVal, Some err)
          | Inr resp \<Rightarrow>
              (let retErr = (if Error resp \<noteq> [] then Some (Text (Error resp)) else None) in
               if Data resp = [] then Inr (retVal, retErr)
               else (case cc_Decompress c (Data resp) of
                       Inl derr \<Rightarrow> Inr (retVal, Some (Text derr))
                     | Inr data \<Rightarrow>
                         (case sl_Decode s data retVal of
                            (retVal, Some err) \<Rightarrow> Inr (retVal, Some (Text err))
                          | (retVal, None) \<Rightarrow> Inr (retVal, retErr))))))"

text \<open>
  What \<open>InitService\<close> is given: nil, a pointer to a struct with its fields, or anything else. A field
  that can be set but is not of a function type makes \<open>reflect.MakeFunc\<close> panic.
\<close>

record 'v field =
  f_Name :: bytes
  f_CanSet :: bool
  f_IsFunc :: bool
  f_zero :: 'v
  f_value :: "'v stub option"

datatype 'v go_service = NilService | StructPointer bytes "'v field list" | OtherKind

fun set_fields ::
  "(bytes \<Rightarrow> 'v \<Rightarrow> 'v stub) \<Rightarrow> 'v field list \<Rightarrow> (rpc_panic, 'v field list) result" where
  "set_fields mk [] = Inr []"
| "set_fields mk (f # fs) =
     (if \<not> f_CanSet f then bind_result (set_fields mk fs) (\<lambda>fs. Inr (f # fs))
      else if \<not> f_IsFunc f then Inl ZeroValue
      else bind_result (set_fields mk fs) (\<lambda>fs. Inr (f\<lparr>f_value := Some (mk (f_Name f) (f_zero f))\<rparr> # fs)))"

definition setFuncField ::
  "'v go_service \<Rightarrow> proxy \<Rightarrow> 'v Serializer \<Rightarrow> Compression \<Rightarrow> ((bytes \<Rightarrow> bytes option) \<Rightarrow> (bytes \<times> bytes) list) \<Rightarrow>
     (rpc_panic, (rpc_error, 'v go_service) result) result" where
  "setFuncField service p s c ord =
     (case service of
        NilService \<Rightarrow> Inr (Inl (Text err_nil_service))
      | OtherKind \<Rightarrow> Inr (Inl (Text err_not_pointer))
      | StructPointer svc flds \<Rightarrow>
          bind_result
            (set_fields (\<lambda>meth zero ctx arg. call_stub s c p svc meth zero (ord (call_meta ctx)) ctx arg) flds)
            (\<lambda>flds. Inr (Inr (StructPointer svc flds))))"

subsection \<open>The client\<close>

record 'v Client =
  cl_serializer :: "'v Serializer"
  cl_compression :: Compression

definition ClientWithSerializer :: "'v Serializer \<Rightarrow> 'v Client \<Rightarrow> 'v Client" where
  "ClientWithSerializer sl client = client\<lparr>cl_serializer := sl\<rparr>"

definition ClientWithCompressor :: "Compression \<Rightarrow> 'v Client \<Rightarrow> 'v Client" where
  "ClientWithCompressor cc client = client\<lparr>cl_compression := cc\<rparr>"

text \<open>\<open>pool\<close> is the error of the pool's construction, when it fails.\<close>

definition NewClient ::
  "rpc_error option \<Rightarrow> 'v Serializer \<Rightarrow> Compression \<Rightarrow> ('v Client \<Rightarrow> 'v Client) list \<Rightarrow>
     (rpc_error, 'v Client) result" where
  "NewClient pool json zstd opts =
     (case pool of
        Some err \<Rightarrow> Inl err
      | None \<Rightarrow> Inr (fold (\<lambda>opt res. opt res) opts \<lparr>cl_serializer = json, cl_compression = zstd\<rparr>))"

definition InitService ::
  "'v Client \<Rightarrow> proxy \<Rightarrow> ((bytes \<Rightarrow> bytes option) \<Rightarrow> (bytes \<times> bytes) list) \<Rightarrow> 'v go_service \<Rightarrow>
     (rpc_panic, (rpc_error, 'v go_service) result) result" where
  "InitService c p ord service = setFuncField service p (cl_serializer c) (cl_compression c) ord"

subsection \<open>A connection to a server\<close>

text \<open>
  The peer of the client's connection is a server that handles one message: it answers with what
  \<open>handleConn\<close> writes for it.
\<close>

definition accepted :: "bytes \<Rightarrow> conn_state" where
  "accepted bs =
     \<lparr>conn = \<lparr>inbound = segments bs, outbound = [], remote = (\<lambda>_. []), broken = False\<rparr>, spawned = []\<rparr>"

definition connected :: "'v Server \<Rightarrow> net_conn" where
  "connected s = \<lparr>inbound = [], outbound = [],
     remote = (\<lambda>bs. outbound (conn (snd (handleRound s (accepted bs))))), broken = False\<rparr>"

text \<open>The context a method sees: the caller's deadline in whole milliseconds.\<close>

definition server_ctx :: "rpc_ctx \<Rightarrow> rpc_ctx" where
  "server_ctx ctx =
     \<lparr>ctx_deadline = map_option (\<lambda>t. of_UnixMilli (UnixMilli t)) (ctx_deadline ctx), ctx_oneway = None\<rparr>"

text \<open>A value the serializer and the compression carry, into a zero value of its type.\<close>

definition carries :: "'v Serializer \<Rightarrow> Compression \<Rightarrow> 'v \<Rightarrow> 'v \<Rightarrow> bytes \<Rightarrow> bool" where
  "carries sl cc zero v packed \<longleftrightarrow>
     (\<exists>data. sl_Encode sl v = Inr data \<and> fst (cc_Compress cc data) = packed \<and> packed \<noteq> [] \<and>
        cc_Decompress cc packed = Inr data \<and> sl_Decode sl data zero = (v, None))"

definition deadline_ok :: "rpc_ctx \<Rightarrow> bool" where
  "deadline_ok ctx \<longleftrightarrow> (\<forall>t. ctx_deadline ctx = Some t \<longrightarrow> int64_range (UnixMilli t))"

lemma not_oneway_meta: "\<not> isOneway ctx \<Longrightarrow> call_meta ctx =
    (case ctx_deadline ctx of None \<Rightarrow> Map.empty | Some t \<Rightarrow> [of_str ''deadline'' \<mapsto> FormatInt (UnixMilli t)])"
  by (simp add: call_meta_def Let_def)

lemma call_meta_ok: "meta_ok (call_meta ctx)"
proof -
  have "creturn \<notin> set (of_str ''deadline'')" "newline \<notin> set (of_str ''deadline'')"
    "creturn \<notin> set (of_str ''one-way'')" "newline \<notin> set (of_str ''one-way'')" "newline \<notin> set (of_str ''true'')"
    by (simp_all add: of_str_def)
  then show ?thesis
    using FormatInt_no_newline
    by (auto simp: meta_ok_def call_meta_def Let_def split: option.splits)
qed

lemma request_ctx_call:
  assumes "\<not> isOneway ctx" and "deadline_ok ctx" and "Meta req = call_meta ctx"
  shows "request_ctx req = server_ctx ctx" and "\<not> isOneway (request_ctx req)"
proof -
  have "of_str ''one-way'' \<noteq> of_str ''deadline''" by (simp add: of_str_def)
  then show "request_ctx req = server_ctx ctx"
    using assms ParseInt_FormatInt
    by (auto simp: request_ctx_def server_ctx_def not_oneway_meta deadline_ok_def Background_def
          WithDeadline_def Let_def split: option.splits)
  then show "\<not> isOneway (request_ctx req)" by (simp add: server_ctx_def isOneway_def)
qed

subsection \<open>The remote call\<close>

text \<open>
  The situation of a call: the service and its method are registered under the names the client
  uses, the server knows the client's serializer and compression, the argument is carried, and the
  names hold no separator.
\<close>

definition callable ::
  "'v Server \<Rightarrow> 'v Serializer \<Rightarrow> Compression \<Rightarrow> bytes \<Rightarrow> bytes \<Rightarrow> 'v Method \<Rightarrow> bool" where
  "callable s sl cc svc meth m \<longleftrightarrow>
     (\<exists>service. services s svc = Some service \<and> svc_methods service meth = Some m) \<and>
     meth \<noteq> of_str ''Name'' \<and> newline \<notin> set svc \<and> newline \<notin> set meth \<and>
     serializers s (sl_Code sl) = Some sl \<and> compressions s (cc_Code cc) = Some cc"

definition request_size :: "bytes \<Rightarrow> bytes \<Rightarrow> (bytes \<times> bytes) list \<Rightarrow> bytes \<Rightarrow> nat" where
  "request_size svc meth kvs packed = 17 + length svc + length meth + meta_size kvs + length packed"

lemma call_request_good:
  assumes "iter_of (call_meta ctx) kvs" and "iter_of (call_meta ctx) kvs'"
    and "newline \<notin> set svc" and "newline \<notin> set meth"
    and "request_size svc meth kvs' (fst (cc_Compress cc reqData)) < 2 ^ 32"
  shows "good_req (\<lambda>_. kvs) (call_request sl cc svc meth kvs' ctx reqData)"
  unfolding call_request_def
  using assms call_meta_ok
  by (intro good_req_calculated) (simp_all add: carried_def header_size_def request_size_def)

text \<open>One request on a fresh connection, answered by the server.\<close>

lemma doInvoke_connected:
  assumes "good_req (\<lambda>_. kvs) req" and "answerable s req" and "reply s req = Inr r" and "\<not> isOneway ctx"
  shows "doInvoke kvs (Some (connected s)) ctx req = Inr (Inr r)"
proof -
  obtain bs where bs: "EncodeReq kvs req = Inr bs"
    using req_codec.enc_frame [OF assms(1)] by auto
  have "bs \<noteq> []"
    using req_codec.enc_framed [OF assms(1) bs] by (auto simp: framed_def)
  then have inb: "inbound (conn (accepted bs)) = (bs @ []) # []"
    by (simp add: accepted_def segments_def)
  obtain out where out: "EncodeResp r = Inr out" "DecodeResp out = Inr r" "framed out"
    using assms(2,3) by (auto elim!: reply_encoded)
  have "handleRound s (accepted bs) = (Answered, (accepted bs)\<lparr>conn := (conn (accepted bs))
      \<lparr>inbound := [], outbound := [out]\<rparr>\<rparr>)"
    using handleRound_request [OF inb assms(1) bs assms(3) out(1)]
    by (simp add: accepted_def segments_def)
  then have "remote (connected s) bs = [out]"
    by (simp add: connected_def)
  then have "fst (send (Some (connected s)) ctx bs) = Inr (out, None)"
    using assms(4) ReadMsg_frame [OF out(3), of "[]" "[]"]
    by (simp add: send_def Write_def connected_def)
  then show ?thesis
    by (simp add: doInvoke_def bs out(2))
qed

lemma call_prepared:
  assumes "callable s sl cc svc meth m" and "carries sl cc (in_zero m) arg packed" and "sl_Encode sl arg = Inr reqData"
  shows "prepared s (call_request sl cc svc meth kvs ctx reqData) sl cc m arg"
  using assms
  by (auto simp: prepared_def callable_def carries_def call_request_def CalculateBodyLength_def
        CalculateHeaderLength_def)

text \<open>
  Claim C11: a remote call is the local call. When the client's serializer and compression carry the
  argument and the result, the server has the service and knows both codes, and everything fits in a
  frame, then calling the function \<open>setFuncField\<close> installs gives the result and the error that the
  method gives on the caller's argument, with the caller's deadline in whole milliseconds. The error
  is the same text, unless it is empty: an error with an empty text is no error on the client's side.
\<close>

theorem remote_call:
  assumes "callable s sl cc svc meth m"
    and "carries sl cc (in_zero m) arg packed" and "carries sl cc zero res out"
    and "call m (server_ctx ctx) arg = (Some res, err)"
    and "\<not> isOneway ctx" and "deadline_ok ctx"
    and "iter_of (call_meta ctx) kvs" and "iter_of (call_meta ctx) kvs'"
    and "request_size svc meth kvs' packed < 2 ^ 32" and "15 + length (error_text err) + length out < 2 ^ 32"
  shows "call_stub sl cc (doInvoke kvs (Some (connected s))) svc meth zero kvs' ctx arg =
    Inr (res, if error_text err = [] then None else Some (Text (error_text err)))"
proof -
  obtain reqData where enc: "sl_Encode sl arg = Inr reqData" and packed: "fst (cc_Compress cc reqData) = packed"
    using assms(2) by (auto simp: carries_def)
  obtain data where res: "sl_Encode sl res = Inr data" "fst (cc_Compress cc data) = out"
    "out \<noteq> []" "cc_Decompress cc out = Inr data" "sl_Decode sl data zero = (res, None)"
    using assms(3) by (auto simp: carries_def)
  let ?req = "call_request sl cc svc meth kvs' ctx reqData"
  have good: "good_req (\<lambda>_. kvs) ?req"
    using assms(1,7,8,9) packed by (intro call_request_good) (auto simp: callable_def)
  have "Meta ?req = call_meta ctx"
    by (simp add: call_request_def CalculateBodyLength_def CalculateHeaderLength_def)
  note rctx = request_ctx_call [OF assms(5,6) this]
  have reply: "reply s ?req = Inr (finished ?req (error_text err) out)"
    using reply_prepared [OF call_prepared [OF assms(1,2) enc] rctx(2) assms(4) [folded rctx(1)] res(1)]
      res(2) by simp
  then have "answerable s ?req"
    using assms(10)
    by (simp add: answerable_def finished_def CalculateBodyLength_def CalculateHeaderLengthResp_def)
  from doInvoke_connected [OF good this reply assms(5)]
  show ?thesis
    using res(3,4,5) enc
    by (auto simp: call_stub_def finished_def CalculateBodyLength_def CalculateHeaderLengthResp_def Let_def)
qed

text \<open>
  A one-way call gives the caller the documented error and leaves its result zero, without
  waiting for the server, and the request is sent.
\<close>

theorem oneway_call:
  assumes "sl_Encode sl arg = Inr reqData" and "isOneway ctx" and "\<not> broken nc"
    and "good_req (\<lambda>_. kvs) (call_request sl cc svc meth kvs' ctx reqData)"
  shows "call_stub sl cc (doInvoke kvs (Some nc)) svc meth zero kvs' ctx arg =
      Inr (zero, Some (Text err_oneway_result)) \<and>
    (\<exists>bs nc'. EncodeReq kvs (call_request sl cc svc meth kvs' ctx reqData) = Inr bs \<and>
       snd (send (Some nc) ctx bs) = Some nc' \<and> outbound nc' = outbound nc @ [bs])"
proof -
  obtain bs where "EncodeReq kvs (call_request sl cc svc meth kvs' ctx reqData) = Inr bs"
    using req_codec.enc_frame [OF assms(4)] by auto
  then show ?thesis
    using assms(1,2,3) by (simp add: call_stub_def doInvoke_def send_def Write_def)
qed

lemma set_fields_eq:
  "set_fields mk fs =
     (if \<exists>f \<in> set fs. f_CanSet f \<and> \<not> f_IsFunc f then Inl ZeroValue
      else Inr (map (\<lambda>f. if f_CanSet f then f\<lparr>f_value := Some (mk (f_Name f) (f_zero f))\<rparr> else f) fs))"
  by (induction fs) auto

text \<open>
  \<open>InitService\<close> installs in every settable field the remote call of the method of that name,
  with the client's serializer and compression, and leaves the other fields as they are; a settable
  field that is no function makes it panic.
\<close>

theorem InitService_fields:
  "InitService c p ord (StructPointer svc fs) =
     (if \<exists>f \<in> set fs. f_CanSet f \<and> \<not> f_IsFunc f then Inl ZeroValue
      else Inr (Inr (StructPointer svc (map (\<lambda>f.
        if f_CanSet f
        then f\<lparr>f_value := Some (\<lambda>ctx arg. call_stub (cl_serializer c) (cl_compression c) p svc (f_Name f)
               (f_zero f) (ord (call_meta ctx)) ctx arg)\<rparr>
        else f) fs))))"
  by (simp add: InitService_def setFuncField_def set_fields_eq)

subsection \<open>A concrete call\<close>

theorem remote_call_witness:
  "call_stub plain_serializer tagging (doInvoke [] (Some (connected echo_server))) [117, 115] [71] [] []
     Background [1, 2] = Inr ([1, 2], None)"
proof -
  have "call_stub plain_serializer tagging (doInvoke [] (Some (connected echo_server))) [117, 115] [71] [] []
      Background [1, 2] =
    Inr ([1, 2], if error_text None = [] then None else Some (Text (error_text None)))"
  proof (rule remote_call)
    show "callable echo_server plain_serializer tagging [117, 115] [71] echo"
      by (auto simp: callable_def echo_defs of_str_def)
    show "carries plain_serializer tagging (in_zero echo) [1, 2] [0, 1, 2]"
      "carries plain_serializer tagging [] [1, 2] [0, 1, 2]"
      by (simp_all add: carries_def echo_defs)
    show "call echo (server_ctx Background) [1, 2] = (Some [1, 2], None)"
      by (simp add: echo_def)
  qed (simp_all add: isOneway_def Background_def deadline_ok_def iter_of_def call_meta_def Let_def
      request_size_def meta_size_def error_text_def)
  then show ?thesis by (simp add: error_text_def)
qed

end
