(* ===== verification/Rpc_Invoke.thy ===== *)
theory Rpc_Invoke
  imports Rpc_Client
begin

text \<open>
  \<open>Client.Invoke\<close> of \<open>rpc/client.go\<close> as a step relation: the goroutine that runs \<open>doInvoke\<close> and then
  sends on the unbuffered channel \<open>ch\<close>, and the caller that waits for the context or for \<open>ch\<close> and
  closes \<open>ch\<close> when it returns.

  The relation has two parameters. \<open>ends\<close> says whether the context may end: \<open>Background\<close> never does. \<open>d\<close> is
  what becomes of \<open>doInvoke\<close>: \<open>Some (Inr r)\<close> when it returns \<open>r\<close>; \<open>Some (Inl p)\<close> when it panics, as
  \<open>EncodeReq\<close>, \<open>ReadMsg\<close> and \<open>DecodeResp\<close> may; \<open>None\<close> when it never returns, since the client reads without a
  deadline and a server may stay silent.
\<close>

datatype worker = NotStarted | Running | Sending | Sent | Crashed

datatype 'r outcome = Got "'r option" | CtxError

datatype 'r caller = Selecting | Closing "'r outcome" | Finished "'r outcome"

text \<open>\<open>iv_resp\<close> is the pair of variables \<open>resp, err\<close> the goroutine assigns, once it has.\<close>

record 'r invoke_state =
  ctx_done :: bool
  iv_worker :: worker
  iv_resp :: "'r option"
  iv_caller :: "'r caller"
  ch_closed :: bool

text \<open>\<open>if ctx.Err() != nil\<close> returns before the channel is made.\<close>

definition invoke_init :: "bool \<Rightarrow> 'r invoke_state" where
  "invoke_init done =
     (if done
      then \<lparr>ctx_done = True, iv_worker = NotStarted, iv_resp = None, iv_caller = Finished CtxError,
            ch_closed = False\<rparr>
      else \<lparr>ctx_done = False, iv_worker = Running, iv_resp = None, iv_caller = Selecting,
            ch_closed = False\<rparr>)"

text \<open>
  The steps: the context ends; \<open>doInvoke\<close> returns and its results are assigned, or it panics, which ends
  the process; the send and the receive meet; the caller sees the context's end; the deferred
  \<open>close(ch)\<close>; and the send on a closed channel, which panics too.
\<close>

inductive invoke_step ::
  "bool \<Rightarrow> (rpc_panic, 'r) result option \<Rightarrow> 'r invoke_state \<Rightarrow> 'r invoke_state \<Rightarrow> bool" for ends d where
  expire: "ends \<Longrightarrow> \<not> ctx_done s \<Longrightarrow> iv_worker s \<noteq> Crashed \<Longrightarrow> invoke_step ends d s (s\<lparr>ctx_done := True\<rparr>)"
| doInvoke_returns: "d = Some (Inr r) \<Longrightarrow> iv_worker s = Running \<Longrightarrow>
    invoke_step ends d s (s\<lparr>iv_worker := Sending, iv_resp := Some r\<rparr>)"
| doInvoke_panics: "d = Some (Inl p) \<Longrightarrow> iv_worker s = Running \<Longrightarrow>
    invoke_step ends d s (s\<lparr>iv_worker := Crashed\<rparr>)"
| rendezvous: "iv_worker s = Sending \<Longrightarrow> iv_caller s = Selecting \<Longrightarrow>
    invoke_step ends d s (s\<lparr>iv_worker := Sent, iv_caller := Closing (Got (iv_resp s))\<rparr>)"
| cancelled: "iv_caller s = Selecting \<Longrightarrow> ctx_done s \<Longrightarrow> iv_worker s \<noteq> Crashed \<Longrightarrow>
    invoke_step ends d s (s\<lparr>iv_caller := Closing CtxError\<rparr>)"
| close: "iv_caller s = Closing x \<Longrightarrow> iv_worker s \<noteq> Crashed \<Longrightarrow>
    invoke_step ends d s (s\<lparr>iv_caller := Finished x, ch_closed := True\<rparr>)"
| send_on_closed: "iv_worker s = Sending \<Longrightarrow> ch_closed s \<Longrightarrow>
    invoke_step ends d s (s\<lparr>iv_worker := Crashed\<rparr>)"

code_pred (modes: i \<Rightarrow> i \<Rightarrow> i \<Rightarrow> o \<Rightarrow> bool) invoke_step .

inductive_cases invoke_stepE: "invoke_step ends d s t"

definition invoke_reach :: "bool \<Rightarrow> (rpc_panic, 'r) result option \<Rightarrow> bool \<Rightarrow> 'r invoke_state \<Rightarrow> bool" where
  "invoke_reach ends d done s \<longleftrightarrow> (invoke_step ends d)\<^sup>*\<^sup>* (invoke_init done) s"

subsection \<open>The invariant\<close>

fun worker_ok :: "(rpc_panic, 'r) result option \<Rightarrow> 'r invoke_state \<Rightarrow> bool" where
  "worker_ok d s \<longleftrightarrow>
     (case iv_worker s of
        NotStarted \<Rightarrow> iv_caller s = Finished CtxError \<and> ctx_done s
      | Running \<Rightarrow> iv_resp s = None \<and> iv_caller s \<in> {Selecting, Closing CtxError, Finished CtxError}
      | Sending \<Rightarrow> (\<exists>r. d = Some (Inr r) \<and> iv_resp s = Some r) \<and>
          iv_caller s \<in> {Selecting, Closing CtxError, Finished CtxError}
      | Sent \<Rightarrow> (\<exists>r. d = Some (Inr r) \<and> iv_caller s \<in> {Closing (Got (Some r)), Finished (Got (Some r))})
      | Crashed \<Rightarrow> d \<noteq> None \<and> iv_caller s = Finished CtxError \<or>
          (\<exists>p. d = Some (Inl p)) \<and> iv_caller s \<in> {Selecting, Closing CtxError})"

definition invoke_inv :: "bool \<Rightarrow> (rpc_panic, 'r) result option \<Rightarrow> 'r invoke_state \<Rightarrow> bool" where
  "invoke_inv ends d s \<longleftrightarrow> worker_ok d s \<and>
     (iv_caller s \<in> {Closing CtxError, Finished CtxError} \<longrightarrow> ctx_done s) \<and>
     (iv_worker s \<noteq> NotStarted \<longrightarrow> (ch_closed s \<longleftrightarrow> (\<exists>x. iv_caller s = Finished x)) \<and> (ctx_done s \<longrightarrow> ends))"

lemma invoke_inv_init: "invoke_inv ends d (invoke_init done)"
  by (simp add: invoke_inv_def invoke_init_def)

lemma invoke_inv_step: "invoke_step ends d s t \<Longrightarrow> invoke_inv ends d s \<Longrightarrow> invoke_inv ends d t"
  by (erule invoke_stepE) (auto simp: invoke_inv_def split: worker.splits)

lemma invoke_inv_reach:
  assumes "invoke_reach ends d done s"
  shows "invoke_inv ends d s"
  using assms unfolding invoke_reach_def
  by (induction rule: rtranclp_induct) (auto intro: invoke_inv_init invoke_inv_step)

text \<open>Every step uses up one of the few things that can still happen.\<close>

definition invoke_measure :: "'r invoke_state \<Rightarrow> nat" where
  "invoke_measure s =
     (if ctx_done s then 0 else 1) +
     (case iv_worker s of Running \<Rightarrow> 2 | Sending \<Rightarrow> 1 | _ \<Rightarrow> 0) +
     (case iv_caller s of Selecting \<Rightarrow> 2 | Closing _ \<Rightarrow> 1 | Finished _ \<Rightarrow> 0)"

lemma invoke_step_decreases: "invoke_step ends d s t \<Longrightarrow> invoke_measure t < invoke_measure s"
  by (erule invoke_stepE) (auto simp: invoke_measure_def split: worker.splits)

definition stuck :: "bool \<Rightarrow> (rpc_panic, 'r) result option \<Rightarrow> 'r invoke_state \<Rightarrow> bool" where
  "stuck ends d s \<longleftrightarrow> (\<forall>t. \<not> invoke_step ends d s t)"

lemma can_step:
  "iv_worker s = Running \<Longrightarrow> d = Some x \<Longrightarrow> \<exists>t. invoke_step ends d s t"
  "iv_worker s = Sending \<Longrightarrow> iv_caller s = Selecting \<Longrightarrow> \<exists>t. invoke_step ends d s t"
  "iv_worker s = Sending \<Longrightarrow> ch_closed s \<Longrightarrow> \<exists>t. invoke_step ends d s t"
  "iv_worker s \<noteq> Crashed \<Longrightarrow> iv_caller s = Closing y \<Longrightarrow> \<exists>t. invoke_step ends d s t"
  "iv_worker s \<noteq> Crashed \<Longrightarrow> iv_caller s = Selecting \<Longrightarrow> ctx_done s \<Longrightarrow> \<exists>t. invoke_step ends d s t"
  "iv_worker s \<noteq> Crashed \<Longrightarrow> ends \<Longrightarrow> \<not> ctx_done s \<Longrightarrow> \<exists>t. invoke_step ends d s t"
  by (cases x) (blast intro: invoke_step.intros)+

text \<open>Where no step is left: crashed, done, or waiting for a \<open>doInvoke\<close> that never returns.\<close>

lemma stuck_cases:
  assumes "stuck ends d s" and "invoke_inv ends d s"
  shows "iv_worker s = Crashed \<or> (\<exists>x. iv_caller s = Finished x) \<and> iv_worker s \<in> {NotStarted, Sent} \<or>
    d = None \<and> iv_worker s = Running \<and> iv_caller s = (if ends then Finished CtxError else Selecting)"
  using assms can_step [where s = s and d = d and ends = ends]
  by (cases "iv_worker s"; cases "iv_caller s"; cases d; cases ends; cases "ctx_done s")
    (auto simp: invoke_inv_def stuck_def)

lemma invoke_steps_measure:
  "(invoke_step ends d ^^ n) s t \<Longrightarrow> n + invoke_measure t \<le> invoke_measure s"
proof (induction n arbitrary: t)
  case 0
  then show ?case by simp
next
  case (Suc n)
  then obtain u where "(invoke_step ends d ^^ n) s u" and "invoke_step ends d u t" by auto
  with Suc.IH [of u] invoke_step_decreases [of ends d u t] show ?case by simp
qed

subsection \<open>Properties\<close>

text \<open>
  Claim C16: what \<open>Invoke\<close> returns is right: the response and error \<open>doInvoke\<close> gave, read after they
  were assigned, or the context's error, and that only when the context has ended.
\<close>

theorem Invoke_outcome:
  assumes "invoke_reach ends d done s" and "iv_caller s = Finished x"
  shows "(\<exists>r. d = Some (Inr r) \<and> x = Got (Some r) \<and> iv_worker s = Sent) \<or> x = CtxError \<and> ctx_done s"
  using invoke_inv_reach [OF assms(1)] assms(2)
  by (auto simp: invoke_inv_def split: worker.splits)

text \<open>
  Claim C17: how a call ends. A run of \<open>Invoke\<close> makes at most five steps. Where no step is left, the process
  has crashed; or the caller has returned and no goroutine is left behind; or \<open>doInvoke\<close> never returns, and
  then its goroutine is left behind for ever, and the caller has returned the context's error if the
  context could end, and otherwise waits for ever.
\<close>

theorem Invoke_ends:
  assumes "(invoke_step ends d ^^ n) (invoke_init done) s"
  shows "n \<le> 5 \<and>
    (stuck ends d s \<longrightarrow> iv_worker s = Crashed \<or>
       (\<exists>x. iv_caller s = Finished x) \<and> iv_worker s \<in> {NotStarted, Sent} \<or>
       d = None \<and> iv_worker s = Running \<and> iv_caller s = (if ends then Finished CtxError else Selecting))"
proof -
  have "invoke_measure (invoke_init done :: 'a invoke_state) \<le> 5"
    by (simp add: invoke_measure_def invoke_init_def)
  moreover have "invoke_inv ends d s"
    using assms by (intro invoke_inv_reach) (auto simp: invoke_reach_def dest: relpowp_imp_rtranclp)
  ultimately show ?thesis
    using invoke_steps_measure [OF assms] stuck_cases [of ends d s] by auto
qed

text \<open>
  Claim C18: a call that is cancelled while it runs crashes the client. The goroutine still sends on the
  channel the caller has closed: once the caller has returned the context's error, every run ends with
  that panic, unless the call was never started or \<open>doInvoke\<close> never returns, whose goroutine then stays.
\<close>

theorem Invoke_cancel_crashes:
  assumes "invoke_reach ends d False s" and "iv_caller s = Finished CtxError" and "stuck ends d s"
  shows "iv_worker s = (if d = None then Running else Crashed)"
proof -
  have "iv_worker s \<noteq> NotStarted"
    using assms(1) unfolding invoke_reach_def
    by (induction rule: rtranclp_induct) (auto simp: invoke_init_def elim: invoke_stepE)
  then show ?thesis
    using stuck_cases [OF assms(3) invoke_inv_reach [OF assms(1)]] invoke_inv_reach [OF assms(1)] assms(2)
    by (auto simp: invoke_inv_def)
qed

subsection \<open>Concrete runs\<close>

lemma step_to: "invoke_step ends d s t \<Longrightarrow> t = u \<Longrightarrow> invoke_step ends d s u"
  by simp

definition iv :: "bool \<Rightarrow> worker \<Rightarrow> nat option \<Rightarrow> nat caller \<Rightarrow> bool \<Rightarrow> nat invoke_state" where
  "iv d w r c b = \<lparr>ctx_done = d, iv_worker = w, iv_resp = r, iv_caller = c, ch_closed = b\<rparr>"

lemma iv_answered:
  "invoke_reach ends (Some (Inr 5)) False (iv False Sent (Some 5) (Finished (Got (Some 5))) True)"
proof -
  let ?step = "invoke_step ends (Some (Inr 5)) :: nat invoke_state \<Rightarrow> _"
  have "?step\<^sup>*\<^sup>* (invoke_init False) (iv False Running None Selecting False)"
    by (simp add: invoke_init_def iv_def)
  also have "?step\<^sup>*\<^sup>* \<dots> (iv False Sending (Some 5) Selecting False)"
    by (rule r_into_rtranclp, rule step_to [OF doInvoke_returns]) (simp_all add: iv_def)
  also have "?step\<^sup>*\<^sup>* \<dots> (iv False Sent (Some 5) (Closing (Got (Some 5))) False)"
    by (rule r_into_rtranclp, rule step_to [OF rendezvous]) (simp_all add: iv_def)
  also have "?step\<^sup>*\<^sup>* \<dots> (iv False Sent (Some 5) (Finished (Got (Some 5))) True)"
    by (rule r_into_rtranclp, rule step_to [OF close]) (simp_all add: iv_def)
  finally show ?thesis unfolding invoke_reach_def .
qed

text \<open>The caller gives up while \<open>doInvoke\<close> runs, whatever becomes of it.\<close>

lemma iv_given_up: "invoke_reach True d False (iv True Running None (Finished CtxError) True)"
proof -
  let ?step = "invoke_step True d :: nat invoke_state \<Rightarrow> _"
  have "?step\<^sup>*\<^sup>* (invoke_init False) (iv False Running None Selecting False)"
    by (simp add: invoke_init_def iv_def)
  also have "?step\<^sup>*\<^sup>* \<dots> (iv True Running None Selecting False)"
    by (rule r_into_rtranclp, rule step_to [OF expire]) (simp_all add: iv_def)
  also have "?step\<^sup>*\<^sup>* \<dots> (iv True Running None (Closing CtxError) False)"
    by (rule r_into_rtranclp, rule step_to [OF cancelled]) (simp_all add: iv_def)
  also have "?step\<^sup>*\<^sup>* \<dots> (iv True Running None (Finished CtxError) True)"
    by (rule r_into_rtranclp, rule step_to [OF close]) (simp_all add: iv_def)
  finally show ?thesis unfolding invoke_reach_def .
qed

lemma iv_cancelled:
  "invoke_reach True (Some (Inr 5)) False (iv True Crashed (Some 5) (Finished CtxError) True)"
proof -
  let ?step = "invoke_step True (Some (Inr 5)) :: nat invoke_state \<Rightarrow> _"
  have "?step\<^sup>*\<^sup>* (invoke_init False) (iv True Running None (Finished CtxError) True)"
    using iv_given_up unfolding invoke_reach_def .
  also have "?step\<^sup>*\<^sup>* \<dots> (iv True Sending (Some 5) (Finished CtxError) True)"
    by (rule r_into_rtranclp, rule step_to [OF doInvoke_returns]) (simp_all add: iv_def)
  also have "?step\<^sup>*\<^sup>* \<dots> (iv True Crashed (Some 5) (Finished CtxError) True)"
    by (rule r_into_rtranclp, rule step_to [OF send_on_closed]) (simp_all add: iv_def)
  finally show ?thesis unfolding invoke_reach_def .
qed

theorem Invoke_outcome_witness:
  "Got (Some 5) = Got (Some (5 :: nat)) \<and> iv_worker (iv False Sent (Some 5) (Finished (Got (Some 5))) True) = Sent"
  using Invoke_outcome [OF iv_answered [of True], of "Got (Some 5)"] by (simp add: iv_def)

theorem Invoke_ends_witness:
  "\<exists>n. (invoke_step True None ^^ n) (invoke_init False) (iv True Running None (Finished CtxError) True) \<and>
     n \<le> 5 \<and> (stuck True None (iv True Running None (Finished CtxError) True) \<longrightarrow>
       iv_caller (iv True Running None (Finished CtxError) True) = Finished CtxError)"
proof -
  obtain n where
    "(invoke_step True None ^^ n) (invoke_init False) (iv True Running None (Finished CtxError) True)"
    using iv_given_up [of None] unfolding invoke_reach_def by (auto dest: rtranclp_imp_relpowp)
  with Invoke_ends [OF this] show ?thesis by (auto simp: iv_def)
qed

theorem Invoke_cancel_crashes_witness:
  "iv_worker (iv True Crashed (Some 5) (Finished CtxError) True) = Crashed \<and>
   iv_worker (iv True Running None (Finished CtxError) True) = Running"
proof -
  have "stuck True (Some (Inr 5)) (iv True Crashed (Some 5) (Finished CtxError) True)"
    and "stuck True None (iv True Running None (Finished CtxError) True)"
    by (auto simp: stuck_def iv_def elim!: invoke_stepE)
  then show ?thesis
    using Invoke_cancel_crashes [OF iv_cancelled] Invoke_cancel_crashes [OF iv_given_up [of None]]
    by (simp add: iv_def)
qed

end
