(* ===== verification/Mem_Cache.thy ===== *)
theory Mem_Cache
  imports Prelude
begin

text \<open>
  \<open>MemoryMapCache\<close> of \<open>homework_memory_limit/memory_cache.go\<close> and the contract of the \<open>Cache\<close> interface
  of \<open>types.go\<close>.

  The cache holds its map, the callback for removed entries and the state the callback works on
  (\<open>env\<close>), and the state of the sweeping goroutine. Every operation runs under the write lock and is a
  function of the state; \<open>Get\<close> reads under the read lock and may then take the write lock, so it is
  modelled in its two parts. \<open>time.Now()\<close> is an argument, in nanoseconds; a zero deadline is \<^const>\<open>None\<close>.
  A nil callback that is called, and a callback that waits for a lock its own caller holds, are
  faults: the first panics, the second never returns.
\<close>

subsection \<open>Entries and state\<close>

record item =
  it_val :: bytes
  it_deadline :: "int option"

definition deadlineBefore :: "item \<Rightarrow> int \<Rightarrow> bool" where
  "deadlineBefore i t = (case it_deadline i of None \<Rightarrow> False | Some d \<Rightarrow> d < t)"

datatype fault = NilCallback | Deadlock

datatype cache_error = errKeyNotFound | KeyNotFound string | DuplicateClose | ListError

type_synonym 'c callback = "string \<Rightarrow> bytes \<Rightarrow> 'c \<Rightarrow> (fault, 'c) result"

datatype sweeper = Waiting | Sweeping | Stopped

record 'c mcache =
  data :: "string \<Rightarrow> item option"
  onEvicted :: "'c callback option"
  env :: 'c
  sweeper :: sweeper

definition NewMemoryMapCache :: "'c \<Rightarrow> ('c mcache \<Rightarrow> 'c mcache) list \<Rightarrow> 'c mcache" where
  "NewMemoryMapCache e opts =
     fold (\<lambda>opt res. opt res) opts \<lparr>data = Map.empty, onEvicted = None, env = e, sweeper = Waiting\<rparr>"

definition WithEvictedCallback :: "'c callback \<Rightarrow> 'c mcache \<Rightarrow> 'c mcache" where
  "WithEvictedCallback fn c = c\<lparr>onEvicted := Some fn\<rparr>"

definition OnEvicted :: "'c callback \<Rightarrow> 'c mcache \<Rightarrow> 'c mcache" where
  "OnEvicted fn c = c\<lparr>onEvicted := Some fn\<rparr>"

subsection \<open>Operations\<close>

definition delete :: "string \<Rightarrow> 'c mcache \<Rightarrow> (fault, 'c mcache) result" where
  "delete key c =
     (case data c key of
        None \<Rightarrow> Inr c
      | Some itm \<Rightarrow>
          (let c = c\<lparr>data := (data c)(key := None)\<rparr> in
           case onEvicted c of
             None \<Rightarrow> Inl NilCallback
           | Some f \<Rightarrow> bind_result (f key (it_val itm) (env c)) (\<lambda>e. Inr (c\<lparr>env := e\<rparr>))))"

definition Set :: "int \<Rightarrow> string \<Rightarrow> bytes \<Rightarrow> int \<Rightarrow> 'c mcache \<Rightarrow> 'c mcache" where
  "Set now key val expiration c =
     c\<lparr>data := (data c)(key \<mapsto> \<lparr>it_val = val,
        it_deadline = (if expiration > 0 then Some (now + expiration) else None)\<rparr>)\<rparr>"

text \<open>The part of \<open>Get\<close> under the read lock, and the part under the write lock.\<close>

datatype get_step = GetDone "(cache_error, bytes) result" | GetExpired

definition get_read :: "int \<Rightarrow> string \<Rightarrow> 'c mcache \<Rightarrow> get_step" where
  "get_read now key c =
     (case data c key of
        None \<Rightarrow> GetDone (Inl (KeyNotFound key))
      | Some res \<Rightarrow> if deadlineBefore res now then GetExpired else GetDone (Inr (it_val res)))"

definition get_expired ::
  "int \<Rightarrow> string \<Rightarrow> 'c mcache \<Rightarrow> (fault, (cache_error, bytes) result \<times> 'c mcache) result" where
  "get_expired now key c =
     (case data c key of
        None \<Rightarrow> Inr (Inl (KeyNotFound key), c)
      | Some res \<Rightarrow>
          if deadlineBefore res now
          then bind_result (delete key c) (\<lambda>c. Inr (Inl (KeyNotFound key), c))
          else Inr (Inr (it_val res), c))"

definition Get :: "int \<Rightarrow> string \<Rightarrow> 'c mcache \<Rightarrow> (fault, (cache_error, bytes) result \<times> 'c mcache) result" where
  "Get now key c =
     (case get_read now key c of GetDone r \<Rightarrow> Inr (r, c) | GetExpired \<Rightarrow> get_expired now key c)"

definition Delete :: "string \<Rightarrow> 'c mcache \<Rightarrow> (fault, 'c mcache) result" where
  "Delete key c = delete key c"

definition LoadAndDelete ::
  "string \<Rightarrow> 'c mcache \<Rightarrow> (fault, (cache_error, bytes) result \<times> 'c mcache) result" where
  "LoadAndDelete key c =
     (case data c key of
        None \<Rightarrow> Inr (Inl errKeyNotFound, c)
      | Some val \<Rightarrow> bind_result (delete key c) (\<lambda>c. Inr (Inr (it_val val), c)))"

text \<open>
  A tick of the sweeper at \<open>t\<close>; \<open>ks\<close> is the order in which the loop ranges over the map. An entry that
  is no longer there when its turn comes is not visited.
\<close>

fun sweep_loop :: "nat \<Rightarrow> int \<Rightarrow> string list \<Rightarrow> 'c mcache \<Rightarrow> (fault, 'c mcache) result" where
  "sweep_loop i t [] c = Inr c"
| "sweep_loop i t (key # ks) c =
     (case data c key of
        None \<Rightarrow> sweep_loop i t ks c
      | Some val \<Rightarrow>
          if i > 10000 then Inr c
          else bind_result (if deadlineBefore val t then delete key c else Inr c) (sweep_loop (i + 1) t ks))"

definition sweep :: "int \<Rightarrow> string list \<Rightarrow> 'c mcache \<Rightarrow> (fault, 'c mcache) result" where
  "sweep t ks c = sweep_loop 0 t ks c"

text \<open>
  \<open>Close\<close> offers a value on the unbuffered channel and does not wait: the offer is taken only when the
  sweeper is waiting in its \<open>select\<close>.
\<close>

definition Close :: "'c mcache \<Rightarrow> cache_error option \<times> 'c mcache" where
  "Close c = (if sweeper c = Waiting then (None, c\<lparr>sweeper := Stopped\<rparr>) else (Some DuplicateClose, c))"

subsection \<open>The contract of the interface\<close>

text \<open>
  What \<open>MaxMemoryCache\<close> may rely on, for whichever cache it embeds: the entries it stores, the
  callback for each entry removed, and the state the callback works on.
\<close>

locale cache_contract =
  fixes get :: "int \<Rightarrow> string \<Rightarrow> 's \<Rightarrow> (fault, (cache_error, bytes) result \<times> 's) result"
    and put :: "int \<Rightarrow> string \<Rightarrow> bytes \<Rightarrow> int \<Rightarrow> 's \<Rightarrow> 's"
    and del :: "string \<Rightarrow> 's \<Rightarrow> (fault, 's) result"
    and entries :: "'s \<Rightarrow> string \<Rightarrow> item option"
    and cb :: "'s \<Rightarrow> 'c callback option"
    and env_of :: "'s \<Rightarrow> 'c"
  assumes get_absent: "entries s k = None \<Longrightarrow> get now k s = Inr (Inl (KeyNotFound k), s)"
    and get_live: "entries s k = Some i \<Longrightarrow> \<not> deadlineBefore i now \<Longrightarrow> get now k s = Inr (Inr (it_val i), s)"
    and get_late: "entries s k = Some i \<Longrightarrow> deadlineBefore i now \<Longrightarrow>
      get now k s = bind_result (del k s) (\<lambda>s. Inr (Inl (KeyNotFound k), s))"
    and entries_set: "entries (put now k v ex s) =
      (entries s)(k \<mapsto> \<lparr>it_val = v, it_deadline = (if ex > 0 then Some (now + ex) else None)\<rparr>)"
    and env_set: "env_of (put now k v ex s) = env_of s" "cb (put now k v ex s) = cb s"
    and del_absent: "entries s k = None \<Longrightarrow> del k s = Inr s"
    and del_present: "entries s k = Some i \<Longrightarrow> cb s = Some f \<Longrightarrow> f k (it_val i) (env_of s) = Inr e \<Longrightarrow>
      \<exists>s'. del k s = Inr s' \<and> entries s' = (entries s)(k := None) \<and> env_of s' = e \<and> cb s' = cb s"
    and del_fault: "entries s k = Some i \<Longrightarrow> cb s = Some f \<Longrightarrow> f k (it_val i) (env_of s) = Inl p \<Longrightarrow>
      del k s = Inl p"
    and del_nil: "entries s k = Some i \<Longrightarrow> cb s = None \<Longrightarrow> del k s = Inl NilCallback"
begin

text \<open>A value that was set is found until its deadline, and then reported absent.\<close>

lemma get_after_set:
  "ex \<le> 0 \<or> later \<le> now + ex \<Longrightarrow> get later k (put now k v ex s) = Inr (Inr v, put now k v ex s)"
  by (subst get_live) (auto simp: entries_set deadlineBefore_def split: if_splits)

lemma get_other:
  "k \<noteq> k' \<Longrightarrow> entries (put now k v ex s) k' = entries s k'"
  by (simp add: entries_set)

text \<open>A callback that never fails makes every removal succeed.\<close>

lemma del_total:
  assumes "cb s = Some f" and "\<And>k v e. \<exists>e'. f k v e = Inr e'"
  shows "\<exists>s'. del k s = Inr s' \<and> entries s' = (entries s)(k := None) \<and> cb s' = cb s"
proof (cases "entries s k")
  case None
  then show ?thesis using del_absent by (metis fun_upd_triv)
next
  case (Some i)
  then show ?thesis using del_present [OF Some assms(1)] assms(2) by blast
qed

end

interpretation mem: cache_contract Get Set Delete data onEvicted env
proof unfold_locales
  fix s :: "'c mcache" and k i f e now
  assume "data s k = Some i" "onEvicted s = Some f" "f k (it_val i) (env s) = Inr e"
  then show "\<exists>s'. Delete k s = Inr s' \<and> data s' = (data s)(k := None) \<and> env s' = e \<and> onEvicted s' = onEvicted s"
    by (simp add: Delete_def delete_def Let_def)
qed (auto simp: Get_def get_read_def get_expired_def Set_def Delete_def delete_def Let_def)

subsection \<open>The abstract cache\<close>

text \<open>What a cache is worth at a time: the values whose deadline has not passed.\<close>

definition live :: "int \<Rightarrow> 'c mcache \<Rightarrow> string \<Rightarrow> bytes option" where
  "live now c k =
     (case data c k of None \<Rightarrow> None | Some i \<Rightarrow> if deadlineBefore i now then None else Some (it_val i))"

definition total_callback :: "'c mcache \<Rightarrow> bool" where
  "total_callback c \<longleftrightarrow> (\<exists>f. onEvicted c = Some f \<and> (\<forall>k v e. \<exists>e'. f k v e = Inr e'))"

lemma deadlineBefore_mono: "deadlineBefore i now \<Longrightarrow> now \<le> t \<Longrightarrow> deadlineBefore i t"
  by (auto simp: deadlineBefore_def split: option.splits)

lemma live_delete:
  assumes "total_callback c"
  shows "\<exists>c'. delete k c = Inr c' \<and> total_callback c' \<and> data c' = (data c)(k := None)"
  using assms mem.del_total [of c _ k] by (fastforce simp: total_callback_def Delete_def)

lemma live_upd_None:
  "data c' = (data c)(k := None) \<Longrightarrow> live t c' = (live t c)(k := None)"
  by (auto simp: live_def)

lemma live_expired:
  assumes "data c k = Some i" and "deadlineBefore i now" and "data c' = (data c)(k := None)" and "now \<le> t"
  shows "live t c' = live t c"
  using assms deadlineBefore_mono by (auto simp: live_def)

lemma get_expired_live:
  assumes "total_callback c"
  shows "\<exists>c'. get_expired now k c =
      Inr ((case live now c k of None \<Rightarrow> Inl (KeyNotFound k) | Some v \<Rightarrow> Inr v), c') \<and>
    total_callback c' \<and> (\<forall>t. now \<le> t \<longrightarrow> live t c' = live t c)"
proof (cases "data c k")
  case None
  then show ?thesis using assms by (simp add: get_expired_def live_def)
next
  case (Some i)
  obtain c' where "delete k c = Inr c'" "total_callback c'" "data c' = (data c)(k := None)"
    using live_delete [OF assms] by blast
  with Some assms live_expired [OF Some] show ?thesis
    by (cases "deadlineBefore i now") (auto simp: get_expired_def live_def)
qed

lemma Get_live:
  assumes "total_callback c"
  shows "\<exists>c'. Get now k c =
      Inr ((case live now c k of None \<Rightarrow> Inl (KeyNotFound k) | Some v \<Rightarrow> Inr v), c') \<and>
    total_callback c' \<and> (\<forall>t. now \<le> t \<longrightarrow> live t c' = live t c)"
proof (cases "get_read now k c")
  case (GetDone r)
  then have "r = (case live now c k of None \<Rightarrow> Inl (KeyNotFound k) | Some v \<Rightarrow> Inr v)"
    by (auto simp: get_read_def live_def split: option.splits if_splits)
  with GetDone assms show ?thesis by (simp add: Get_def)
next
  case GetExpired
  then show ?thesis using get_expired_live [OF assms] by (simp add: Get_def)
qed

subsection \<open>The sweeper\<close>

definition logging :: "(string \<times> bytes) list callback" where
  "logging k v e = Inr (e @ [(k, v)])"

definition expired_in :: "int \<Rightarrow> (string \<Rightarrow> item option) \<Rightarrow> string \<Rightarrow> bool" where
  "expired_in t d k \<longleftrightarrow> (case d k of None \<Rightarrow> False | Some i \<Rightarrow> deadlineBefore i t)"

lemma sweep_loop_log:
  assumes "distinct ks" and "set ks \<subseteq> dom (data c)" and "onEvicted c = Some logging"
  shows "sweep_loop i t ks c = Inr (c
    \<lparr>data := (\<lambda>k. if k \<in> set (take (10001 - i) ks) \<and> expired_in t (data c) k then None else data c k),
     env := env c @ map (\<lambda>k. (k, it_val (the (data c k))))
       (filter (expired_in t (data c)) (take (10001 - i) ks))\<rparr>)"
  using assms
proof (induction ks arbitrary: i c)
  case Nil
  then show ?case by simp
next
  case (Cons key ks)
  from Cons.prems obtain v where v: "data c key = Some v" by auto
  show ?case
  proof (cases "i > 10000")
    case True
    then show ?thesis by (simp add: v)
  next
    case False
    then have n: "10001 - i = Suc (10001 - (i + 1))" by simp
    define c1 where "c1 = (if deadlineBefore v t
      then c\<lparr>data := (data c)(key := None), env := env c @ [(key, it_val v)]\<rparr> else c)"
    have step: "sweep_loop i t (key # ks) c = sweep_loop (i + 1) t ks c1"
      using False Cons.prems(3) by (simp add: v c1_def delete_def logging_def)
    have key: "key \<notin> set ks" using Cons.prems(1) by simp
    have "set ks \<subseteq> dom (data c1)" "onEvicted c1 = Some logging"
      using Cons.prems key by (auto simp: c1_def)
    note IH = Cons.IH [OF _ this, of "i + 1"]
    have same: "\<And>k. k \<in> set ks \<Longrightarrow> data c1 k = data c k"
      using key by (auto simp: c1_def)
    have eq: "filter (expired_in t (data c1)) (take n ks) = filter (expired_in t (data c)) (take n ks)"
      "map (\<lambda>k. (k, it_val (the (data c1 k)))) (filter P (take n ks)) =
       map (\<lambda>k. (k, it_val (the (data c k)))) (filter P (take n ks))" for n P
      using same by (auto intro!: filter_cong dest!: in_set_takeD simp: expired_in_def)
    have other: "k \<noteq> key \<Longrightarrow> data c1 k = data c k \<and> expired_in t (data c1) k = expired_in t (data c) k" for k
      by (simp add: c1_def expired_in_def)
    have here: "data c1 key = (if expired_in t (data c) key then None else data c key)"
      by (simp add: c1_def expired_in_def v)
    have data: "(\<lambda>k. if k \<in> set (take n ks) \<and> expired_in t (data c1) k then None else data c1 k) =
      (\<lambda>k. if k \<in> set (take (Suc n) (key # ks)) \<and> expired_in t (data c) k then None else data c k)" for n
    proof
      fix k
      show "(if k \<in> set (take n ks) \<and> expired_in t (data c1) k then None else data c1 k) =
        (if k \<in> set (take (Suc n) (key # ks)) \<and> expired_in t (data c) k then None else data c k)"
        using other [of k] here key in_set_takeD [of key n ks] by (cases "k = key") auto
    qed
    have env: "env c1 @ map (\<lambda>k. (k, it_val (the (data c1 k)))) (filter (expired_in t (data c1)) (take n ks)) =
      env c @ map (\<lambda>k. (k, it_val (the (data c k)))) (filter (expired_in t (data c)) (take (Suc n) (key # ks)))" for n
      unfolding eq by (simp add: c1_def expired_in_def v)
    have "c1\<lparr>data := x, env := y\<rparr> = c\<lparr>data := x, env := y\<rparr>" for x y
      by (simp add: c1_def)
    then show ?thesis
      unfolding step n using IH Cons.prems(1) by (simp add: data env del: take_Suc_Cons)
  qed
qed

subsection \<open>Properties\<close>

text \<open>
  \<open>Get\<close> is a lookup in the values that are alive. With a callback that returns, it gives the
  live value or the not-found error of its key, and it changes no value that is alive now or later:
  the entry it may remove has expired.
\<close>

theorem Get_is_lookup:
  assumes "total_callback c"
  shows "\<exists>c'. Get now k c =
      Inr ((case live now c k of None \<Rightarrow> Inl (KeyNotFound k) | Some v \<Rightarrow> Inr v), c') \<and>
    (\<forall>t. now \<le> t \<longrightarrow> live t c' = live t c)"
  using Get_live [OF assms] by blast

text \<open>
  The race in \<open>Get\<close> is harmless. Whatever the other operations did between its two locks, the
  part under the write lock answers for the entry that is there then: a value set in the meantime is
  returned and kept, an entry that has expired is removed and reported missing.
\<close>

theorem Get_second_check:
  assumes "total_callback c"
  shows "\<exists>c'. get_expired now k c =
      Inr ((case live now c k of None \<Rightarrow> Inl (KeyNotFound k) | Some v \<Rightarrow> Inr v), c') \<and>
    (\<forall>t. now \<le> t \<longrightarrow> live t c' = live t c) \<and> data c' k = (if live now c k = None then None else data c k)"
proof -
  obtain c' where "get_expired now k c =
      Inr ((case live now c k of None \<Rightarrow> Inl (KeyNotFound k) | Some v \<Rightarrow> Inr v), c')"
    and "\<forall>t. now \<le> t \<longrightarrow> live t c' = live t c"
    using get_expired_live [OF assms] by blast
  moreover from this(1) have "data c' k = (if live now c k = None then None else data c k)"
    using live_delete [OF assms, of k]
    by (auto simp: get_expired_def live_def split: option.splits if_splits)
  ultimately show ?thesis by blast
qed

text \<open>
  \<open>Set\<close> stores the value under its key until its deadline, and for ever when the expiration
  is not positive; the other keys, and every lifetime of theirs, are untouched.
\<close>

theorem Set_live:
  "live t (Set now k v ex c) = (live t c)(k := (if ex > 0 \<and> now + ex < t then None else Some v))"
  by (auto simp: live_def Set_def deadlineBefore_def)

text \<open>
  \<open>Delete\<close> and \<open>LoadAndDelete\<close> remove the key at every time, and \<open>LoadAndDelete\<close> gives the value
  that was stored. The deadline is not looked at: a value whose deadline has passed is still handed
  out.
\<close>

theorem delete_removes:
  assumes "total_callback c"
  shows "\<exists>c'. Delete k c = Inr c' \<and>
    LoadAndDelete k c = Inr ((case data c k of None \<Rightarrow> Inl errKeyNotFound | Some i \<Rightarrow> Inr (it_val i)), c') \<and>
    (\<forall>t. live t c' = (live t c)(k := None))"
proof -
  obtain c' where c': "delete k c = Inr c'" "data c' = (data c)(k := None)"
    using live_delete [OF assms] by blast
  moreover have "data c k = None \<Longrightarrow> c' = c"
    using c'(1) by (simp add: delete_def)
  ultimately show ?thesis
    using live_upd_None [OF c'(2)]
    by (auto simp: Delete_def LoadAndDelete_def split: option.splits)
qed

text \<open>
  Claim C20: a tick of the sweeper removes exactly the expired entries among the first 10001 it visits,
  and calls the callback once for each of them, with its value, in the order of the visit.
\<close>

theorem sweep_evicts:
  assumes "distinct ks" and "set ks = dom (data c)" and "onEvicted c = Some logging"
  shows "sweep t ks c = Inr (c
    \<lparr>data := (\<lambda>k. if k \<in> set (take 10001 ks) \<and> expired_in t (data c) k then None else data c k),
     env := env c @ map (\<lambda>k. (k, it_val (the (data c k))))
       (filter (expired_in t (data c)) (take 10001 ks))\<rparr>)"
  using sweep_loop_log [of ks c 0 t] assms by (simp add: sweep_def)

text \<open>
  A cache without a callback panics on its first removal. \<open>NewMemoryMapCache\<close> without the
  option leaves the callback nil, and \<open>delete\<close> calls it unconditionally: deleting a stored key,
  loading and deleting it, and reading it after its deadline all panic.
\<close>

theorem no_callback_panics:
  assumes "onEvicted c = None" and "data c k = Some i"
  shows "Delete k c = Inl NilCallback \<and> LoadAndDelete k c = Inl NilCallback \<and>
    (deadlineBefore i now \<longrightarrow> Get now k c = Inl NilCallback)"
  using assms mem.del_nil [of c k i] mem.get_late [of c k i now]
  by (simp add: LoadAndDelete_def Delete_def)

text \<open>
  \<open>Close\<close> stops the sweeper when it is waiting for its ticker, and no second call succeeds.
  While the sweeper is busy with a tick even the first call fails, reports a repeated close, and
  leaves the sweeper running.
\<close>

theorem Close_once:
  "(fst (Close c) = None \<longleftrightarrow> sweeper c = Waiting) \<and>
   (sweeper (snd (Close c)) = Stopped \<longleftrightarrow> sweeper c \<noteq> Sweeping) \<and>
   fst (Close (snd (Close c))) = Some DuplicateClose"
  by (cases "sweeper c") (auto simp: Close_def)

subsection \<open>A concrete cache\<close>

definition two_items :: "(string \<times> bytes) list mcache" where
  "two_items = \<lparr>data = [''a'' \<mapsto> \<lparr>it_val = [1], it_deadline = Some 10\<rparr>, ''b'' \<mapsto> \<lparr>it_val = [2], it_deadline = None\<rparr>],
     onEvicted = Some logging, env = [], sweeper = Waiting\<rparr>"

lemma two_items_total: "total_callback two_items"
  by (simp add: total_callback_def two_items_def logging_def)

theorem Get_is_lookup_witness:
  "\<exists>c'. Get 11 ''a'' two_items = Inr (Inl (KeyNotFound ''a''), c') \<and> live 11 c' = live 11 two_items"
  using Get_is_lookup [OF two_items_total, of 11 "''a''"]
  by (auto simp: live_def two_items_def deadlineBefore_def)

theorem Get_second_check_witness:
  "\<exists>c'. get_expired 11 ''b'' two_items = Inr (Inr [2], c') \<and> data c' ''b'' = data two_items ''b''"
  using Get_second_check [OF two_items_total, of 11 "''b''"]
  by (auto simp: live_def two_items_def deadlineBefore_def)

theorem delete_removes_witness:
  "\<exists>c'. Delete ''a'' two_items = Inr c' \<and> LoadAndDelete ''a'' two_items = Inr (Inr [1], c')"
  using delete_removes [OF two_items_total, of "''a''"] by (auto simp: two_items_def)

theorem sweep_evicts_witness:
  "\<exists>c'. sweep 11 [''b'', ''a''] two_items = Inr c' \<and> data c' ''a'' = None \<and> env c' = [(''a'', [1])]"
proof -
  have "sweep 11 [''b'', ''a''] two_items = Inr (two_items
    \<lparr>data := (\<lambda>k. if k \<in> set (take 10001 [''b'', ''a'']) \<and> expired_in 11 (data two_items) k then None else data two_items k),
     env := env two_items @ map (\<lambda>k. (k, it_val (the (data two_items k))))
       (filter (expired_in 11 (data two_items)) (take 10001 [''b'', ''a'']))\<rparr>)"
    by (rule sweep_evicts) (auto simp: two_items_def)
  then show ?thesis by (simp add: two_items_def expired_in_def deadlineBefore_def)
qed

theorem no_callback_panics_witness:
  "Delete ''a'' (Set 0 ''a'' [1] 5 (NewMemoryMapCache () [])) = Inl NilCallback \<and>
   Get 6 ''a'' (Set 0 ''a'' [1] 5 (NewMemoryMapCache () [])) = Inl NilCallback"
  using no_callback_panics [of "Set 0 ''a'' [1] 5 (NewMemoryMapCache () [])" "''a''" "\<lparr>it_val = [1], it_deadline = Some 5\<rparr>" 6]
  by (simp add: Set_def NewMemoryMapCache_def deadlineBefore_def)

end
