(* ===== verification/Max_Cache.thy ===== *)
theory Max_Cache
  imports Mem_Cache
begin

text \<open>
  \<open>MaxMemoryCache\<close> of \<open>homework_memory_limit/max_memory_cache.go\<close>: a cache with a bound on the size of
  its values, on top of \<open>MemoryMapCache\<close>. Its own fields are the state the callback of the embedded
  cache works on, so a \<open>MaxMemoryCache\<close> is an \<^typ>\<open>'c mcache\<close> whose \<open>env\<close> is a \<open>max_state\<close>.

  The list of the keys is \<open>list.LinkedList\<close> of \<open>ekit\<close>, library code: its operations are an argument,
  and \<open>list_ops_ok\<close> says what its documentation promises of them. \<open>lock\<close> is true while the mutex is
  held; locking it again in the same call waits for ever. The calls of one operation see the same
  time. Sizes are integers: no sum of lengths of values in memory reaches 63 bits.
\<close>

subsection \<open>The list of keys\<close>

record 'l list_ops =
  l_new :: 'l
  l_len :: "'l \<Rightarrow> nat"
  l_get :: "nat \<Rightarrow> 'l \<Rightarrow> string option"
  l_delete :: "nat \<Rightarrow> 'l \<Rightarrow> 'l option"
  l_add :: "nat \<Rightarrow> string \<Rightarrow> 'l \<Rightarrow> 'l option"

definition list_ops_ok :: "'l list_ops \<Rightarrow> ('l \<Rightarrow> string list) \<Rightarrow> bool" where
  "list_ops_ok L elems \<longleftrightarrow>
     elems (l_new L) = [] \<and>
     (\<forall>l. l_len L l = length (elems l)) \<and>
     (\<forall>l i. l_get L i l = (if i < length (elems l) then Some (elems l ! i) else None)) \<and>
     (\<forall>l i. i < length (elems l) \<longrightarrow>
        (\<exists>l'. l_delete L i l = Some l' \<and> elems l' = take i (elems l) @ drop (Suc i) (elems l))) \<and>
     (\<forall>l k. \<exists>l'. l_add L 0 k l = Some l' \<and> elems l' = k # elems l)"

text \<open>The zero value of a string is empty.\<close>

definition get_or_empty :: "'l list_ops \<Rightarrow> nat \<Rightarrow> 'l \<Rightarrow> string" where
  "get_or_empty L i l = (case l_get L i l of None \<Rightarrow> [] | Some s \<Rightarrow> s)"

subsection \<open>State and callback\<close>

record 'l max_state =
  max_size :: int
  used :: int
  lock :: bool
  lst :: 'l

type_synonym 'l max_cache = "'l max_state mcache"

text \<open>
  The callback's loop over the list: at most \<open>Len()\<close> rounds, since the list never grows in it. It
  deletes a matching element and goes on behind the next one.
\<close>

fun purge :: "'l list_ops \<Rightarrow> string \<Rightarrow> nat \<Rightarrow> nat \<Rightarrow> 'l \<Rightarrow> 'l" where
  "purge L key 0 i l = l"
| "purge L key (Suc n) i l =
     (if i < l_len L l
      then purge L key n (i + 1)
             (if key = get_or_empty L i l then (case l_delete L i l of None \<Rightarrow> l | Some l' \<Rightarrow> l') else l)
      else l)"

definition evicted :: "'l list_ops \<Rightarrow> 'l max_state callback" where
  "evicted L key val m =
     (if lock m then Inl Deadlock
      else Inr (m\<lparr>used := used m - int (length val), lst := purge L key (l_len L (lst m)) 0 (lst m)\<rparr>))"

definition NewMaxMemoryCache :: "'l list_ops \<Rightarrow> int \<Rightarrow> 'l max_cache \<Rightarrow> 'l max_cache" where
  "NewMaxMemoryCache L limit cache =
     OnEvicted (evicted L) (cache\<lparr>env := \<lparr>max_size = limit, used = 0, lock = False, lst = l_new L\<rparr>\<rparr>)"

subsection \<open>Operations\<close>

fun find_delete :: "'l list_ops \<Rightarrow> string \<Rightarrow> nat \<Rightarrow> nat \<Rightarrow> 'l \<Rightarrow> 'l option" where
  "find_delete L key 0 i l = Some l"
| "find_delete L key (Suc n) i l =
     (if i < l_len L l
      then if key = get_or_empty L i l then l_delete L i l else find_delete L key n (i + 1) l
      else Some l)"

definition listMoveToHead :: "'l list_ops \<Rightarrow> 'l \<Rightarrow> string \<Rightarrow> 'l option" where
  "listMoveToHead L l key =
     (case find_delete L key (l_len L l) 0 l of None \<Rightarrow> None | Some l \<Rightarrow> l_add L 0 key l)"

abbreviation upd_env :: "('l max_state \<Rightarrow> 'l max_state) \<Rightarrow> 'l max_cache \<Rightarrow> 'l max_cache" where
  "upd_env f c \<equiv> c\<lparr>env := f (env c)\<rparr>"

definition set_lock :: "bool \<Rightarrow> 'l max_cache \<Rightarrow> 'l max_cache" where
  "set_lock b = upd_env (\<lambda>m. m\<lparr>lock := b\<rparr>)"

text \<open>
  The loop that chooses the keys to delete, from the end of the list to its front: \<open>n\<close> is the number
  of elements left.
\<close>

fun choose_keys :: "'l list_ops \<Rightarrow> int \<Rightarrow> int \<Rightarrow> int \<Rightarrow> nat \<Rightarrow> int \<Rightarrow> string list \<Rightarrow> 'l max_cache \<Rightarrow>
    (fault, (cache_error, string list) result \<times> 'l max_cache) result" where
  "choose_keys L now needSize used0 0 free deleteKey c = Inr (Inr deleteKey, c)"
| "choose_keys L now needSize used0 (Suc i) free deleteKey c =
     (case l_get L i (lst (env c)) of
        None \<Rightarrow> Inr (Inl ListError, c)
      | Some key \<Rightarrow>
          bind_result (Get now key c) (\<lambda>(r, c).
          case r of
            Inl err \<Rightarrow> Inr (Inl err, c)
          | Inr item \<Rightarrow>
              (let free = free + int (length item); deleteKey = deleteKey @ [key] in
               if used0 - free > needSize then Inr (Inr deleteKey, c)
               else choose_keys L now needSize used0 i free deleteKey c)))"

fun delete_all :: "(string \<Rightarrow> 's \<Rightarrow> (fault, 's) result) \<Rightarrow> string list \<Rightarrow> 's \<Rightarrow> (fault, 's) result" where
  "delete_all del [] s = Inr s"
| "delete_all del (k # ks) s = bind_result (del k s) (delete_all del ks)"

text \<open>The part of \<open>Set\<close> that makes room and accounts for the new value.\<close>

definition make_room :: "'l list_ops \<Rightarrow> int \<Rightarrow> int \<Rightarrow> int \<Rightarrow> bytes \<Rightarrow> 'l max_cache \<Rightarrow>
    (fault, (cache_error, unit) result \<times> 'l max_cache) result" where
  "make_room L now needSize used0 item c =
     (if max_size (env c) < needSize + used0
      then bind_result (choose_keys L now needSize used0 (l_len L (lst (env c))) 0 [] c) (\<lambda>(r, c).
           let c = set_lock False c in
           case r of
             Inl err \<Rightarrow> Inr (Inl err, c)
           | Inr deleteKey \<Rightarrow> bind_result (delete_all Delete deleteKey c) (\<lambda>c. Inr (Inr (), c)))
      else Inr (Inr (), set_lock False
             (upd_env (\<lambda>m. m\<lparr>used := used m - int (length item) + needSize\<rparr>) c)))"

definition max_Set :: "'l list_ops \<Rightarrow> int \<Rightarrow> string \<Rightarrow> bytes \<Rightarrow> int \<Rightarrow> 'l max_cache \<Rightarrow>
    (fault, (cache_error, unit) result \<times> 'l max_cache) result" where
  "max_Set L now key val expiration c =
     (if lock (env c) then Inl Deadlock
      else let needSize = int (length val); c = set_lock True c; used0 = used (env c) in
        bind_result (Get now key c) (\<lambda>(r, c).
        let item = (case r of Inl _ \<Rightarrow> [] | Inr v \<Rightarrow> v);
            isExists = (item \<noteq> []);
            used0 = (if isExists then used0 - int (length item) else used0)
        in bind_result (make_room L now needSize used0 item c) (\<lambda>(r, c).
        case r of
          Inl err \<Rightarrow> Inr (Inl err, c)
        | Inr _ \<Rightarrow>
            (case if isExists then listMoveToHead L (lst (env c)) key else l_add L 0 key (lst (env c)) of
               None \<Rightarrow> Inr (Inl ListError, c)
             | Some l \<Rightarrow>
                 Inr (Inr (), Set now key val expiration (upd_env (\<lambda>m. m\<lparr>lst := l\<rparr>) c))))))"

definition max_Get :: "'l list_ops \<Rightarrow> int \<Rightarrow> string \<Rightarrow> 'l max_cache \<Rightarrow>
    (fault, (cache_error, bytes) result \<times> 'l max_cache) result" where
  "max_Get L now key c =
     bind_result (Get now key c) (\<lambda>(r, c).
     case r of
       Inl err \<Rightarrow> Inr (Inl err, c)
     | Inr v \<Rightarrow>
         (case listMoveToHead L (lst (env c)) key of
            None \<Rightarrow> Inr (Inl ListError, c)
          | Some l \<Rightarrow> Inr (Inr v, upd_env (\<lambda>m. m\<lparr>lst := l\<rparr>) c)))"

subsection \<open>The list operations on the list of keys\<close>

lemma list_ops_okD:
  assumes "list_ops_ok L elems"
  shows "elems (l_new L) = []" and "l_len L l = length (elems l)"
    and "l_get L i l = (if i < length (elems l) then Some (elems l ! i) else None)"
    and "i < length (elems l) \<Longrightarrow>
      \<exists>l'. l_delete L i l = Some l' \<and> elems l' = take i (elems l) @ drop (Suc i) (elems l)"
    and "\<exists>l'. l_add L 0 k l = Some l' \<and> elems l' = k # elems l"
  using assms by (auto simp: list_ops_ok_def)

lemma get_or_empty_ok:
  "list_ops_ok L elems \<Longrightarrow> i < length (elems l) \<Longrightarrow> get_or_empty L i l = elems l ! i"
  by (simp add: get_or_empty_def list_ops_okD(3))

lemma purge_absent:
  assumes "list_ops_ok L elems" and "key \<notin> set (drop i (elems l))"
  shows "purge L key n i l = l"
  using assms(2)
proof (induction n arbitrary: i)
  case (Suc n)
  show ?case
  proof (cases "i < length (elems l)")
    case True
    then have "elems l ! i \<noteq> key" "key \<notin> set (drop (Suc i) (elems l))"
      using Suc.prems by (auto simp: Cons_nth_drop_Suc [symmetric])
    with Suc.IH True show ?thesis
      by (auto simp: get_or_empty_ok [OF assms(1)] list_ops_okD(2) [OF assms(1)])
  qed (simp add: list_ops_okD(2) [OF assms(1)])
qed simp

lemma remove1_nth:
  assumes "i < length xs" and "xs ! i = key" and "key \<notin> set (take i xs)"
  shows "remove1 key xs = take i xs @ drop (Suc i) xs"
proof -
  have "xs = take i xs @ key # drop (Suc i) xs"
    using assms(1,2) by (metis id_take_nth_drop)
  then show ?thesis using assms(3) by (metis remove1_append remove1.simps(2))
qed

lemma purge_distinct:
  assumes ok: "list_ops_ok L elems" and "distinct (elems l)" and "key \<notin> set (take i (elems l))"
    and "length (elems l) \<le> i + n"
  shows "elems (purge L key n i l) = remove1 key (elems l)"
  using assms(2-)
proof (induction n arbitrary: i)
  case 0
  then show ?case by (simp add: remove1_idem)
next
  case (Suc n)
  show ?case
  proof (cases "i < length (elems l)")
    case False
    with Suc.prems show ?thesis by (simp add: list_ops_okD(2) [OF ok] remove1_idem)
  next
    case True
    show ?thesis
    proof (cases "elems l ! i = key")
      case False
      with Suc.prems True have "key \<notin> set (take (Suc i) (elems l))"
        by (simp add: take_Suc_conv_app_nth)
      with Suc True False show ?thesis
        by (auto simp: list_ops_okD(2) [OF ok] get_or_empty_ok [OF ok])
    next
      case hit: True
      obtain l' where l': "l_delete L i l = Some l'"
        "elems l' = take i (elems l) @ drop (Suc i) (elems l)"
        using list_ops_okD(4) [OF ok True] by blast
      have r: "remove1 key (elems l) = elems l'"
        using remove1_nth [OF True hit Suc.prems(2)] l'(2) by simp
      have "key \<notin> set (elems l')"
        using Suc.prems(1) unfolding r [symmetric] by simp
      then have "key \<notin> set (drop (i + 1) (elems l'))"
        by (meson in_set_dropD)
      from purge_absent [OF ok this] show ?thesis
        using True hit l'(1) r by (simp add: list_ops_okD(2) [OF ok] get_or_empty_ok [OF ok])
    qed
  qed
qed

lemma find_delete_first:
  assumes ok: "list_ops_ok L elems" and "key \<notin> set (take i (elems l))" and "length (elems l) \<le> i + n"
  shows "\<exists>l'. find_delete L key n i l = Some l' \<and> elems l' = remove1 key (elems l)"
  using assms(2-)
proof (induction n arbitrary: i)
  case 0
  then show ?case by (simp add: remove1_idem)
next
  case (Suc n)
  show ?case
  proof (cases "i < length (elems l)")
    case False
    with Suc.prems show ?thesis by (simp add: list_ops_okD(2) [OF ok] remove1_idem)
  next
    case True
    show ?thesis
    proof (cases "elems l ! i = key")
      case False
      with Suc.prems True have "key \<notin> set (take (Suc i) (elems l))"
        by (simp add: take_Suc_conv_app_nth)
      with Suc True False show ?thesis
        by (auto simp: list_ops_okD(2) [OF ok] get_or_empty_ok [OF ok])
    next
      case hit: True
      with list_ops_okD(4) [OF ok True] True Suc.prems(1) show ?thesis
        by (auto simp: list_ops_okD(2) [OF ok] get_or_empty_ok [OF ok] remove1_nth)
    qed
  qed
qed

lemma move_to_head:
  assumes "list_ops_ok L elems"
  shows "\<exists>l'. listMoveToHead L l key = Some l' \<and> elems l' = key # remove1 key (elems l)"
  using find_delete_first [OF assms, of key 0 l "length (elems l)"] list_ops_okD(5) [OF assms]
  by (fastforce simp: listMoveToHead_def list_ops_okD(2) [OF assms])

subsection \<open>The books\<close>

text \<open>
  What the fields of a \<open>MaxMemoryCache\<close> mean: the list holds the stored keys, each once, \<open>used\<close> is the
  size of their values, and no value is empty.
\<close>

definition stored_size :: "(string \<Rightarrow> item option) \<Rightarrow> string list \<Rightarrow> int" where
  "stored_size d ks = sum_list (map (\<lambda>k. int (length (it_val (the (d k))))) ks)"

definition keys_of :: "('l \<Rightarrow> string list) \<Rightarrow> 'l max_cache \<Rightarrow> string list" where
  "keys_of elems c = elems (lst (env c))"

definition booked :: "'l list_ops \<Rightarrow> ('l \<Rightarrow> string list) \<Rightarrow> 'l max_cache \<Rightarrow> bool" where
  "booked L elems c \<longleftrightarrow> onEvicted c = Some (evicted L) \<and> distinct (keys_of elems c) \<and>
     set (keys_of elems c) = dom (data c) \<and> used (env c) = stored_size (data c) (keys_of elems c) \<and>
     (\<forall>k i. data c k = Some i \<longrightarrow> it_val i \<noteq> [])"

definition max_inv :: "'l list_ops \<Rightarrow> ('l \<Rightarrow> string list) \<Rightarrow> 'l max_cache \<Rightarrow> bool" where
  "max_inv L elems c \<longleftrightarrow> booked L elems c \<and> \<not> lock (env c)"

definition old_size :: "(string \<Rightarrow> item option) \<Rightarrow> string \<Rightarrow> int" where
  "old_size d key = (case d key of None \<Rightarrow> 0 | Some i \<Rightarrow> int (length (it_val i)))"

lemma set_lock_simps [simp]:
  "data (set_lock b c) = data c" "onEvicted (set_lock b c) = onEvicted c"
  "env (set_lock b c) = (env c)\<lparr>lock := b\<rparr>" "keys_of elems (set_lock b c) = keys_of elems c"
  by (simp_all add: set_lock_def keys_of_def)

lemma booked_set_lock [simp]: "booked L elems (set_lock b c) \<longleftrightarrow> booked L elems c"
  by (simp add: booked_def)

lemma stored_size_remove1:
  assumes "distinct ks" and "set ks = dom d"
  shows "stored_size d (remove1 k ks) = stored_size d ks - old_size d k"
proof (cases "d k")
  case None
  then have "k \<notin> set ks" using assms(2) by auto
  then show ?thesis using None by (simp add: remove1_idem old_size_def)
next
  case (Some i)
  then have "k \<in> set ks" using assms(2) by auto
  from sum_list_map_remove1 [OF this, of "\<lambda>k. int (length (it_val (the (d k))))"] show ?thesis
    using Some by (simp add: stored_size_def old_size_def)
qed

lemma stored_size_cong:
  "(\<And>k. k \<in> set ks \<Longrightarrow> d k = d' k) \<Longrightarrow> stored_size d ks = stored_size d' ks"
  unfolding stored_size_def by (metis (mono_tags, lifting) map_eq_conv)

lemma stored_size_insert:
  assumes "distinct ks" and "set ks = dom d"
  shows "stored_size (d(k \<mapsto> i)) (k # remove1 k ks) =
    stored_size d ks - old_size d k + int (length (it_val i))"
proof -
  have "stored_size (d(k \<mapsto> i)) (remove1 k ks) = stored_size d (remove1 k ks)"
    using assms(1) by (intro stored_size_cong) auto
  then show ?thesis
    using stored_size_remove1 [OF assms, of k] by (simp add: stored_size_def)
qed

lemma Delete_booked:
  assumes ok: "list_ops_ok L elems" and "max_inv L elems c"
  shows "\<exists>c'. Delete k c = Inr c' \<and> max_inv L elems c' \<and> data c' = (data c)(k := None) \<and>
    keys_of elems c' = remove1 k (keys_of elems c) \<and> used (env c') = used (env c) - old_size (data c) k \<and>
    max_size (env c') = max_size (env c)"
proof (cases "data c k")
  case None
  then have "k \<notin> set (keys_of elems c)"
    using assms(2) by (auto simp: max_inv_def booked_def)
  with None assms(2) show ?thesis
    using mem.del_absent [OF None] by (auto simp: remove1_idem old_size_def fun_upd_idem)
next
  case (Some i)
  let ?m = "env c"
  let ?m' = "?m\<lparr>used := used ?m - int (length (it_val i)), lst := purge L k (l_len L (lst ?m)) 0 (lst ?m)\<rparr>"
  have inv: "onEvicted c = Some (evicted L)" "\<not> lock ?m" "distinct (elems (lst ?m))"
    "set (elems (lst ?m)) = dom (data c)" "used ?m = stored_size (data c) (elems (lst ?m))"
    "\<forall>k i. data c k = Some i \<longrightarrow> it_val i \<noteq> []"
    using assms(2) by (auto simp: max_inv_def booked_def keys_of_def)
  have ev: "evicted L k (it_val i) ?m = Inr ?m'"
    using inv(2) by (simp add: evicted_def)
  obtain c' where c': "Delete k c = Inr c'" "data c' = (data c)(k := None)" "env c' = ?m'"
    "onEvicted c' = Some (evicted L)"
    using mem.del_present [OF Some inv(1) ev] inv(1) by auto
  have keys: "elems (lst ?m') = remove1 k (elems (lst ?m))"
    using purge_distinct [OF ok inv(3), of k 0] list_ops_okD(2) [OF ok] by simp
  have "stored_size ((data c)(k := None)) (remove1 k (elems (lst ?m))) =
      stored_size (data c) (remove1 k (elems (lst ?m)))"
    using inv(3) by (intro stored_size_cong) auto
  with stored_size_remove1 [OF inv(3,4), of k] c' keys inv Some show ?thesis
    by (auto simp: max_inv_def booked_def keys_of_def old_size_def)
qed

lemma delete_all_booked:
  assumes ok: "list_ops_ok L elems" and "max_inv L elems c"
  shows "\<exists>c'. delete_all Delete ks c = Inr c' \<and> max_inv L elems c' \<and> data c' = (data c) |` (- set ks) \<and>
    keys_of elems c' = filter (\<lambda>k. k \<notin> set ks) (keys_of elems c) \<and> max_size (env c') = max_size (env c)"
  using assms(2)
proof (induction ks arbitrary: c)
  case Nil
  then show ?case by simp
next
  case (Cons k ks)
  obtain c1 where c1: "Delete k c = Inr c1" "max_inv L elems c1" "data c1 = (data c)(k := None)"
    "keys_of elems c1 = remove1 k (keys_of elems c)" "max_size (env c1) = max_size (env c)"
    using Delete_booked [OF ok Cons.prems, of k] by blast
  from Cons.IH [OF c1(2)] obtain c' where c': "delete_all Delete ks c1 = Inr c'" "max_inv L elems c'"
    "data c' = (data c1) |` (- set ks)" "keys_of elems c' = filter (\<lambda>k. k \<notin> set ks) (keys_of elems c1)"
    "max_size (env c') = max_size (env c1)" by blast
  have "distinct (keys_of elems c)" using Cons.prems by (simp add: max_inv_def booked_def)
  then have "filter (\<lambda>k. k \<notin> set ks) (remove1 k (keys_of elems c)) =
      filter (\<lambda>x. x \<notin> set (k # ks)) (keys_of elems c)"
    by (simp add: distinct_remove1_removeAll removeAll_filter_not_eq) (metis (no_types, lifting) filter_cong)
  moreover have "(data c)(k := None) |` (- set ks) = (data c) |` (- set (k # ks))"
    by (auto simp: restrict_map_def)
  ultimately show ?case using c1 c' by simp
qed

lemma max_inv_New:
  assumes "list_ops_ok L elems" and "data c = Map.empty"
  shows "max_inv L elems (NewMaxMemoryCache L limit c)"
  using assms
  by (simp add: max_inv_def booked_def keys_of_def NewMaxMemoryCache_def OnEvicted_def list_ops_okD(1)
        stored_size_def)

text \<open>No stored entry has expired.\<close>

definition all_alive :: "int \<Rightarrow> 'l max_cache \<Rightarrow> bool" where
  "all_alive now c \<longleftrightarrow> (\<forall>k. \<not> expired_in now (data c) k)"

lemma Get_alive:
  assumes "\<not> expired_in now (data c) k"
  shows "Get now k c = Inr ((case data c k of None \<Rightarrow> Inl (KeyNotFound k) | Some i \<Rightarrow> Inr (it_val i)), c)"
  using assms mem.get_absent [of c k now] mem.get_live [of c k _ now]
  by (cases "data c k") (auto simp: expired_in_def)

text \<open>
  The chosen keys are the last ones of the list, last first: at least one when there is one, and more
  only as long as what is left is not larger than the new value.
\<close>

lemma choose_keys_suffix:
  assumes ok: "list_ops_ok L elems" and "booked L elems c" and "all_alive now c"
    and "n \<le> length (keys_of elems c)"
  shows "\<exists>m \<le> n. choose_keys L now need u n free acc c =
      Inr (Inr (acc @ rev (drop m (take n (keys_of elems c)))), c) \<and> (0 < n \<longrightarrow> m < n)"
  using assms(4)
proof (induction n arbitrary: free acc)
  case 0
  then show ?case by simp
next
  case (Suc n)
  let ?ks = "keys_of elems c"
  let ?k = "?ks ! n"
  have "?k \<in> set ?ks" using Suc.prems by simp
  then obtain i where i: "data c ?k = Some i" using assms(2) by (auto simp: booked_def)
  have get: "Get now ?k c = Inr (Inr (it_val i), c)"
    using Get_alive [of now c ?k] assms(3) i by (simp add: all_alive_def)
  have lget: "l_get L n (lst (env c)) = Some ?k"
    using Suc.prems list_ops_okD(3) [OF ok] by (simp add: keys_of_def)
  have tk: "take (Suc n) ?ks = take n ?ks @ [?k]"
    using Suc.prems by (simp add: take_Suc_conv_app_nth)
  show ?case
  proof (cases "u - (free + int (length (it_val i))) > need")
    case True
    then have "choose_keys L now need u (Suc n) free acc c = Inr (Inr (acc @ [?k]), c)"
      by (simp add: lget get Let_def)
    moreover have "rev (drop n (take (Suc n) ?ks)) = [?k]"
      using Suc.prems by (simp add: tk)
    ultimately show ?thesis by (intro exI [of _ n]) simp
  next
    case False
    obtain m where m: "m \<le> n" "choose_keys L now need u n (free + int (length (it_val i))) (acc @ [?k]) c =
        Inr (Inr ((acc @ [?k]) @ rev (drop m (take n ?ks))), c)"
      using Suc.IH [of "free + int (length (it_val i))" "acc @ [?k]"] Suc.prems by auto
    have "rev (drop m (take (Suc n) ?ks)) = ?k # rev (drop m (take n ?ks))"
      using m(1) Suc.prems by (simp add: tk)
    with m False show ?thesis
      by (intro exI [of _ m]) (simp add: lget get Let_def)
  qed
qed

lemma max_Set_fits_step:
  assumes ok: "list_ops_ok L elems" and inv: "max_inv L elems c" and "\<not> expired_in now (data c) key"
    and "val \<noteq> []" and fits: "int (length val) + used (env c) - old_size (data c) key \<le> max_size (env c)"
  shows "\<exists>c'. max_Set L now key val ex c = Inr (Inr (), c') \<and> max_inv L elems c' \<and>
    used (env c') \<le> max_size (env c') \<and> max_size (env c') = max_size (env c) \<and>
    keys_of elems c' = key # remove1 key (keys_of elems c) \<and>
    data c' = data (Set now key val ex c)"
proof -
  have unlocked: "\<not> lock (env c)" and bk: "booked L elems c" using inv by (auto simp: max_inv_def)
  let ?c = "set_lock True c"
  let ?item = "case data c key of None \<Rightarrow> [] | Some i \<Rightarrow> it_val i"
  let ?u = "used (env c) - old_size (data c) key"
  have old: "old_size (data c) key = int (length ?item)"
    by (simp add: old_size_def split: option.splits)
  have ex: "?item \<noteq> [] \<longleftrightarrow> key \<in> dom (data c)"
    using bk by (auto simp: booked_def split: option.splits)
  let ?m = "(env c)\<lparr>lock := False, used := ?u + int (length val)\<rparr>"
  have room: "make_room L now (int (length val)) ?u ?item ?c = Inr (Inr (), c\<lparr>env := ?m\<rparr>)"
    using fits unlocked by (simp add: make_room_def old set_lock_def)
  have get: "Get now key ?c = Inr ((case data c key of None \<Rightarrow> Inl (KeyNotFound key) | Some i \<Rightarrow> Inr (it_val i)), ?c)"
    using Get_alive [of now ?c key] assms(3) by simp
  have "\<exists>l. (if ?item \<noteq> [] then listMoveToHead L (lst ?m) key else l_add L 0 key (lst ?m)) = Some l \<and>
      elems l = key # remove1 key (elems (lst (env c)))"
  proof (cases "key \<in> dom (data c)")
    case True
    then show ?thesis using ex move_to_head [OF ok] by simp
  next
    case False
    then have "key \<notin> set (elems (lst (env c)))" using bk by (simp add: booked_def keys_of_def)
    with False show ?thesis using ex list_ops_okD(5) [OF ok] by (simp add: remove1_idem)
  qed
  then obtain l where l: "(if ?item \<noteq> [] then listMoveToHead L (lst ?m) key else l_add L 0 key (lst ?m)) = Some l"
    "elems l = key # remove1 key (elems (lst (env c)))" by blast
  let ?c' = "Set now key val ex (c\<lparr>env := ?m\<lparr>lst := l\<rparr>\<rparr>)"
  have set: "max_Set L now key val ex c = Inr (Inr (), ?c')"
  proof (cases "data c key")
    case None
    then show ?thesis
      using l(1) room unlocked get by (simp add: max_Set_def Let_def old_size_def)
  next
    case (Some i)
    then have "it_val i \<noteq> []" using bk by (auto simp: booked_def)
    with Some show ?thesis
      using l(1) room unlocked get by (simp add: max_Set_def Let_def old_size_def)
  qed
  have b: "distinct (keys_of elems c)" "set (keys_of elems c) = dom (data c)"
    "used (env c) = stored_size (data c) (keys_of elems c)"
    using bk by (auto simp: booked_def)
  have "booked L elems ?c'"
    using bk b stored_size_insert [OF b(1,2), of key] assms(4) l(2)
    by (auto simp: booked_def keys_of_def Set_def)
  then show ?thesis
    using set fits l(2) by (simp add: max_inv_def Set_def keys_of_def)
qed

lemma filter_suffix:
  "distinct xs \<Longrightarrow> filter (\<lambda>k. k \<notin> set (drop m xs)) xs = take m xs"
proof -
  assume d: "distinct xs"
  have "filter (\<lambda>k. k \<notin> set (drop m xs)) (take m xs) = take m xs"
    using set_take_disj_set_drop_if_distinct [OF d, of m m] by (intro filter_True) auto
  moreover have "filter (\<lambda>k. k \<notin> set (drop m xs)) (drop m xs) = []"
    by simp
  ultimately show ?thesis by (metis append_Nil2 append_take_drop_id filter_append)
qed

lemma max_Set_evicts_step:
  assumes ok: "list_ops_ok L elems" and inv: "max_inv L elems c" and alive: "all_alive now c"
    and new: "data c key = None" and full: "max_size (env c) < int (length val) + used (env c)"
  shows "\<exists>m c'. max_Set L now key val ex c = Inr (Inr (), c') \<and> \<not> lock (env c') \<and>
    keys_of elems c' = key # take m (keys_of elems c) \<and> (keys_of elems c \<noteq> [] \<longrightarrow> m < length (keys_of elems c)) \<and>
    data c' = data (Set now key val ex (c\<lparr>data := (data c) |` set (take m (keys_of elems c))\<rparr>)) \<and>
    used (env c') = stored_size (data c) (take m (keys_of elems c))"
proof -
  let ?ks = "keys_of elems c"
  have unlocked: "\<not> lock (env c)" and bk: "booked L elems c" using inv by (auto simp: max_inv_def)
  let ?c = "set_lock True c"
  have len: "l_len L (lst (env c)) = length ?ks"
    using list_ops_okD(2) [OF ok] by (simp add: keys_of_def)
  have alive': "all_alive now ?c" using alive by (simp add: all_alive_def)
  obtain m where m: "m \<le> length ?ks" "choose_keys L now (int (length val)) (used (env c)) (length ?ks) 0 [] ?c =
      Inr (Inr (rev (drop m ?ks)), ?c)" "0 < length ?ks \<longrightarrow> m < length ?ks"
    using choose_keys_suffix [OF ok, of ?c now "length ?ks" "int (length val)" "used (env c)" 0 "[]"] bk alive'
    by auto
  have same: "set_lock False ?c = c" using unlocked by (simp add: set_lock_def)
  obtain c1 where c1: "delete_all Delete (rev (drop m ?ks)) c = Inr c1" "max_inv L elems c1"
    "data c1 = (data c) |` (- set (drop m ?ks))" "keys_of elems c1 = filter (\<lambda>k. k \<notin> set (drop m ?ks)) ?ks"
    using delete_all_booked [OF ok inv, of "rev (drop m ?ks)"] by auto
  have d: "distinct ?ks" "set ?ks = dom (data c)" using bk by (auto simp: booked_def)
  have ks1: "keys_of elems c1 = take m ?ks" using c1(4) filter_suffix [OF d(1)] by simp
  have data1: "data c1 = (data c) |` set (take m ?ks)"
  proof
    fix k
    have "k \<in> set ?ks \<Longrightarrow> k \<notin> set (drop m ?ks) \<longleftrightarrow> k \<in> set (take m ?ks)"
      using d(1) set_take_disj_set_drop_if_distinct [of ?ks m m]
      by (metis append_take_drop_id disjoint_iff order_refl set_append Un_iff)
    then show "data c1 k = ((data c) |` set (take m ?ks)) k"
      using c1(3) d(2) by (cases "k \<in> set ?ks") (auto simp: restrict_map_def dest: in_set_takeD)
  qed
  have used1: "used (env c1) = stored_size (data c) (take m ?ks)"
  proof -
    have "used (env c1) = stored_size (data c1) (take m ?ks)"
      using c1(2) ks1 by (simp add: max_inv_def booked_def)
    also have "\<dots> = stored_size (data c) (take m ?ks)"
      by (rule stored_size_cong) (simp add: data1)
    finally show ?thesis .
  qed
  have room: "make_room L now (int (length val)) (used (env c)) [] ?c = Inr (Inr (), c1)"
    using full m(2) same c1(1) by (simp add: make_room_def len Let_def)
  obtain l where l: "l_add L 0 key (lst (env c1)) = Some l" "elems l = key # elems (lst (env c1))"
    using list_ops_okD(5) [OF ok] by blast
  have "max_Set L now key val ex c =
      Inr (Inr (), Set now key val ex (c1\<lparr>env := (env c1)\<lparr>lst := l\<rparr>\<rparr>))"
    using unlocked Get_alive [of now ?c key] alive' new room l(1)
    by (simp add: max_Set_def Let_def all_alive_def)
  then show ?thesis
    using m(3) l(2) ks1 data1 used1 c1(2)
    by (intro exI [of _ m] exI [of _ "Set now key val ex (c1\<lparr>env := (env c1)\<lparr>lst := l\<rparr>\<rparr>)"])
      (simp add: keys_of_def Set_def max_inv_def)
qed

subsection \<open>Properties\<close>

text \<open>
  Claim C21: a \<open>Set\<close> that fits keeps the books. When the new value is not empty, the key is absent or has
  not expired (\<open>max_Set_expired_deadlocks\<close> is about the other case), and the new value and what is stored,
  less the value it replaces, stay within the bound, no entry is evicted, the value is stored, its key moves to the head
  of the list, \<open>used\<close> is again the size of the stored values and within the bound, and the lock is
  free.
\<close>

theorem max_Set_fits:
  assumes "list_ops_ok L elems" and "max_inv L elems c" and "\<not> expired_in now (data c) key"
    and "val \<noteq> []" and "int (length val) + used (env c) - old_size (data c) key \<le> max_size (env c)"
  shows "\<exists>c'. max_Set L now key val ex c = Inr (Inr (), c') \<and> max_inv L elems c' \<and>
    used (env c') \<le> max_size (env c') \<and> max_size (env c') = max_size (env c) \<and>
    keys_of elems c' = key # remove1 key (keys_of elems c) \<and>
    data c' = data (Set now key val ex c)"
  using assms by (rule max_Set_fits_step)

text \<open>
  \<open>Get\<close> of a live key gives its value, moves the key to the head of the list and changes
  nothing else, so the list is in the order of the last use; \<open>Get\<close> of an absent key changes nothing.
\<close>

theorem max_Get_moves_to_head:
  assumes "list_ops_ok L elems" and "max_inv L elems c" and "\<not> expired_in now (data c) key"
  shows "\<exists>c'. max_Get L now key c =
      Inr ((case data c key of None \<Rightarrow> Inl (KeyNotFound key) | Some i \<Rightarrow> Inr (it_val i)), c') \<and>
    max_inv L elems c' \<and> data c' = data c \<and>
    keys_of elems c' = (if data c key = None then keys_of elems c else key # remove1 key (keys_of elems c))"
proof (cases "data c key")
  case None
  then show ?thesis using assms Get_alive [OF assms(3)] by (simp add: max_Get_def)
next
  case (Some i)
  obtain l where l: "listMoveToHead L (lst (env c)) key = Some l" "elems l = key # remove1 key (elems (lst (env c)))"
    using move_to_head [OF assms(1)] by blast
  have b: "distinct (keys_of elems c)" "set (keys_of elems c) = dom (data c)"
    using assms(2) by (auto simp: max_inv_def booked_def)
  have "stored_size (data c) (key # remove1 key (keys_of elems c)) = stored_size (data c) (keys_of elems c)"
    using stored_size_remove1 [OF b, of key] Some by (simp add: stored_size_def old_size_def)
  then show ?thesis
    using assms(2) Some Get_alive [OF assms(3)] l b
    by (auto simp: max_Get_def max_inv_def booked_def keys_of_def)
qed

text \<open>
  Deleting a key, through the embedded cache, keeps the books: the callback takes the key out
  of the list and its size off \<open>used\<close>.
\<close>

theorem Delete_keeps_books:
  assumes "list_ops_ok L elems" and "max_inv L elems c"
  shows "\<exists>c'. Delete k c = Inr c' \<and> max_inv L elems c' \<and> data c' = (data c)(k := None) \<and>
    keys_of elems c' = remove1 k (keys_of elems c) \<and> used (env c') = used (env c) - old_size (data c) k"
  using Delete_booked [OF assms] by blast

text \<open>
  Claim C22: a value under a new key that does not fit evicts the least recently used keys, provided no
  stored entry has expired: what is left of the list is a proper initial part of it, behind the new key,
  and exactly these entries and the new one are stored.
\<close>

theorem max_Set_evicts_LRU:
  assumes "list_ops_ok L elems" and "max_inv L elems c" and "all_alive now c"
    and "data c key = None" and "max_size (env c) < int (length val) + used (env c)"
  shows "\<exists>m c'. max_Set L now key val ex c = Inr (Inr (), c') \<and> \<not> lock (env c') \<and>
    keys_of elems c' = key # take m (keys_of elems c) \<and> (keys_of elems c \<noteq> [] \<longrightarrow> m < length (keys_of elems c)) \<and>
    data c' = data (Set now key val ex (c\<lparr>data := (data c) |` set (take m (keys_of elems c))\<rparr>))"
  using max_Set_evicts_step [OF assms] by blast

text \<open>
  A \<open>Set\<close> that evicts loses its own value from the books: \<open>used\<close> is afterwards too small by
  exactly the size of the value just stored, since only the other branch adds it.
\<close>

theorem max_Set_evicting_undercounts:
  assumes "list_ops_ok L elems" and "max_inv L elems c" and "all_alive now c"
    and "data c key = None" and "max_size (env c) < int (length val) + used (env c)"
  shows "\<exists>c'. max_Set L now key val ex c = Inr (Inr (), c') \<and>
    used (env c') + int (length val) = stored_size (data c') (keys_of elems c')"
proof -
  obtain m c' where c': "max_Set L now key val ex c = Inr (Inr (), c')"
    "keys_of elems c' = key # take m (keys_of elems c)"
    "data c' = data (Set now key val ex (c\<lparr>data := (data c) |` set (take m (keys_of elems c))\<rparr>))"
    "used (env c') = stored_size (data c) (take m (keys_of elems c))"
    using max_Set_evicts_step [OF assms] by blast
  have "key \<notin> set (take m (keys_of elems c))"
    using assms(2,4) by (auto simp: max_inv_def booked_def dest: in_set_takeD)
  then have "stored_size (data c') (take m (keys_of elems c)) = stored_size (data c) (take m (keys_of elems c))"
    using c'(3) by (intro stored_size_cong) (auto simp: Set_def)
  then show ?thesis using c' by (auto simp: stored_size_def Set_def)
qed

text \<open>
  Claim C23: setting a key whose entry has expired never returns: \<open>Set\<close> holds the mutex while it looks
  the key up, the lookup removes the entry, and the callback waits for the same mutex.
\<close>

theorem max_Set_expired_deadlocks:
  assumes "max_inv L elems c" and "expired_in now (data c) key"
  shows "max_Set L now key val ex c = Inl Deadlock"
proof -
  obtain i where i: "data c key = Some i" "deadlineBefore i now"
    using assms(2) by (auto simp: expired_in_def split: option.splits)
  have inv: "onEvicted c = Some (evicted L)" "\<not> lock (env c)"
    using assms(1) by (auto simp: max_inv_def booked_def)
  have "Get now key (set_lock True c) = Inl Deadlock"
    using mem.get_late [of "set_lock True c" key i now] mem.del_fault [of "set_lock True c" key i "evicted L" Deadlock]
      i inv by (simp add: evicted_def)
  then show ?thesis using inv(2) by (simp add: max_Set_def Let_def)
qed

subsection \<open>A run\<close>

text \<open>Lists themselves satisfy the contract of the list of keys.\<close>

definition plain_list :: "string list list_ops" where
  "plain_list = \<lparr>l_new = [], l_len = length,
     l_get = (\<lambda>i l. if i < length l then Some (l ! i) else None),
     l_delete = (\<lambda>i l. if i < length l then Some (take i l @ drop (Suc i) l) else None),
     l_add = (\<lambda>i k l. if i \<le> length l then Some (take i l @ k # drop i l) else None)\<rparr>"

lemma plain_list_ok: "list_ops_ok plain_list (\<lambda>l. l)"
  by (simp add: list_ops_ok_def plain_list_def)

fun max_Sets :: "'l list_ops \<Rightarrow> (string \<times> bytes) list \<Rightarrow> 'l max_cache \<Rightarrow> 'l max_cache option" where
  "max_Sets L [] c = Some c"
| "max_Sets L ((k, v) # kvs) c =
     (case max_Set L 0 k v 0 c of Inr (Inr _, c) \<Rightarrow> max_Sets L kvs c | _ \<Rightarrow> None)"

definition empty_cache :: "string list max_cache" where
  "empty_cache = NewMemoryMapCache \<lparr>max_size = 0, used = 0, lock = False, lst = []\<rparr> []"

lemmas max_run = max_Sets.simps max_Set_def make_room_def set_lock_def Get_def get_read_def Set_def
  Delete_def delete_def evicted_def listMoveToHead_def get_or_empty_def plain_list_def Let_def
  deadlineBefore_def empty_cache_def NewMaxMemoryCache_def NewMemoryMapCache_def OnEvicted_def

text \<open>
  The bound does not hold. With a bound of 10, setting 6 bytes and then twice 10 bytes under
  three keys, each \<open>Set\<close> returning no error, leaves 20 bytes stored.
\<close>

theorem max_Set_exceeds_bound:
  "\<exists>c. max_Sets plain_list [(''a'', replicate 6 0), (''b'', replicate 10 0), (''c'', replicate 10 0)]
      (NewMaxMemoryCache plain_list 10 empty_cache) = Some c \<and>
    max_size (env c) = 10 \<and> stored_size (data c) (keys_of (\<lambda>l. l) c) = 20 \<and>
    keys_of (\<lambda>l. l) c = [''c'', ''b'']"
  by (simp add: max_run numeral_eq_Suc stored_size_def keys_of_def)

definition one_key :: "string list max_cache" where
  "one_key = \<lparr>data = [''a'' \<mapsto> \<lparr>it_val = [1, 2, 3], it_deadline = Some 10\<rparr>], onEvicted = Some (evicted plain_list),
     env = \<lparr>max_size = 5, used = 3, lock = False, lst = [''a'']\<rparr>, sweeper = Waiting\<rparr>"

lemma one_key_inv: "max_inv plain_list (\<lambda>l. l) one_key"
  by (auto simp: max_inv_def booked_def keys_of_def one_key_def stored_size_def)

lemma one_key_alive: "all_alive 0 one_key" "\<not> expired_in 0 (data one_key) k" "expired_in 11 (data one_key) ''a''"
  by (auto simp: all_alive_def expired_in_def one_key_def deadlineBefore_def split: option.split)

theorem max_Set_fits_witness:
  "\<exists>c'. max_Set plain_list 0 ''a'' [1, 2, 3, 4] 0 one_key = Inr (Inr (), c') \<and>
    keys_of (\<lambda>l. l) c' = [''a''] \<and> used (env c') \<le> 5"
proof -
  have "int (length [1, 2, 3, 4 :: byte]) + used (env one_key) - old_size (data one_key) ''a'' \<le> max_size (env one_key)"
    by (simp add: one_key_def old_size_def)
  from max_Set_fits [OF plain_list_ok one_key_inv one_key_alive(2) _ this, of 0] show ?thesis
    by (auto simp: one_key_def keys_of_def)
qed

theorem max_Get_moves_to_head_witness:
  "\<exists>c'. max_Get plain_list 0 ''a'' one_key = Inr (Inr [1, 2, 3], c') \<and> keys_of (\<lambda>l. l) c' = [''a'']"
  using max_Get_moves_to_head [OF plain_list_ok one_key_inv one_key_alive(2), of "''a''"]
  by (auto simp: one_key_def keys_of_def)

theorem Delete_keeps_books_witness:
  "\<exists>c'. Delete ''a'' one_key = Inr c' \<and> used (env c') = 0 \<and> keys_of (\<lambda>l. l) c' = []"
  using Delete_keeps_books [OF plain_list_ok one_key_inv, of "''a''"]
  by (auto simp: one_key_def keys_of_def old_size_def)

lemma one_key_full: "data one_key ''b'' = None" "max_size (env one_key) < int (length [1, 2, 3, 4 :: byte]) + used (env one_key)"
  by (simp_all add: one_key_def)

theorem max_Set_evicts_LRU_witness:
  "\<exists>c'. max_Set plain_list 0 ''b'' [1, 2, 3, 4] 0 one_key = Inr (Inr (), c') \<and> keys_of (\<lambda>l. l) c' = [''b'']"
  using max_Set_evicts_LRU [OF plain_list_ok one_key_inv one_key_alive(1) one_key_full, of 0]
  by (auto simp: one_key_def keys_of_def)

theorem max_Set_evicting_undercounts_witness:
  "\<exists>c'. max_Set plain_list 0 ''b'' [1, 2, 3, 4] 0 one_key = Inr (Inr (), c') \<and>
    used (env c') + 4 = stored_size (data c') (keys_of (\<lambda>l. l) c')"
  using max_Set_evicting_undercounts [OF plain_list_ok one_key_inv one_key_alive(1) one_key_full, of 0] by simp

theorem max_Set_expired_deadlocks_witness: "max_Set plain_list 11 ''a'' [1] 0 one_key = Inl Deadlock"
  by (rule max_Set_expired_deadlocks [OF one_key_inv one_key_alive(3)])

end
