(* ===== verification/Shutdown.thy ===== *)
theory Shutdown
  imports Prelude
begin

text \<open>
  The graceful shutdown of \<open>homework_graceful_shutdown/service/shutdown.go\<close>: \<open>App.StartAndServe\<close>,
  \<open>App.shutdown\<close>, the goroutines they start, and the rejecting mux of a server, as a step relation on
  the state of the process.

  The main goroutine is a program counter; the wait group is its counter; a goroutine that stops a
  server or runs a callback is an entry of a list. A callback goroutine reads the loop variable \<open>cbs\<close>
  when it runs: the module is of Go 1.18, where a \<open>range\<close> loop has one variable for all rounds. That
  a server's \<open>Shutdown\<close> and a callback return is the environment's part: they are steps. \<open>Shutdown\<close> returns
  when the server has stopped or when the context, with its timeout, has expired and requests still run;
  \<open>stop\<close> drops its error, so the state of a stopper only records for the reader which it was.

  The flag \<open>reject\<close> is written without a lock. What the handlers of a server read is a list of its own,
  \<open>seen\<close>, and that a written flag is seen is a step which may come at any later time. The signal
  watcher may end the process at any time after the first signal, with code 1 on a second signal and
  code 2 when \<open>shutdownTimeout\<close> has passed.
\<close>

subsection \<open>Configuration\<close>

record 'cb App =
  servers :: "string list"
  shutdownTimeout :: nat
  waitTime :: nat
  cbTimeout :: nat
  cbs :: "'cb list"

text \<open>Durations are in seconds.\<close>

definition NewApp :: "string list \<Rightarrow> ('cb App \<Rightarrow> 'cb App) list \<Rightarrow> 'cb App" where
  "NewApp srvs opts = fold (\<lambda>opt app. opt app) opts
     \<lparr>servers = srvs, shutdownTimeout = 30, waitTime = 10, cbTimeout = 13, cbs = []\<rparr>"

definition WithShutdownCallbacks :: "'cb list \<Rightarrow> 'cb App \<Rightarrow> 'cb App" where
  "WithShutdownCallbacks fs a = a\<lparr>cbs := fs\<rparr>"

subsection \<open>The mux\<close>

text \<open>The inner \<open>ServeMux\<close> is the library's: its handler is an argument.\<close>

record 'req Server =
  reject :: bool
  handler :: "'req \<Rightarrow> nat \<times> bytes"

definition closed_text :: bytes where
  "closed_text = [230, 156, 141, 229, 138, 161, 229, 183, 178, 229, 133, 179, 233, 151, 173]"

definition mux_ServeHTTP :: "'req Server \<Rightarrow> 'req \<Rightarrow> nat \<times> bytes" where
  "mux_ServeHTTP s r = (if reject s then (503, closed_text) else handler s r)"

definition rejectReq :: "'req Server \<Rightarrow> 'req Server" where
  "rejectReq s = s\<lparr>reject := True\<rparr>"

subsection \<open>The process\<close>

datatype pc = Serving | RejectLoop nat | Wait1 | StopLoop nat | Wait2 | CbLoop nat | Wait3
  | CloseApp | ShutDone

text \<open>The flag of the last two: whether the server had stopped, or the timeout ended its \<open>Shutdown\<close>.\<close>

datatype stopper = NotSpawned | Stopping | StoppedServer bool | StopDone bool

datatype cb_state = CbReady | CbRunning nat | CbDone nat

record 'req proc =
  pc :: pc
  wg :: int
  srvs :: "'req Server list"
  seen :: "bool list"
  stoppers :: "stopper list"
  loop_var :: nat
  callbacks :: "cb_state list"
  watching :: bool
  exit_code :: "nat option"

definition proc_init :: "'req Server list \<Rightarrow> 'req proc" where
  "proc_init ss = \<lparr>pc = Serving, wg = 0, srvs = ss, seen = map reject ss,
     stoppers = replicate (length ss) NotSpawned, loop_var = 0, callbacks = [], watching = False, exit_code = None\<rparr>"

text \<open>What server \<open>j\<close> answers a request: its handlers read the flag as they see it.\<close>

definition mux_answer :: "'req proc \<Rightarrow> nat \<Rightarrow> 'req \<Rightarrow> nat \<times> bytes" where
  "mux_answer s j r = mux_ServeHTTP ((srvs s ! j)\<lparr>reject := seen s ! j\<rparr>) r"

text \<open>\<open>m\<close> is the number of registered callbacks; the number of servers is that of \<open>srvs\<close>.\<close>

inductive shutdown_step :: "nat \<Rightarrow> 'req proc \<Rightarrow> 'req proc \<Rightarrow> bool" for m where
  signal: "exit_code s = None \<Longrightarrow> pc s = Serving \<Longrightarrow>
    shutdown_step m s (s\<lparr>pc := RejectLoop 0, wg := wg s + int (length (srvs s)), watching := True\<rparr>)"
| reject: "exit_code s = None \<Longrightarrow> pc s = RejectLoop i \<Longrightarrow> i < length (srvs s) \<Longrightarrow>
    shutdown_step m s (s\<lparr>pc := RejectLoop (i + 1), srvs := (srvs s)[i := rejectReq (srvs s ! i)], wg := wg s - 1\<rparr>)"
| flag_seen: "exit_code s = None \<Longrightarrow> j < length (seen s) \<Longrightarrow> reject (srvs s ! j) \<Longrightarrow> \<not> seen s ! j \<Longrightarrow>
    shutdown_step m s (s\<lparr>seen := (seen s)[j := True]\<rparr>)"
| rejected: "exit_code s = None \<Longrightarrow> pc s = RejectLoop i \<Longrightarrow> i \<ge> length (srvs s) \<Longrightarrow>
    shutdown_step m s (s\<lparr>pc := Wait1\<rparr>)"
| wait1: "exit_code s = None \<Longrightarrow> pc s = Wait1 \<Longrightarrow> wg s = 0 \<Longrightarrow>
    shutdown_step m s (s\<lparr>pc := StopLoop 0, wg := wg s + int (length (srvs s))\<rparr>)"
| spawn_stop: "exit_code s = None \<Longrightarrow> pc s = StopLoop i \<Longrightarrow> i < length (srvs s) \<Longrightarrow>
    shutdown_step m s (s\<lparr>pc := StopLoop (i + 1), stoppers := (stoppers s)[i := Stopping]\<rparr>)"
| spawned_stops: "exit_code s = None \<Longrightarrow> pc s = StopLoop i \<Longrightarrow> i \<ge> length (srvs s) \<Longrightarrow>
    shutdown_step m s (s\<lparr>pc := Wait2\<rparr>)"
| stop_returns: "exit_code s = None \<Longrightarrow> j < length (stoppers s) \<Longrightarrow> stoppers s ! j = Stopping \<Longrightarrow>
    shutdown_step m s (s\<lparr>stoppers := (stoppers s)[j := StoppedServer clean]\<rparr>)"
| stop_done: "exit_code s = None \<Longrightarrow> j < length (stoppers s) \<Longrightarrow> stoppers s ! j = StoppedServer clean \<Longrightarrow>
    shutdown_step m s (s\<lparr>stoppers := (stoppers s)[j := StopDone clean], wg := wg s - 1\<rparr>)"
| wait2: "exit_code s = None \<Longrightarrow> pc s = Wait2 \<Longrightarrow> wg s = 0 \<Longrightarrow>
    shutdown_step m s (s\<lparr>pc := CbLoop 0, wg := wg s + int m\<rparr>)"
| spawn_cb: "exit_code s = None \<Longrightarrow> pc s = CbLoop i \<Longrightarrow> i < m \<Longrightarrow>
    shutdown_step m s (s\<lparr>pc := CbLoop (i + 1), loop_var := i, callbacks := callbacks s @ [CbReady]\<rparr>)"
| spawned_cbs: "exit_code s = None \<Longrightarrow> pc s = CbLoop i \<Longrightarrow> i \<ge> m \<Longrightarrow>
    shutdown_step m s (s\<lparr>pc := Wait3\<rparr>)"
| cb_runs: "exit_code s = None \<Longrightarrow> j < length (callbacks s) \<Longrightarrow> callbacks s ! j = CbReady \<Longrightarrow>
    shutdown_step m s (s\<lparr>callbacks := (callbacks s)[j := CbRunning (loop_var s)]\<rparr>)"
| cb_returns: "exit_code s = None \<Longrightarrow> j < length (callbacks s) \<Longrightarrow> callbacks s ! j = CbRunning v \<Longrightarrow>
    shutdown_step m s (s\<lparr>callbacks := (callbacks s)[j := CbDone v], wg := wg s - 1\<rparr>)"
| wait3: "exit_code s = None \<Longrightarrow> pc s = Wait3 \<Longrightarrow> wg s = 0 \<Longrightarrow>
    shutdown_step m s (s\<lparr>pc := CloseApp\<rparr>)"
| close_app: "exit_code s = None \<Longrightarrow> pc s = CloseApp \<Longrightarrow>
    shutdown_step m s (s\<lparr>pc := ShutDone\<rparr>)"
| force_exit: "exit_code s = None \<Longrightarrow> watching s \<Longrightarrow> pc s \<noteq> ShutDone \<Longrightarrow> code \<in> {1, 2} \<Longrightarrow>
    shutdown_step m s (s\<lparr>exit_code := Some code\<rparr>)"

inductive_cases shutdown_stepE: "shutdown_step m s t"

definition shutdown_reach :: "nat \<Rightarrow> 'req Server list \<Rightarrow> 'req proc \<Rightarrow> bool" where
  "shutdown_reach m ss s \<longleftrightarrow> (shutdown_step m)\<^sup>*\<^sup>* (proc_init ss) s"

subsection \<open>The invariant\<close>

fun is_done :: "cb_state \<Rightarrow> bool" where
  "is_done (CbDone v) \<longleftrightarrow> True"
| "is_done _ \<longleftrightarrow> False"

fun is_stopped :: "stopper \<Rightarrow> bool" where
  "is_stopped (StopDone clean) \<longleftrightarrow> True"
| "is_stopped _ \<longleftrightarrow> False"

lemma is_stopped_iff: "is_stopped x \<longleftrightarrow> (\<exists>clean. x = StopDone clean)"
  by (cases x) simp_all

definition count_of :: "('a \<Rightarrow> bool) \<Rightarrow> 'a list \<Rightarrow> int" where
  "count_of P xs = int (length (filter P xs))"

text \<open>How many \<open>Done()\<close> calls the wait group still waits for.\<close>

fun outstanding :: "nat \<Rightarrow> pc \<Rightarrow> 'req proc \<Rightarrow> int" where
  "outstanding m (RejectLoop i) s = int (length (srvs s)) - int i"
| "outstanding m (StopLoop i) s = int (length (srvs s)) - count_of is_stopped (stoppers s)"
| "outstanding m Wait2 s = int (length (srvs s)) - count_of is_stopped (stoppers s)"
| "outstanding m (CbLoop i) s = int m - count_of is_done (callbacks s)"
| "outstanding m Wait3 s = int m - count_of is_done (callbacks s)"
| "outstanding m _ s = 0"

fun rejecting :: "pc \<Rightarrow> 'req proc \<Rightarrow> bool" where
  "rejecting Serving s \<longleftrightarrow> True"
| "rejecting (RejectLoop i) s \<longleftrightarrow> i \<le> length (srvs s) \<and> (\<forall>j < i. reject (srvs s ! j))"
| "rejecting _ s \<longleftrightarrow> (\<forall>j < length (srvs s). reject (srvs s ! j))"

fun stopping :: "pc \<Rightarrow> 'req proc \<Rightarrow> bool" where
  "stopping Serving s \<longleftrightarrow> (\<forall>j < length (stoppers s). stoppers s ! j = NotSpawned)"
| "stopping (RejectLoop i) s \<longleftrightarrow> (\<forall>j < length (stoppers s). stoppers s ! j = NotSpawned)"
| "stopping Wait1 s \<longleftrightarrow> (\<forall>j < length (stoppers s). stoppers s ! j = NotSpawned)"
| "stopping (StopLoop i) s \<longleftrightarrow> i \<le> length (stoppers s) \<and>
     (\<forall>j < length (stoppers s). stoppers s ! j = NotSpawned \<longleftrightarrow> i \<le> j)"
| "stopping Wait2 s \<longleftrightarrow> (\<forall>j < length (stoppers s). stoppers s ! j \<noteq> NotSpawned)"
| "stopping _ s \<longleftrightarrow> (\<forall>j < length (stoppers s). is_stopped (stoppers s ! j))"

fun calling :: "nat \<Rightarrow> pc \<Rightarrow> 'req proc \<Rightarrow> bool" where
  "calling m (CbLoop i) s \<longleftrightarrow> i \<le> m \<and> length (callbacks s) = i"
| "calling m Wait3 s \<longleftrightarrow> length (callbacks s) = m"
| "calling m CloseApp s \<longleftrightarrow> length (callbacks s) = m \<and> (\<forall>j < m. is_done (callbacks s ! j))"
| "calling m ShutDone s \<longleftrightarrow> length (callbacks s) = m \<and> (\<forall>j < m. is_done (callbacks s ! j))"
| "calling m _ s \<longleftrightarrow> callbacks s = []"

definition shut_inv :: "nat \<Rightarrow> nat \<Rightarrow> 'req proc \<Rightarrow> bool" where
  "shut_inv n m s \<longleftrightarrow> length (srvs s) = n \<and> length (stoppers s) = n \<and> wg s = outstanding m (pc s) s \<and>
     rejecting (pc s) s \<and> stopping (pc s) s \<and> calling m (pc s) s \<and>
     length (seen s) = n \<and> (\<forall>j < n. seen s ! j \<longrightarrow> reject (srvs s ! j)) \<and> (watching s \<longleftrightarrow> pc s \<noteq> Serving)"

lemma count_of_update:
  "j < length xs \<Longrightarrow> count_of P (xs[j := y]) =
     count_of P xs - (if P (xs ! j) then 1 else 0) + (if P y then 1 else 0)"
proof (induction xs arbitrary: j)
  case (Cons x xs)
  have c: "count_of P (x # ys) = (if P x then 1 else 0) + count_of P ys" for x ys
    by (simp add: count_of_def)
  from Cons show ?case by (cases j) (auto simp: c)
qed simp

lemma count_of_append: "count_of P (xs @ [y]) = count_of P xs + (if P y then 1 else 0)"
  by (simp add: count_of_def)

lemma count_of_full:
  assumes "count_of P xs = int (length xs)" and "j < length xs"
  shows "P (xs ! j)"
proof -
  from assms(1) have "filter P xs = xs"
    by (metis count_of_def filter_id_conv length_filter_less nat_less_le of_nat_eq_iff)
  then show ?thesis using assms(2) by (metis filter_id_conv nth_mem)
qed

lemma count_of_none: "(\<forall>j < length xs. \<not> P (xs ! j)) \<Longrightarrow> count_of P xs = 0"
  by (auto simp: count_of_def filter_empty_conv in_set_conv_nth)

lemma shut_inv_init: "shut_inv (length ss) m (proc_init ss)"
  by (simp add: shut_inv_def proc_init_def)

lemma shut_inv_step:
  assumes "shutdown_step m s t" and "shut_inv n m s"
  shows "shut_inv n m t"
  using assms
proof (cases rule: shutdown_step.cases)
  case (reject i)
  with assms(2) show ?thesis
    by (auto simp: shut_inv_def nth_list_update rejectReq_def less_Suc_eq)
next
  case (flag_seen j)
  with assms(2) show ?thesis by (cases "pc s") (auto simp: shut_inv_def nth_list_update)
next
  case wait1
  with assms(2) show ?thesis by (auto simp: shut_inv_def intro!: count_of_none)
next
  case (spawn_stop i)
  with assms(2) show ?thesis
    by (auto simp: shut_inv_def nth_list_update count_of_update less_Suc_eq)
next
  case (stop_returns j)
  with assms(2) show ?thesis
    by (cases "pc s") (auto simp: shut_inv_def nth_list_update count_of_update)
next
  case (stop_done j)
  with assms(2) show ?thesis
    by (cases "pc s") (auto simp: shut_inv_def nth_list_update count_of_update)
next
  case wait2
  with assms(2) count_of_full [of is_stopped "stoppers s"] show ?thesis
    by (auto simp: shut_inv_def count_of_def)
next
  case (spawn_cb i)
  with assms(2) show ?thesis by (auto simp: shut_inv_def count_of_append)
next
  case (cb_runs j)
  with assms(2) show ?thesis
    by (cases "pc s") (auto simp: shut_inv_def nth_list_update count_of_update)
next
  case (cb_returns j v)
  with assms(2) show ?thesis
    by (cases "pc s") (auto simp: shut_inv_def nth_list_update count_of_update)
next
  case wait3
  with assms(2) count_of_full [of is_done "callbacks s"] show ?thesis
    by (auto simp: shut_inv_def)
next
  case (force_exit code)
  with assms(2) show ?thesis by (cases "pc s") (auto simp: shut_inv_def)
qed (auto simp: shut_inv_def)

lemma shut_inv_reach: "shutdown_reach m ss s \<Longrightarrow> shut_inv (length ss) m s"
  unfolding shutdown_reach_def
  by (induction rule: rtranclp_induct) (auto intro: shut_inv_init shut_inv_step)

subsection \<open>Progress\<close>

fun stopper_work :: "stopper \<Rightarrow> nat" where
  "stopper_work Stopping = 2" | "stopper_work (StoppedServer clean) = 1" | "stopper_work _ = 0"

fun cb_work :: "cb_state \<Rightarrow> nat" where
  "cb_work CbReady = 2" | "cb_work (CbRunning v) = 1" | "cb_work (CbDone v) = 0"

fun pc_work :: "nat \<Rightarrow> nat \<Rightarrow> pc \<Rightarrow> nat" where
  "pc_work n m Serving = 8 + 3 * m + 4 * n"
| "pc_work n m (RejectLoop i) = 7 + 3 * m + 3 * n + (n - i)"
| "pc_work n m Wait1 = 6 + 3 * m + 3 * n"
| "pc_work n m (StopLoop i) = 5 + 3 * m + 3 * (n - i)"
| "pc_work n m Wait2 = 4 + 3 * m"
| "pc_work n m (CbLoop i) = 3 + 3 * (m - i)"
| "pc_work n m Wait3 = 2"
| "pc_work n m CloseApp = 1"
| "pc_work n m ShutDone = 0"

definition work :: "nat \<Rightarrow> 'req proc \<Rightarrow> nat" where
  "work m s = pc_work (length (srvs s)) m (pc s) + sum_list (map stopper_work (stoppers s)) +
     sum_list (map cb_work (callbacks s)) + sum_list (map of_bool (map Not (seen s))) + (if exit_code s = None then 1 else 0)"

lemma sum_list_map_update:
  "j < length xs \<Longrightarrow> sum_list (map f (xs[j := y])) + f (xs ! j) = sum_list (map f xs) + (f y :: nat)"
proof (induction xs arbitrary: j)
  case (Cons x xs)
  then show ?case by (cases j) auto
qed simp

lemma shutdown_step_works:
  assumes "shutdown_step m s t" and "shut_inv n m s"
  shows "work m t < work m s"
  using assms(1)
proof (cases rule: shutdown_step.cases)
  case (spawn_stop i)
  with assms(2) have "stoppers s ! i = NotSpawned" "i < length (stoppers s)"
    by (auto simp: shut_inv_def)
  with spawn_stop sum_list_map_update [of i "stoppers s" stopper_work Stopping] show ?thesis
    by (simp add: work_def)
next
  case (stop_returns j clean)
  with sum_list_map_update [of j "stoppers s" stopper_work "StoppedServer clean"] show ?thesis
    by (simp add: work_def)
next
  case (stop_done j clean)
  with sum_list_map_update [of j "stoppers s" stopper_work "StopDone clean"] show ?thesis
    by (simp add: work_def)
next
  case (flag_seen j)
  with sum_list_map_update [of j "map Not (seen s)" of_bool False] show ?thesis
    by (simp add: work_def map_update)
next
  case (cb_runs j)
  with sum_list_map_update [of j "callbacks s" cb_work "CbRunning (loop_var s)"] show ?thesis
    by (simp add: work_def)
next
  case (cb_returns j v)
  with sum_list_map_update [of j "callbacks s" cb_work "CbDone v"] show ?thesis
    by (simp add: work_def)
qed (auto simp: work_def)

lemma shutdown_steps_work:
  "(shutdown_step m ^^ k) s t \<Longrightarrow> shut_inv n m s \<Longrightarrow> k + work m t \<le> work m s \<and> shut_inv n m t"
proof (induction k arbitrary: t)
  case (Suc k)
  then obtain u where "(shutdown_step m ^^ k) s u" and "shutdown_step m u t" by auto
  with Suc.IH [of u] Suc.prems(2) shutdown_step_works [of m u t n] shut_inv_step [of m u t n] show ?case
    by simp
qed simp

lemma not_full:
  assumes "count_of P xs < int (length xs)"
  shows "\<exists>j < length xs. \<not> P (xs ! j)"
proof (rule ccontr)
  assume "\<not> ?thesis"
  then have "filter P xs = xs" by (auto simp: filter_id_conv in_set_conv_nth)
  with assms show False by (simp add: count_of_def)
qed

lemma stopper_steps:
  assumes "exit_code s = None" and "j < length (stoppers s)" and "stoppers s ! j \<noteq> NotSpawned" and "\<not> is_stopped (stoppers s ! j)"
  shows "\<exists>t. shutdown_step m s t \<and> exit_code t = None"
proof (cases "stoppers s ! j")
  case Stopping
  from shutdown_step.stop_returns [OF assms(1,2) this] assms(1) show ?thesis by force
next
  case (StoppedServer clean)
  from shutdown_step.stop_done [OF assms(1,2) this] assms(1) show ?thesis by force
qed (use assms(3,4) in auto)

lemma cb_steps:
  assumes "exit_code s = None" and "j < length (callbacks s)" and "\<not> is_done (callbacks s ! j)"
  shows "\<exists>t. shutdown_step m s t \<and> exit_code t = None"
proof (cases "callbacks s ! j")
  case CbReady
  from shutdown_step.cb_runs [OF assms(1,2) this] assms(1) show ?thesis by force
next
  case (CbRunning v)
  from shutdown_step.cb_returns [OF assms(1,2) this] assms(1) show ?thesis by force
qed (use assms(3) in auto)

lemma count_of_le: "count_of P xs \<le> int (length xs)"
  by (simp add: count_of_def)

text \<open>Without a forced exit there is always a next step, until the shutdown is complete.\<close>

lemma shut_progress:
  assumes inv: "shut_inv n m s" and e: "exit_code s = None" and "pc s \<noteq> ShutDone"
  shows "\<exists>t. shutdown_step m s t \<and> exit_code t = None"
proof (cases "pc s")
  case Serving
  from shutdown_step.signal [OF e this] e show ?thesis by force
next
  case (RejectLoop i)
  from shutdown_step.reject [OF e this] shutdown_step.rejected [OF e this] e show ?thesis
    by (cases "i < length (srvs s)") force+
next
  case Wait1
  moreover have "wg s = 0" using inv Wait1 by (simp add: shut_inv_def)
  ultimately show ?thesis using shutdown_step.wait1 [OF e] e by force
next
  case (StopLoop i)
  from shutdown_step.spawn_stop [OF e this] shutdown_step.spawned_stops [OF e this] e show ?thesis
    by (cases "i < length (srvs s)") force+
next
  case Wait2
  then have w: "wg s = int (length (stoppers s)) - count_of is_stopped (stoppers s)"
    "\<forall>j < length (stoppers s). stoppers s ! j \<noteq> NotSpawned"
    using inv by (auto simp: shut_inv_def)
  show ?thesis
  proof (cases "wg s = 0")
    case True
    from shutdown_step.wait2 [OF e Wait2 True] e show ?thesis by force
  next
    case False
    with w(1) count_of_le [of is_stopped "stoppers s"] obtain j where
      "j < length (stoppers s)" "\<not> is_stopped (stoppers s ! j)"
      using not_full [of is_stopped "stoppers s"] by auto
    with w(2) show ?thesis by (intro stopper_steps [OF e]) auto
  qed
next
  case (CbLoop i)
  show ?thesis
  proof (cases "i < m")
    case True
    from shutdown_step.spawn_cb [OF e CbLoop True] e show ?thesis by force
  next
    case False
    then have "m \<le> i" by simp
    from shutdown_step.spawned_cbs [OF e CbLoop this] e show ?thesis by force
  qed
next
  case Wait3
  then have w: "wg s = int (length (callbacks s)) - count_of is_done (callbacks s)"
    using inv by (auto simp: shut_inv_def)
  show ?thesis
  proof (cases "wg s = 0")
    case True
    from shutdown_step.wait3 [OF e Wait3 True] e show ?thesis by force
  next
    case False
    with w(1) count_of_le [of is_done "callbacks s"] obtain j where
      "j < length (callbacks s)" "\<not> is_done (callbacks s ! j)"
      using not_full [of is_done "callbacks s"] by auto
    then show ?thesis by (intro cb_steps [OF e])
  qed
next
  case CloseApp
  from shutdown_step.close_app [OF e this] e show ?thesis by force
qed (use assms(3) in simp)

lemma shut_completes:
  assumes "shut_inv n m s" and "exit_code s = None"
  shows "\<exists>t. (shutdown_step m)\<^sup>*\<^sup>* s t \<and> pc t = ShutDone \<and> exit_code t = None"
  using assms
proof (induction "work m s" arbitrary: s rule: less_induct)
  case less
  show ?case
  proof (cases "pc s = ShutDone")
    case True
    with less.prems show ?thesis by auto
  next
    case False
    from shut_progress [OF less.prems False] obtain u where u: "shutdown_step m s u" "exit_code u = None"
      by blast
    from less.hyps [OF shutdown_step_works [OF u(1) less.prems(1)] shut_inv_step [OF u(1) less.prems(1)] u(2)]
    show ?thesis using u(1) by (meson converse_rtranclp_into_rtranclp)
  qed
qed

subsection \<open>Properties\<close>

text \<open>The handlers of the servers stay what they were.\<close>

lemma handlers_kept:
  assumes "shutdown_reach m ss s"
  shows "map handler (srvs s) = map handler ss"
  using assms unfolding shutdown_reach_def
proof (induction rule: rtranclp_induct)
  case base
  show ?case by (simp add: proc_init_def)
next
  case (step s t)
  from step(2) have "map handler (srvs t) = map handler (srvs s)"
    by (cases rule: shutdown_step.cases) (auto simp: rejectReq_def map_update list_update_same_conv)
  with step.IH show ?case by simp
qed

text \<open>
  Claim C25: the phases are in order. Whatever the goroutines do: no server is being stopped before the
  flag of every server is written; a handler that sees the flag answers 503 with the closing text, none
  sees it before it is written, and one that does not see it answers as it always did. No callback is
  started before every \<open>stop\<close> has returned, be it that its server had stopped or that the timeout ended
  its \<open>Shutdown\<close> and the server still runs. The application is closed only when as many callback
  goroutines as there are callbacks have finished.
\<close>

theorem shutdown_phases:
  assumes "shutdown_reach m ss s"
  shows "((\<exists>j < length (stoppers s). stoppers s ! j \<noteq> NotSpawned) \<longrightarrow> (\<forall>j < length ss. reject (srvs s ! j))) \<and>
    (\<forall>j < length ss. (seen s ! j \<longrightarrow> reject (srvs s ! j)) \<and>
       (\<forall>r. mux_answer s j r = (if seen s ! j then (503, closed_text) else handler (ss ! j) r))) \<and>
    (callbacks s \<noteq> [] \<longrightarrow> (\<forall>j < length ss. \<exists>clean. stoppers s ! j = StopDone clean)) \<and>
    (pc s \<in> {CloseApp, ShutDone} \<longrightarrow> length (callbacks s) = m \<and> (\<forall>j < m. is_done (callbacks s ! j)))"
proof -
  have inv: "shut_inv (length ss) m s" using shut_inv_reach [OF assms] .
  then have "(\<exists>j < length (stoppers s). stoppers s ! j \<noteq> NotSpawned) \<longrightarrow> (\<forall>j < length ss. reject (srvs s ! j))"
    by (cases "pc s") (auto simp: shut_inv_def)
  moreover have "\<forall>j < length ss. (seen s ! j \<longrightarrow> reject (srvs s ! j)) \<and>
      (\<forall>r. mux_answer s j r = (if seen s ! j then (503, closed_text) else handler (ss ! j) r))"
  proof (intro allI impI conjI)
    fix j r
    assume "j < length ss"
    with inv have "j < length (srvs s)" by (simp add: shut_inv_def)
    with \<open>j < length ss\<close> have "handler (srvs s ! j) = handler (ss ! j)"
      using handlers_kept [OF assms] by (metis nth_map)
    then show "mux_answer s j r = (if seen s ! j then (503, closed_text) else handler (ss ! j) r)"
      by (simp add: mux_answer_def mux_ServeHTTP_def)
  qed (use inv in \<open>simp add: shut_inv_def\<close>)
  moreover have "callbacks s \<noteq> [] \<Longrightarrow> \<forall>j < length ss. \<exists>clean. stoppers s ! j = StopDone clean"
    using inv by (cases "pc s") (auto simp: shut_inv_def is_stopped_iff)
  moreover have "pc s \<in> {CloseApp, ShutDone} \<Longrightarrow> length (callbacks s) = m \<and> (\<forall>j < m. is_done (callbacks s ! j))"
    using inv by (auto simp: shut_inv_def)
  ultimately show ?thesis by blast
qed

text \<open>
  Claim C26: the shutdown ends. A run makes at most \<open>9 + 3 m + 5 n\<close> steps with \<open>n\<close> servers and \<open>m\<close> callbacks;
  no wait is for ever, since from every state it reaches without a forced exit the shutdown can be
  completed; and a run that cannot go on was completed or forced to exit.
\<close>

theorem shutdown_ends:
  assumes "(shutdown_step m ^^ k) (proc_init ss) s"
  shows "k \<le> 9 + 3 * m + 5 * length ss \<and>
    (exit_code s = None \<longrightarrow> (\<exists>t. (shutdown_step m)\<^sup>*\<^sup>* s t \<and> pc t = ShutDone \<and> exit_code t = None)) \<and>
    ((\<forall>t. \<not> shutdown_step m s t) \<longrightarrow> pc s = ShutDone \<or> exit_code s \<noteq> None)"
proof -
  have "sum_list (map of_bool (map Not (map reject ss))) \<le> length ss"
    by (induction ss) (simp_all add: of_bool_def)
  then have w: "work m (proc_init ss) \<le> 9 + 3 * m + 5 * length ss"
    by (simp add: work_def proc_init_def sum_list_replicate)
  from shutdown_steps_work [OF assms shut_inv_init] have
    "k + work m s \<le> work m (proc_init ss)" and inv: "shut_inv (length ss) m s" by auto
  with w shut_completes [OF inv] shut_progress [OF inv] show ?thesis by auto
qed

text \<open>The states of a run with no server and two callbacks.\<close>

definition two_callbacks :: "pc \<Rightarrow> int \<Rightarrow> nat \<Rightarrow> cb_state list \<Rightarrow> unit proc" where
  "two_callbacks p w v cs = \<lparr>pc = p, wg = w, srvs = [], seen = [], stoppers = [], loop_var = v, callbacks = cs,
     watching = True, exit_code = None\<rparr>"

lemma two_callbacks_spawn:
  "(shutdown_step 2)\<^sup>*\<^sup>* (proc_init []) (two_callbacks Wait3 2 1 [CbReady, CbReady])"
proof -
  have "(shutdown_step 2)\<^sup>*\<^sup>* (proc_init []) (proc_init [] :: unit proc)"
    by simp
  also have "shutdown_step 2 (proc_init []) (two_callbacks (RejectLoop 0) 0 0 [])"
    using shutdown_step.signal [of "proc_init []" 2] by (simp add: proc_init_def two_callbacks_def)
  also (rtranclp.rtrancl_into_rtrancl) have "shutdown_step 2 \<dots> (two_callbacks Wait1 0 0 [])"
    using shutdown_step.rejected [of "two_callbacks (RejectLoop 0) 0 0 []" 0 2] by (simp add: two_callbacks_def)
  also (rtranclp.rtrancl_into_rtrancl) have "shutdown_step 2 \<dots> (two_callbacks (StopLoop 0) 0 0 [])"
    using shutdown_step.wait1 [of "two_callbacks Wait1 0 0 []" 2] by (simp add: two_callbacks_def)
  also (rtranclp.rtrancl_into_rtrancl) have "shutdown_step 2 \<dots> (two_callbacks Wait2 0 0 [])"
    using shutdown_step.spawned_stops [of "two_callbacks (StopLoop 0) 0 0 []" 0 2] by (simp add: two_callbacks_def)
  also (rtranclp.rtrancl_into_rtrancl) have "shutdown_step 2 \<dots> (two_callbacks (CbLoop 0) 2 0 [])"
    using shutdown_step.wait2 [of "two_callbacks Wait2 0 0 []" 2] by (simp add: two_callbacks_def)
  also (rtranclp.rtrancl_into_rtrancl) have "shutdown_step 2 \<dots> (two_callbacks (CbLoop 1) 2 0 [CbReady])"
    using shutdown_step.spawn_cb [of "two_callbacks (CbLoop 0) 2 0 []" 0 2] by (simp add: two_callbacks_def)
  also (rtranclp.rtrancl_into_rtrancl) have "shutdown_step 2 \<dots> (two_callbacks (CbLoop 2) 2 1 [CbReady, CbReady])"
    using shutdown_step.spawn_cb [of "two_callbacks (CbLoop 1) 2 0 [CbReady]" 1 2]
    by (simp add: two_callbacks_def numeral_2_eq_2)
  also (rtranclp.rtrancl_into_rtrancl) have "shutdown_step 2 \<dots> (two_callbacks Wait3 2 1 [CbReady, CbReady])"
    using shutdown_step.spawned_cbs [of "two_callbacks (CbLoop 2) 2 1 [CbReady, CbReady]" 2 2]
    by (simp add: two_callbacks_def)
  finally (rtranclp.rtrancl_into_rtrancl) show ?thesis .
qed

lemma two_callbacks_run:
  "(shutdown_step 2)\<^sup>*\<^sup>* (two_callbacks Wait3 2 1 [CbReady, CbReady])
     (two_callbacks ShutDone 0 1 [CbDone 1, CbDone 1])"
proof -
  have "(shutdown_step 2)\<^sup>*\<^sup>* (two_callbacks Wait3 2 1 [CbReady, CbReady])
      (two_callbacks Wait3 2 1 [CbReady, CbReady])"
    by simp
  also have "shutdown_step 2 (two_callbacks Wait3 2 1 [CbReady, CbReady])
      (two_callbacks Wait3 2 1 [CbRunning 1, CbReady])"
    using shutdown_step.cb_runs [of "two_callbacks Wait3 2 1 [CbReady, CbReady]" 0 2]
    by (simp add: two_callbacks_def)
  also (rtranclp.rtrancl_into_rtrancl) have "shutdown_step 2 \<dots> (two_callbacks Wait3 2 1 [CbRunning 1, CbRunning 1])"
    using shutdown_step.cb_runs [of "two_callbacks Wait3 2 1 [CbRunning 1, CbReady]" 1 2]
    by (simp add: two_callbacks_def)
  also (rtranclp.rtrancl_into_rtrancl) have "shutdown_step 2 \<dots> (two_callbacks Wait3 1 1 [CbDone 1, CbRunning 1])"
    using shutdown_step.cb_returns [of "two_callbacks Wait3 2 1 [CbRunning 1, CbRunning 1]" 0 1 2]
    by (simp add: two_callbacks_def)
  also (rtranclp.rtrancl_into_rtrancl) have "shutdown_step 2 \<dots> (two_callbacks Wait3 0 1 [CbDone 1, CbDone 1])"
    using shutdown_step.cb_returns [of "two_callbacks Wait3 1 1 [CbDone 1, CbRunning 1]" 1 1 2]
    by (simp add: two_callbacks_def)
  also (rtranclp.rtrancl_into_rtrancl) have "shutdown_step 2 \<dots> (two_callbacks CloseApp 0 1 [CbDone 1, CbDone 1])"
    using shutdown_step.wait3 [of "two_callbacks Wait3 0 1 [CbDone 1, CbDone 1]" 2]
    by (simp add: two_callbacks_def)
  also (rtranclp.rtrancl_into_rtrancl) have "shutdown_step 2 \<dots> (two_callbacks ShutDone 0 1 [CbDone 1, CbDone 1])"
    using shutdown_step.close_app [of "two_callbacks CloseApp 0 1 [CbDone 1, CbDone 1]" 2]
    by (simp add: two_callbacks_def)
  finally (rtranclp.rtrancl_into_rtrancl) show ?thesis .
qed

text \<open>
  A callback may be skipped and another one run twice. The goroutines read the shared loop
  variable: with two callbacks there is a complete, unforced shutdown in which both goroutines call the
  second one, and the first is never called.
\<close>

theorem callback_skipped:
  "\<exists>s :: unit proc. shutdown_reach 2 [] s \<and> pc s = ShutDone \<and> exit_code s = None \<and>
    callbacks s = [CbDone 1, CbDone 1]"
proof -
  have "shutdown_reach 2 [] (two_callbacks ShutDone 0 1 [CbDone 1, CbDone 1])"
    unfolding shutdown_reach_def using two_callbacks_spawn two_callbacks_run by (rule rtranclp_trans)
  then show ?thesis by (intro exI) (auto simp: two_callbacks_def)
qed

text \<open>
  A run with one server whose \<open>Shutdown\<close> is ended by the timeout: the callback is started all the same, while
  the server still runs. Its handlers need not have seen the flag: then they still answer.
\<close>

definition one_server :: "'req Server \<Rightarrow> bool \<Rightarrow> pc \<Rightarrow> int \<Rightarrow> stopper \<Rightarrow> cb_state list \<Rightarrow> 'req proc" where
  "one_server srv b p w st cs = \<lparr>pc = p, wg = w, srvs = [srv\<lparr>reject := b\<rparr>], seen = [False], stoppers = [st],
     loop_var = 0, callbacks = cs, watching = True, exit_code = None\<rparr>"

lemma shutdown_to: "shutdown_step m s t \<Longrightarrow> t = u \<Longrightarrow> (shutdown_step m)\<^sup>*\<^sup>* s u"
  by auto

lemma one_server_run:
  assumes "\<not> reject srv"
  shows "shutdown_reach 1 [srv] (one_server srv True (CbLoop 1) 1 (StopDone False) [CbReady])"
proof -
  note defs = proc_init_def one_server_def rejectReq_def
  have "(shutdown_step 1)\<^sup>*\<^sup>* (proc_init [srv]) (one_server srv False (RejectLoop 0) 1 NotSpawned [])"
    using assms by (intro shutdown_to [OF signal]) (auto simp: defs)
  also have "(shutdown_step 1)\<^sup>*\<^sup>* \<dots> (one_server srv True (RejectLoop 1) 0 NotSpawned [])"
    by (rule shutdown_to [OF shutdown_step.reject [where i = 0]]) (simp_all add: defs)
  also have "(shutdown_step 1)\<^sup>*\<^sup>* \<dots> (one_server srv True Wait1 0 NotSpawned [])"
    by (rule shutdown_to [OF rejected [where i = 1]]) (simp_all add: defs)
  also have "(shutdown_step 1)\<^sup>*\<^sup>* \<dots> (one_server srv True (StopLoop 0) 1 NotSpawned [])"
    by (rule shutdown_to [OF wait1]) (simp_all add: defs)
  also have "(shutdown_step 1)\<^sup>*\<^sup>* \<dots> (one_server srv True (StopLoop 1) 1 Stopping [])"
    by (rule shutdown_to [OF spawn_stop [where i = 0]]) (simp_all add: defs)
  also have "(shutdown_step 1)\<^sup>*\<^sup>* \<dots> (one_server srv True Wait2 1 Stopping [])"
    by (rule shutdown_to [OF spawned_stops [where i = 1]]) (simp_all add: defs)
  also have "(shutdown_step 1)\<^sup>*\<^sup>* \<dots> (one_server srv True Wait2 1 (StoppedServer False) [])"
    by (rule shutdown_to [OF stop_returns [where j = 0 and clean = False]]) (simp_all add: defs)
  also have "(shutdown_step 1)\<^sup>*\<^sup>* \<dots> (one_server srv True Wait2 0 (StopDone False) [])"
    by (rule shutdown_to [OF stop_done [where j = 0 and clean = False]]) (simp_all add: defs)
  also have "(shutdown_step 1)\<^sup>*\<^sup>* \<dots> (one_server srv True (CbLoop 0) 1 (StopDone False) [])"
    by (rule shutdown_to [OF wait2]) (simp_all add: defs)
  also have "(shutdown_step 1)\<^sup>*\<^sup>* \<dots> (one_server srv True (CbLoop 1) 1 (StopDone False) [CbReady])"
    by (rule shutdown_to [OF spawn_cb [where i = 0]]) (simp_all add: defs)
  finally show ?thesis unfolding shutdown_reach_def .
qed

theorem callbacks_beside_running_server:
  assumes "\<not> reject srv"
  shows "\<exists>s. shutdown_reach 1 [srv] s \<and> callbacks s = [CbReady] \<and> stoppers s = [StopDone False] \<and>
    mux_answer s 0 = handler srv"
  using one_server_run [OF assms]
  by (intro exI conjI) (auto simp: one_server_def mux_answer_def mux_ServeHTTP_def fun_eq_iff)

theorem shutdown_phases_witness:
  "reject (srvs (one_server \<lparr>reject = False, handler = \<lambda>r :: nat. (200, [])\<rparr> True (CbLoop 1) 1
      (StopDone False) [CbReady]) ! 0)"
  using shutdown_phases [OF one_server_run [of "\<lparr>reject = False, handler = \<lambda>r :: nat. (200, [])\<rparr>"]]
  by (simp add: one_server_def)

theorem shutdown_ends_witness:
  "\<exists>k s. (shutdown_step 2 ^^ k) (proc_init [] :: unit proc) s \<and> pc s = ShutDone \<and> k \<le> 15"
proof -
  have "(shutdown_step 2)\<^sup>*\<^sup>* (proc_init []) (two_callbacks ShutDone 0 1 [CbDone 1, CbDone 1])"
    using two_callbacks_spawn two_callbacks_run by (rule rtranclp_trans)
  then obtain k where k: "(shutdown_step 2 ^^ k) (proc_init []) (two_callbacks ShutDone 0 1 [CbDone 1, CbDone 1])"
    by (auto dest: rtranclp_imp_relpowp)
  from shutdown_ends [OF k] k show ?thesis
    by (intro exI [of _ k] exI [of _ "two_callbacks ShutDone 0 1 [CbDone 1, CbDone 1]"]) (simp add: two_callbacks_def)
qed

end
