(* ===== verification/Orm_Model.thy ===== *)
theory Orm_Model
  imports Prelude
begin

text \<open>
  The model registry of \<open>homework_subquery/model\<close>: \<open>parseTag\<close>, \<open>underscoreName\<close>, \<open>parseModel\<close>,
  \<open>Register\<close> with its options, and \<open>Get\<close>.

  What \<open>reflect\<close> says of a Go type is an argument: \<open>go_type\<close>. A \<open>*Field\<close> is shared by the three
  fields of a \<open>Model\<close>, and \<open>WithColumnName\<close> writes through it: here \<open>Fields\<close> holds the fields and the
  two maps hold positions in it. Type and field names are ASCII.
\<close>

subsection \<open>Types and models\<close>

record struct_field =
  sf_Name :: string
  sf_Tag :: string
  sf_Type :: nat
  sf_Offset :: nat

datatype go_type = StructPtr string "struct_field list" | NotStructPtr

text \<open>
  The errors of \<open>internal/errs\<close>, and those of the driver. \<open>PanicNilModel\<close> is a nil dereference,
  \<open>PanicUnexported\<close> a use of an unexported field through \<open>reflect\<close>; \<open>ErrDiverges\<close> marks a build that has
  used up the recursion depth it was given, which no call in the code returns.
\<close>

datatype orm_error = ErrPointerOnly | ErrUnknownField string | ErrUnknownColumn string
  | ErrInvalidTagContent string | ErrInsertZeroRow | ErrNoUpdatedColumns
  | ErrUnsupportedExpressionType | ErrUnsupportedSelectable | ErrUnsupportedAssignableType
  | ErrNoRows | ErrTooManyReturnedColumns | ErrDriver string | ErrTxDone
  | ErrFailToRollbackTx "orm_error option" orm_error bool | PanicUnexported | PanicNilModel | ErrDiverges

text \<open>
  A value: its type, an index of \<open>types\<close>, and what its method \<open>TableName\<close> gives, when it has one.
  \<open>sf_Tag\<close> is the value of the key \<open>orm\<close> of the tag.
\<close>

record go_val =
  v_type :: nat
  v_TableName :: "string option"

record Field =
  ColName :: string
  GoName :: string
  Type :: nat
  Index :: nat
  Offset :: nat

record Model =
  TableName :: string
  Fields :: "Field list"
  FieldMap :: "string \<Rightarrow> nat option"
  ColumnMap :: "string \<Rightarrow> nat option"

subsection \<open>Parsing\<close>

definition IsUpper :: "char \<Rightarrow> bool" where
  "IsUpper c \<longleftrightarrow> 65 \<le> (of_char c :: nat) \<and> (of_char c :: nat) \<le> 90"

definition ToLower :: "char \<Rightarrow> char" where
  "ToLower c = (if IsUpper c then char_of ((of_char c :: nat) + 32) else c)"

fun underscore_from :: "bool \<Rightarrow> string \<Rightarrow> string" where
  "underscore_from first [] = []"
| "underscore_from first (c # cs) =
     (if IsUpper c then (if first then [] else ''_'') @ ToLower c # underscore_from False cs
      else c # underscore_from False cs)"

definition underscoreName :: "string \<Rightarrow> string" where
  "underscoreName tableName = underscore_from True tableName"

fun parse_pairs :: "string list \<Rightarrow> (string \<Rightarrow> string option) \<Rightarrow> (orm_error, string \<Rightarrow> string option) result" where
  "parse_pairs [] res = Inr res"
| "parse_pairs (pair # pairs) res =
     (case split_on (CHR ''='') pair of
        [k, v] \<Rightarrow> parse_pairs pairs (res(k \<mapsto> v))
      | _ \<Rightarrow> Inl (ErrInvalidTagContent pair))"

definition parseTag :: "string \<Rightarrow> (orm_error, string \<Rightarrow> string option) result" where
  "parseTag ormTag =
     (if ormTag = [] then Inr Map.empty else parse_pairs (split_on (CHR '','') ormTag) Map.empty)"

text \<open>The loop over the fields; \<open>i\<close> is the index of the next one.\<close>

definition column_name :: "string \<Rightarrow> (string \<Rightarrow> string option) \<Rightarrow> string" where
  "column_name name tags =
     (case tags ''column'' of
        None \<Rightarrow> underscoreName name
      | Some colName \<Rightarrow> if colName = [] then underscoreName name else colName)"

fun parse_fields :: "nat \<Rightarrow> struct_field list \<Rightarrow> Model \<Rightarrow> (orm_error, Model) result" where
  "parse_fields i [] m = Inr m"
| "parse_fields i (fd # fds) m =
     bind_result (parseTag (sf_Tag fd)) (\<lambda>tags.
     let colName = column_name (sf_Name fd) tags;
         f = \<lparr>ColName = colName, GoName = sf_Name fd, Type = sf_Type fd, Index = i, Offset = sf_Offset fd\<rparr>
     in parse_fields (i + 1) fds
          (m\<lparr>FieldMap := (FieldMap m)(sf_Name fd \<mapsto> i), Fields := Fields m @ [f],
             ColumnMap := (ColumnMap m)(colName \<mapsto> i)\<rparr>))"

definition parseModel :: "(nat \<Rightarrow> go_type) \<Rightarrow> go_val \<Rightarrow> (orm_error, Model) result" where
  "parseModel types val =
     (case types (v_type val) of
        NotStructPtr \<Rightarrow> Inl ErrPointerOnly
      | StructPtr name fds \<Rightarrow>
          bind_result
            (parse_fields 0 fds \<lparr>TableName = [], Fields = [], FieldMap = Map.empty, ColumnMap = Map.empty\<rparr>)
            (\<lambda>m. let tableName = (case v_TableName val of None \<Rightarrow> [] | Some t \<Rightarrow> t) in
               Inr (m\<lparr>TableName := (if tableName = [] then underscoreName name else tableName)\<rparr>)))"

subsection \<open>The registry\<close>

type_synonym model_option = "Model \<Rightarrow> (orm_error, Model) result"

definition WithTableName :: "string \<Rightarrow> model_option" where
  "WithTableName tableName m = Inr (m\<lparr>TableName := tableName\<rparr>)"

definition WithColumnName :: "string \<Rightarrow> string \<Rightarrow> model_option" where
  "WithColumnName fd columnName m =
     (case FieldMap m fd of
        None \<Rightarrow> Inl (ErrUnknownField fd)
      | Some i \<Rightarrow> Inr (m\<lparr>Fields := (Fields m)[i := (Fields m ! i)\<lparr>ColName := columnName\<rparr>]\<rparr>))"

fun apply_options :: "model_option list \<Rightarrow> Model \<Rightarrow> (orm_error, Model) result" where
  "apply_options [] m = Inr m"
| "apply_options (opt # opts) m = bind_result (opt m) (apply_options opts)"

record registry =
  models :: "nat \<Rightarrow> Model option"

definition NewRegistry :: registry where
  "NewRegistry = \<lparr>models = Map.empty\<rparr>"

definition Register ::
  "(nat \<Rightarrow> go_type) \<Rightarrow> go_val \<Rightarrow> model_option list \<Rightarrow> registry \<Rightarrow> (orm_error, Model) result \<times> registry" where
  "Register types val opts r =
     (case bind_result (parseModel types val) (apply_options opts) of
        Inl e \<Rightarrow> (Inl e, r)
      | Inr m \<Rightarrow> (Inr m, r\<lparr>models := (models r)(v_type val \<mapsto> m)\<rparr>))"

definition registry_Get :: "(nat \<Rightarrow> go_type) \<Rightarrow> go_val \<Rightarrow> registry \<Rightarrow> (orm_error, Model) result \<times> registry" where
  "registry_Get types val r =
     (case models r (v_type val) of
        Some m \<Rightarrow> (Inr m, r)
      | None \<Rightarrow> Register types val [] r)"

subsection \<open>Column names\<close>

text \<open>The inverse of \<open>underscoreName\<close> on exported Go names without an underscore.\<close>

definition ToUpper :: "char \<Rightarrow> char" where
  "ToUpper c = char_of ((of_char c :: nat) - 32)"

fun camel_from :: "string \<Rightarrow> string" where
  "camel_from (u # c # cs) = (if u = CHR ''_'' then ToUpper c # camel_from cs else u # camel_from (c # cs))"
| "camel_from cs = cs"

definition camelName :: "string \<Rightarrow> string" where
  "camelName s = (case s of [] \<Rightarrow> [] | c # cs \<Rightarrow> ToUpper c # camel_from cs)"

lemma ToUpper_ToLower: "IsUpper c \<Longrightarrow> ToUpper (ToLower c) = c"
  by (simp add: ToUpper_def ToLower_def IsUpper_def of_char_of take_bit_nat_def)

lemma ToLower_not_underscore: "IsUpper c \<Longrightarrow> ToLower c \<noteq> CHR ''_''"
proof
  assume "IsUpper c" and "ToLower c = CHR ''_''"
  then have "of_char (ToLower c) = (95 :: nat)" by simp
  with \<open>IsUpper c\<close> show False
    by (simp add: ToLower_def IsUpper_def of_char_of take_bit_nat_def)
qed

lemma camel_underscore: "CHR ''_'' \<notin> set s \<Longrightarrow> camel_from (underscore_from False s) = s"
proof (induction s)
  case Nil
  then show ?case by simp
next
  case (Cons c s)
  then have "camel_from (c # underscore_from False s) = c # s" if "\<not> IsUpper c"
    by (cases "underscore_from False s") auto
  with Cons show ?case by (simp add: ToUpper_ToLower)
qed

lemma camelName_underscoreName:
  assumes "s \<noteq> []" and "IsUpper (hd s)" and "CHR ''_'' \<notin> set s"
  shows "camelName (underscoreName s) = s"
  using assms by (cases s) (auto simp: camelName_def underscoreName_def ToUpper_ToLower camel_underscore)

subsection \<open>Models\<close>

text \<open>
  A model is consistent when its maps find the fields by their Go names and by their column names.
\<close>

definition fields_found :: "Model \<Rightarrow> bool" where
  "fields_found m \<longleftrightarrow>
     (\<forall>g i. FieldMap m g = Some i \<longleftrightarrow> i < length (Fields m) \<and> GoName (Fields m ! i) = g)"

definition columns_found :: "Model \<Rightarrow> bool" where
  "columns_found m \<longleftrightarrow>
     (\<forall>c i. ColumnMap m c = Some i \<longrightarrow> i < length (Fields m) \<and> ColName (Fields m ! i) = c) \<and>
     (\<forall>i < length (Fields m). ColumnMap m (ColName (Fields m ! i)) \<noteq> None)"

lemma parse_fields_found:
  assumes "parse_fields i fds m = Inr m'" and "i = length (Fields m)"
    and "distinct (map GoName (Fields m) @ map sf_Name fds)"
    and "fields_found m" and "columns_found m"
  shows "fields_found m' \<and> columns_found m' \<and> map GoName (Fields m') = map GoName (Fields m) @ map sf_Name fds"
  using assms
proof (induction fds arbitrary: i m)
  case Nil
  then show ?case by simp
next
  case (Cons fd fds)
  from Cons.prems(1) obtain tags where
    rec: "parse_fields (i + 1) fds (m\<lparr>FieldMap := (FieldMap m)(sf_Name fd \<mapsto> i),
      Fields := Fields m @ [\<lparr>ColName = column_name (sf_Name fd) tags, GoName = sf_Name fd, Type = sf_Type fd,
        Index = i, Offset = sf_Offset fd\<rparr>],
      ColumnMap := (ColumnMap m)(column_name (sf_Name fd) tags \<mapsto> i)\<rparr>) = Inr m'"
    (is "parse_fields _ _ ?m = _")
    by (auto simp: bind_result_Inr_iff Let_def)
  have new: "GoName (Fields m ! j) \<noteq> sf_Name fd" if "j < length (Fields m)" for j
    using that Cons.prems(3) by (metis (no_types, lifting) IntI distinct_append empty_iff length_map
        list.set_intros(1) list.simps(9) nth_map nth_mem)
  have "fields_found ?m"
    using Cons.prems(2,4) new by (auto simp: fields_found_def nth_append less_Suc_eq)
  moreover have "columns_found ?m"
    using Cons.prems(2,5) by (auto simp: columns_found_def nth_append less_Suc_eq split: if_splits)
  moreover have "distinct (map GoName (Fields ?m) @ map sf_Name fds)"
    using Cons.prems(3) by auto
  moreover have "i + 1 = length (Fields ?m)" using Cons.prems(2) by simp
  ultimately show ?case
    using Cons.IH [OF rec] by simp
qed

text \<open>What each field of the struct becomes.\<close>

lemma parse_fields_nth:
  assumes "parse_fields i fds m = Inr m'" and "i = length (Fields m)" and "j < length fds"
  shows "\<exists>tags. parseTag (sf_Tag (fds ! j)) = Inr tags \<and> Fields m' ! (i + j) =
    \<lparr>ColName = column_name (sf_Name (fds ! j)) tags, GoName = sf_Name (fds ! j), Type = sf_Type (fds ! j),
     Index = i + j, Offset = sf_Offset (fds ! j)\<rparr>"
  using assms
proof (induction fds arbitrary: i m j)
  case (Cons fd fds)
  have keeps: "Fields m' ! k = Fields m ! k" if "parse_fields i fds m = Inr m'" "k < length (Fields m)" for i fds m k
    using that by (induction fds arbitrary: i m) (auto simp: bind_result_Inr_iff Let_def nth_append)
  from Cons.prems(1) obtain tags where t: "parseTag (sf_Tag fd) = Inr tags" and
    rec: "parse_fields (i + 1) fds (m\<lparr>FieldMap := (FieldMap m)(sf_Name fd \<mapsto> i),
      Fields := Fields m @ [\<lparr>ColName = column_name (sf_Name fd) tags, GoName = sf_Name fd, Type = sf_Type fd,
        Index = i, Offset = sf_Offset fd\<rparr>],
      ColumnMap := (ColumnMap m)(column_name (sf_Name fd) tags \<mapsto> i)\<rparr>) = Inr m'"
    by (auto simp: bind_result_Inr_iff Let_def)
  show ?case
  proof (cases j)
    case 0
    with t keeps [OF rec, of i] Cons.prems(2) show ?thesis by simp
  next
    case (Suc k)
    with Cons.IH [OF rec, of k] Cons.prems(2,3) show ?thesis by simp
  qed
qed simp

subsection \<open>Properties\<close>

text \<open>
  \<open>underscoreName\<close> loses nothing: an exported Go name without an underscore can be read back
  from its column name, so two such fields never share a column.
\<close>

theorem underscoreName_roundtrip:
  assumes "s \<noteq> []" and "IsUpper (hd s)" and "CHR ''_'' \<notin> set s"
  shows "camelName (underscoreName s) = s"
  using assms by (rule camelName_underscoreName)

text \<open>
  Claim C38: the model of a struct is consistent. Its table name is what the method \<open>TableName\<close> gives, or the
  underscored name of the type. Its fields are those of the struct in order, each with its position, type
  and offset and with the column of its tag or its underscored name; the field map finds exactly them by
  their Go names, and the column map finds for every field's column a field with that column.
\<close>

theorem parseModel_consistent:
  assumes "types (v_type val) = StructPtr name fds" and "distinct (map sf_Name fds)"
    and "parseModel types val = Inr m"
  shows "map GoName (Fields m) = map sf_Name fds \<and> fields_found m \<and> columns_found m
    \<and> TableName m = (case v_TableName val of None \<Rightarrow> underscoreName name | Some t \<Rightarrow> if t = [] then underscoreName name else t)
    \<and> (\<forall>i < length fds. \<exists>tags. parseTag (sf_Tag (fds ! i)) = Inr tags \<and> Fields m ! i =
         \<lparr>ColName = column_name (sf_Name (fds ! i)) tags, GoName = sf_Name (fds ! i), Type = sf_Type (fds ! i),
          Index = i, Offset = sf_Offset (fds ! i)\<rparr>)"
proof -
  let ?m0 = "\<lparr>TableName = [], Fields = [], FieldMap = Map.empty, ColumnMap = Map.empty\<rparr>"
  from assms obtain m1 where m1: "parse_fields 0 fds ?m0 = Inr m1" and m: "m = m1\<lparr>TableName :=
      (case v_TableName val of None \<Rightarrow> underscoreName name | Some t \<Rightarrow> if t = [] then underscoreName name else t)\<rparr>"
    by (auto simp: parseModel_def bind_result_Inr_iff Let_def split: option.splits)
  have "fields_found ?m0" "columns_found ?m0" by (simp_all add: fields_found_def columns_found_def)
  from parse_fields_found [OF m1 _ _ this] assms(2) parse_fields_nth [OF m1] m show ?thesis
    by (auto simp: fields_found_def columns_found_def)
qed

text \<open>
  \<open>WithColumnName\<close> leaves the column map behind. Renaming a field to a column the model did not
  have changes the field, and with it the SQL that is built, but the new column is not in
  \<open>ColumnMap\<close>, where a result's columns are looked up, and the old one still is.
\<close>

theorem WithColumnName_stale_map:
  assumes "fields_found m" and "FieldMap m fd = Some i" and "ColumnMap m c = None"
  shows "\<exists>m'. WithColumnName fd c m = Inr m' \<and> ColName (Fields m' ! i) = c \<and> ColumnMap m' c = None \<and>
    ColumnMap m' = ColumnMap m \<and> \<not> columns_found m'"
proof -
  have i: "i < length (Fields m)" using assms(1,2) by (auto simp: fields_found_def)
  then have "\<not> columns_found (m\<lparr>Fields := (Fields m)[i := (Fields m ! i)\<lparr>ColName := c\<rparr>]\<rparr>)"
    using assms(3) by (auto simp: columns_found_def intro!: exI [of _ i])
  with i assms show ?thesis by (simp add: WithColumnName_def)
qed

text \<open>
  The registry answers consistently: once \<open>Get\<close> has given a model for a type, it gives the same model
  for every value of that type and changes nothing.
\<close>

theorem registry_Get_stable:
  assumes "registry_Get types val r = (Inr m, r')" and "v_type val' = v_type val"
  shows "registry_Get types val' r' = (Inr m, r')"
  using assms by (auto simp: registry_Get_def Register_def split: option.splits sum.splits)

subsection \<open>A concrete model\<close>

definition user_types :: "nat \<Rightarrow> go_type" where
  "user_types t = (if t = 0 then StructPtr ''User''
     [\<lparr>sf_Name = ''Id'', sf_Tag = [], sf_Type = 0, sf_Offset = 0\<rparr>,
      \<lparr>sf_Name = ''FirstName'', sf_Tag = ''column=first'', sf_Type = 1, sf_Offset = 8\<rparr>]
     else NotStructPtr)"

definition user_val :: go_val where
  "user_val = \<lparr>v_type = 0, v_TableName = None\<rparr>"

definition user_model :: Model where
  "user_model = \<lparr>TableName = ''user'',
     Fields = [\<lparr>ColName = ''id'', GoName = ''Id'', Type = 0, Index = 0, Offset = 0\<rparr>,
               \<lparr>ColName = ''first'', GoName = ''FirstName'', Type = 1, Index = 1, Offset = 8\<rparr>],
     FieldMap = [''Id'' \<mapsto> 0, ''FirstName'' \<mapsto> 1], ColumnMap = [''id'' \<mapsto> 0, ''first'' \<mapsto> 1]\<rparr>"

lemma user_parsed: "parseModel user_types user_val = Inr user_model"
  by (simp add: parseModel_def user_types_def user_val_def user_model_def parseTag_def column_name_def
        underscoreName_def IsUpper_def ToLower_def char_of_def Let_def bit_Suc_0_iff)

theorem underscoreName_roundtrip_witness: "camelName (underscoreName ''FirstName'') = ''FirstName''"
  by (rule underscoreName_roundtrip) (simp_all add: IsUpper_def)

theorem parseModel_consistent_witness:
  "map GoName (Fields user_model) = [''Id'', ''FirstName''] \<and> fields_found user_model \<and> columns_found user_model"
  using parseModel_consistent [OF _ _ user_parsed] by (simp add: user_types_def user_val_def)

theorem WithColumnName_stale_map_witness:
  "\<exists>m'. WithColumnName ''Id'' ''pk'' user_model = Inr m' \<and> ColName (Fields m' ! 0) = ''pk'' \<and> ColumnMap m' ''pk'' = None"
proof -
  have "fields_found user_model"
    by (auto simp: fields_found_def user_model_def nth_Cons' split: if_splits)
  from WithColumnName_stale_map [OF this, of "''Id''" 0 "''pk''"] show ?thesis
    by (auto simp: user_model_def)
qed

end
