(* ===== verification/Orm_Builder.thy ===== *)
theory Orm_Builder
  imports Orm_Model
begin

text \<open>
  The expressions, table references and builder of \<open>homework_subquery\<close>: \<open>column.go\<close>,
  \<open>aggregate.go\<close>, \<open>expression.go\<close>, \<open>predicate.go\<close>, \<open>table.go\<close>, \<open>builder.go\<close>.

  A \<open>Subquery\<close> holds a pointer to the \<open>Selector\<close> it was made from and a pointer to the string that
  caches its SQL; both are shared by every copy of the \<open>Subquery\<close>. They are references into a heap
  here. The arguments it caches are a plain field, so writing them changes a copy only.

  The builder writes to a string and appends to its arguments; an operation is a function of the
  builder's state that may fail and leaves what it has written. The registry's \<open>Get\<close> is a function of
  the value (\<open>registry_Get_stable\<close>). Arguments of a query are of an arbitrary type, beside the
  integers and slices the builder itself makes.
\<close>

subsection \<open>Expressions and tables\<close>

datatype 'x val = VInt int | VAny 'x | VSlice "'x val list"

datatype 'x tref =
    Table go_val string
  | SubqueryT "'x subq"
  | Join "'x tref" "'x tref option" string "'x expr list" "string list"
and 'x subq =
    Subquery (sq_qb: nat) (sq_alias: string) (sq_cache: nat) (sq_args: "'x val list")
      (sq_model: "Model option") (sq_column: "'x selectable list")
and 'x col = Column (c_table: "'x tref option") (c_name: string) (c_alias: string)
and 'x agg = Aggregate (a_table: "'x tref option") (a_fn: string) (a_arg: string) (a_alias: string)
and 'x expr =
    EColumn "'x col"
  | EAggregate "'x agg"
  | EValue "'x val"
  | ERaw string "'x val list"
  | EMath "'x expr option" string "'x expr option"
  | EPredicate "'x expr option" string "'x expr option"
  | EBinary "'x expr option" string "'x expr option"
  | ESubquery "'x subq"
  | ESubqueryExpr "'x subq" string
and 'x selectable = SColumn "'x col" | SAggregate "'x agg" | SRaw string "'x val list"

fun tableAlias :: "'x tref \<Rightarrow> string" where
  "tableAlias (Table _ alias) = alias"
| "tableAlias (SubqueryT s) = sq_alias s"
| "tableAlias (Join _ _ _ _ _) = []"

fun fieldName :: "'x selectable \<Rightarrow> string" where
  "fieldName (SColumn c) = c_name c"
| "fieldName (SAggregate a) = a_arg a"
| "fieldName (SRaw _ _) = []"

subsection \<open>Constructors\<close>

text \<open>\<open>any\<close> arguments: an expression, or a value that is made one.\<close>

definition valueOf :: "'x val \<Rightarrow> 'x expr" where
  "valueOf v = EValue v"

definition exprOf :: "'x expr + 'x val \<Rightarrow> 'x expr" where
  "exprOf arg = (case arg of Inl e \<Rightarrow> e | Inr v \<Rightarrow> valueOf v)"

definition C :: "string \<Rightarrow> 'x col" where
  "C name = Column None name []"

definition Column_As :: "'x col \<Rightarrow> string \<Rightarrow> 'x col" where
  "Column_As c alias = Column None (c_name c) alias"

definition Column_Add :: "'x col \<Rightarrow> int \<Rightarrow> 'x expr" where
  "Column_Add c delta = EMath (Some (EColumn c)) ''+'' (Some (EValue (VInt delta)))"

definition Column_Multi :: "'x col \<Rightarrow> int \<Rightarrow> 'x expr" where
  "Column_Multi c delta = EMath (Some (EColumn c)) ''+'' (Some (EValue (VInt delta)))"

definition Column_EQ :: "'x col \<Rightarrow> 'x expr + 'x val \<Rightarrow> 'x expr" where
  "Column_EQ c arg = EPredicate (Some (EColumn c)) ''='' (Some (exprOf arg))"

definition Column_LT :: "'x col \<Rightarrow> 'x expr + 'x val \<Rightarrow> 'x expr" where
  "Column_LT c arg = EPredicate (Some (EColumn c)) ''<'' (Some (exprOf arg))"

definition Column_GT :: "'x col \<Rightarrow> 'x expr + 'x val \<Rightarrow> 'x expr" where
  "Column_GT c arg = EPredicate (Some (EColumn c)) ''>'' (Some (exprOf arg))"

definition Column_In :: "'x col \<Rightarrow> 'x val list \<Rightarrow> 'x expr" where
  "Column_In c vals = EPredicate (Some (EColumn c)) ''IN'' (Some (valueOf (VSlice vals)))"

definition Column_InQuery :: "'x col \<Rightarrow> 'x subq \<Rightarrow> 'x expr" where
  "Column_InQuery c sub = EPredicate (Some (EColumn c)) ''IN'' (Some (ESubquery sub))"

text \<open>\<open>Math_Add\<close> and \<open>Math_Multi\<close> are methods of a \<open>MathExpr\<close>, here the expression \<open>m\<close>.\<close>

definition Math_Add :: "'x expr \<Rightarrow> 'x val \<Rightarrow> 'x expr" where
  "Math_Add m v = EMath (Some m) ''+'' (Some (valueOf v))"

definition Math_Multi :: "'x expr \<Rightarrow> 'x val \<Rightarrow> 'x expr" where
  "Math_Multi m v = EMath (Some m) ''*'' (Some (valueOf v))"

definition Avg :: "string \<Rightarrow> 'x agg" where "Avg c = Aggregate None ''AVG'' c []"
definition Max_of :: "string \<Rightarrow> 'x agg" where "Max_of c = Aggregate None ''MAX'' c []"
definition Min_of :: "string \<Rightarrow> 'x agg" where "Min_of c = Aggregate None ''MIN'' c []"
definition Count :: "string \<Rightarrow> 'x agg" where "Count c = Aggregate None ''COUNT'' c []"
definition Sum_of :: "string \<Rightarrow> 'x agg" where "Sum_of c = Aggregate None ''SUM'' c []"

definition Aggregate_As :: "'x agg \<Rightarrow> string \<Rightarrow> 'x agg" where
  "Aggregate_As a alias = Aggregate None (a_fn a) (a_arg a) alias"

definition Aggregate_EQ :: "'x agg \<Rightarrow> 'x expr + 'x val \<Rightarrow> 'x expr" where
  "Aggregate_EQ a arg = EPredicate (Some (EAggregate a)) ''='' (Some (exprOf arg))"

definition Aggregate_LT :: "'x agg \<Rightarrow> 'x expr + 'x val \<Rightarrow> 'x expr" where
  "Aggregate_LT a arg = EPredicate (Some (EAggregate a)) ''<'' (Some (exprOf arg))"

definition Aggregate_GT :: "'x agg \<Rightarrow> 'x expr + 'x val \<Rightarrow> 'x expr" where
  "Aggregate_GT a arg = EPredicate (Some (EAggregate a)) ''>'' (Some (exprOf arg))"

definition Exist :: "'x subq \<Rightarrow> 'x expr" where
  "Exist sub = EPredicate None ''EXIST'' (Some (ESubquery sub))"

definition Not :: "'x expr \<Rightarrow> 'x expr" where
  "Not p = EPredicate None ''NOT'' (Some p)"

definition And :: "'x expr \<Rightarrow> 'x expr \<Rightarrow> 'x expr" where
  "And p r = EPredicate (Some p) ''AND'' (Some r)"

definition Or :: "'x expr \<Rightarrow> 'x expr \<Rightarrow> 'x expr" where
  "Or p r = EPredicate (Some p) ''OR'' (Some r)"

definition Raw :: "string \<Rightarrow> 'x val list \<Rightarrow> 'x expr" where
  "Raw expr args = ERaw expr args"

definition AsPredicate :: "'x expr \<Rightarrow> 'x expr" where
  "AsPredicate r = EPredicate (Some r) [] None"

definition Any :: "'x subq \<Rightarrow> 'x expr" where "Any sub = ESubqueryExpr sub ''ANY ''"
definition All_of :: "'x subq \<Rightarrow> 'x expr" where "All_of sub = ESubqueryExpr sub ''ALL ''"
definition Some_of :: "'x subq \<Rightarrow> 'x expr" where "Some_of sub = ESubqueryExpr sub ''SOME ''"

definition TableOf :: "go_val \<Rightarrow> 'x tref" where
  "TableOf entity = Table entity []"

definition Table_C :: "go_val \<Rightarrow> string \<Rightarrow> string \<Rightarrow> 'x col" where
  "Table_C entity alias name = Column (Some (Table entity alias)) name []"

definition Table_As :: "go_val \<Rightarrow> string \<Rightarrow> string \<Rightarrow> 'x tref" where
  "Table_As entity old alias = Table entity alias"

definition Subquery_C :: "'x subq \<Rightarrow> string \<Rightarrow> 'x col" where
  "Subquery_C s name = Column (Some (SubqueryT s)) name []"

text \<open>
  \<open>Join\<close>, \<open>LeftJoin\<close> and \<open>RightJoin\<close> of a table, a join and a subquery, by the kind of join. The target
  may be nil.
\<close>

record 'x JoinBuilder =
  jb_left :: "'x tref"
  jb_right :: "'x tref option"
  jb_typ :: string

datatype join_kind = Inner | LeftJ | RightJ

fun join_typ :: "join_kind \<Rightarrow> string" where
  "join_typ Inner = ''JOIN''"
| "join_typ LeftJ = ''LEFT JOIN''"
| "join_typ RightJ = ''RIGHT JOIN''"

definition Table_Join :: "join_kind \<Rightarrow> go_val \<Rightarrow> string \<Rightarrow> 'x tref option \<Rightarrow> 'x JoinBuilder" where
  "Table_Join k entity alias target =
     \<lparr>jb_left = Table entity alias, jb_right = target, jb_typ = join_typ k\<rparr>"

definition Join_Join ::
  "join_kind \<Rightarrow> 'x tref \<Rightarrow> 'x tref option \<Rightarrow> string \<Rightarrow> 'x expr list \<Rightarrow> string list \<Rightarrow> 'x tref option
    \<Rightarrow> 'x JoinBuilder" where
  "Join_Join k l r t on us target =
     \<lparr>jb_left = Join l r t on us, jb_right = target, jb_typ = join_typ k\<rparr>"

definition Subquery_Join :: "join_kind \<Rightarrow> 'x subq \<Rightarrow> 'x tref option \<Rightarrow> 'x JoinBuilder" where
  "Subquery_Join k s target = \<lparr>jb_left = SubqueryT s, jb_right = target, jb_typ = join_typ k\<rparr>"

definition JoinBuilder_On :: "'x JoinBuilder \<Rightarrow> 'x expr list \<Rightarrow> 'x tref" where
  "JoinBuilder_On j ps = Join (jb_left j) (jb_right j) (jb_typ j) ps []"

definition JoinBuilder_Using :: "'x JoinBuilder \<Rightarrow> string list \<Rightarrow> 'x tref" where
  "JoinBuilder_Using j cs = Join (jb_left j) (jb_right j) (jb_typ j) [] cs"

subsection \<open>Selectors and the builder's state\<close>

record 'x selector =
  sel_r :: "go_val \<Rightarrow> (orm_error, Model) result"
  sel_quoter :: char
  sel_entity :: go_val
  sel_table :: "'x tref option"
  sel_where :: "'x expr list"
  sel_having :: "'x expr list"
  sel_columns :: "'x selectable list"
  sel_groupBy :: "'x col list"
  sel_offset :: int
  sel_limit :: int
  sel_sb :: string
  sel_args :: "'x val list"

record 'x heap =
  selectors :: "nat \<Rightarrow> 'x selector"
  caches :: "nat \<Rightarrow> string"
  next_selector :: nat
  next_cache :: nat

record 'x bst =
  sb :: string
  b_args :: "'x val list"
  heap :: "'x heap"

record benv =
  reg :: "go_val \<Rightarrow> (orm_error, Model) result"
  quoter :: char
  b_model :: Model

type_synonym 'x bm = "'x bst \<Rightarrow> (orm_error, unit) result \<times> 'x bst"

type_synonym 'x query = "string \<times> 'x val list"

type_synonym 'x subbuild = "nat \<Rightarrow> 'x heap \<Rightarrow> (orm_error, 'x query) result \<times> 'x heap"

definition ok :: "'x bm" where
  "ok s = (Inr (), s)"

definition fail :: "orm_error \<Rightarrow> 'x bm" where
  "fail e s = (Inl e, s)"

definition emit :: "string \<Rightarrow> 'x bm" where
  "emit w s = (Inr (), s\<lparr>sb := sb s @ w\<rparr>)"

definition addArgs :: "'x val list \<Rightarrow> 'x bm" where
  "addArgs xs s = (Inr (), s\<lparr>b_args := b_args s @ xs\<rparr>)"

definition and_then :: "'x bm \<Rightarrow> 'x bm \<Rightarrow> 'x bm" where
  "and_then m1 m2 s = (case m1 s of (Inl e, s) \<Rightarrow> (Inl e, s) | (Inr _, s) \<Rightarrow> m2 s)"

fun do_all :: "'x bm list \<Rightarrow> 'x bm" where
  "do_all [] = ok"
| "do_all (m # ms) = and_then m (do_all ms)"

text \<open>A list written with commas.\<close>

definition comma :: "nat \<Rightarrow> 'x bm" where
  "comma i = (if i > 0 then emit '','' else ok)"

definition commas :: "('a \<Rightarrow> 'x bm) \<Rightarrow> 'a list \<Rightarrow> 'x bm" where
  "commas f xs = do_all (map (\<lambda>(i, x). and_then (comma i) (f x)) (enumerate 0 xs))"

subsection \<open>Columns\<close>

definition quote :: "benv \<Rightarrow> string \<Rightarrow> 'x bm" where
  "quote E name = emit (quoter E # name @ [quoter E])"

definition field_column :: "Model \<Rightarrow> string \<Rightarrow> (orm_error, string) result" where
  "field_column m fd =
     (case FieldMap m fd of
        None \<Rightarrow> Inl (ErrUnknownField fd)
      | Some i \<Rightarrow> Inr (ColName (Fields m ! i)))"

definition colName :: "benv \<Rightarrow> 'x tref option \<Rightarrow> string \<Rightarrow> (orm_error, string) result" where
  "colName E table fd =
     (case table of
        None \<Rightarrow> field_column (b_model E) fd
      | Some (Table entity _) \<Rightarrow> bind_result (reg E entity) (\<lambda>m. field_column m fd)
      | Some (SubqueryT tab) \<Rightarrow>
          if sq_column tab \<noteq> [] \<and> (\<forall>v \<in> set (sq_column tab). fd \<noteq> fieldName v)
          then Inl (ErrUnknownField fd)
          else (case sq_model tab of None \<Rightarrow> Inl PanicNilModel | Some m \<Rightarrow> field_column m fd)
      | Some (Join _ _ _ _ _) \<Rightarrow> Inl ErrUnsupportedExpressionType)"

definition buildColumn :: "benv \<Rightarrow> 'x tref option \<Rightarrow> string \<Rightarrow> 'x bm" where
  "buildColumn E table fd =
     (let alias = (case table of None \<Rightarrow> [] | Some t \<Rightarrow> tableAlias t) in
      do_all
        [if alias \<noteq> [] then and_then (quote E alias) (emit ''.'') else ok,
         case colName E table fd of Inl e \<Rightarrow> fail e | Inr col \<Rightarrow> quote E col])"

definition buildAs :: "benv \<Rightarrow> string \<Rightarrow> 'x bm" where
  "buildAs E alias = (if alias \<noteq> [] then and_then (emit '' AS '') (quote E alias) else ok)"

definition buildAggregate :: "benv \<Rightarrow> 'x agg \<Rightarrow> bool \<Rightarrow> 'x bm" where
  "buildAggregate E a useAlias = do_all
     [emit (a_fn a @ ''(''), buildColumn E (a_table a) (a_arg a), emit '')'',
      if useAlias then buildAs E (a_alias a) else ok]"

definition raw :: "string \<Rightarrow> 'x val list \<Rightarrow> 'x bm" where
  "raw r xs = and_then (emit r) (addArgs xs)"

subsection \<open>Expressions\<close>

text \<open>
  \<open>buildSubQuery\<close>: \<open>bq\<close> builds the selector a subquery points to. The SQL without its last character is
  kept in the shared cache; the arguments are used once, since the copy they are kept in is dropped.
\<close>

definition buildSubQuery :: "'x subbuild \<Rightarrow> 'x subq \<Rightarrow> 'x bm" where
  "buildSubQuery bq e s =
     (let finish = (\<lambda>sql xs. do_all [emit ''('', emit sql, addArgs xs, emit '')'']) in
      if caches (heap s) (sq_cache e) = [] then
        (case bq (sq_qb e) (heap s) of
           (Inl err, h) \<Rightarrow> (Inl err, s\<lparr>heap := h\<rparr>)
         | (Inr (sql, xs), h) \<Rightarrow>
             finish (butlast sql) xs
               (s\<lparr>heap := h\<lparr>caches := (caches h)(sq_cache e := butlast sql)\<rparr>\<rparr>))
      else finish (caches (heap s) (sq_cache e)) (sq_args e) s)"

text \<open>
  An error of the subquery is dropped here. A panic is not, and running out of depth is not an error of
  the code.
\<close>

definition buildSubqueryExpr :: "'x subbuild \<Rightarrow> 'x subq \<Rightarrow> string \<Rightarrow> 'x bm" where
  "buildSubqueryExpr bq e p s =
     (case and_then (emit p) (buildSubQuery bq e) s of
        (Inl ErrDiverges, s) \<Rightarrow> (Inl ErrDiverges, s)
      | (Inl PanicNilModel, s) \<Rightarrow> (Inl PanicNilModel, s)
      | (_, s) \<Rightarrow> (Inr (), s))"

definition in_parens :: "'x bm \<Rightarrow> 'x bm" where
  "in_parens m = do_all [emit ''('', m, emit '')'']"

definition buildBinary :: "'x bm \<Rightarrow> string \<Rightarrow> 'x bm option \<Rightarrow> 'x bm" where
  "buildBinary l p r = do_all
     [l, if p \<noteq> [] then emit ('' '' @ p) else ok,
      case r of None \<Rightarrow> ok | Some m \<Rightarrow> and_then (emit '' '') m]"

text \<open>\<open>buildExpression\<close> and \<open>buildSubExpr\<close>, with \<open>buildBinaryExpr\<close> as \<open>buildBinary\<close> on the sides.\<close>

fun buildExpression :: "benv \<Rightarrow> 'x subbuild \<Rightarrow> 'x expr \<Rightarrow> 'x bm"
  and buildSubExpr :: "benv \<Rightarrow> 'x subbuild \<Rightarrow> 'x expr \<Rightarrow> 'x bm"
  and buildSide :: "benv \<Rightarrow> 'x subbuild \<Rightarrow> 'x expr option \<Rightarrow> 'x bm" where
  "buildExpression E bq (EColumn c) = buildColumn E (c_table c) (c_name c)"
| "buildExpression E bq (EAggregate a) = buildAggregate E a False"
| "buildExpression E bq (EValue v) = and_then (emit ''?'') (addArgs [v])"
| "buildExpression E bq (ERaw r xs) = raw r xs"
| "buildExpression E bq (EMath l p r) =
     buildBinary (buildSide E bq l) p (if r = None then None else Some (buildSide E bq r))"
| "buildExpression E bq (EPredicate l p r) =
     buildBinary (buildSide E bq l) p (if r = None then None else Some (buildSide E bq r))"
| "buildExpression E bq (EBinary l p r) =
     buildBinary (buildSide E bq l) p (if r = None then None else Some (buildSide E bq r))"
| "buildExpression E bq (ESubquery s) = buildSubQuery bq s"
| "buildExpression E bq (ESubqueryExpr s p) = buildSubqueryExpr bq s p"
| "buildSubExpr E bq (EMath l p r) = in_parens
     (buildBinary (buildSide E bq l) p (if r = None then None else Some (buildSide E bq r)))"
| "buildSubExpr E bq (EPredicate l p r) = in_parens
     (buildBinary (buildSide E bq l) p (if r = None then None else Some (buildSide E bq r)))"
| "buildSubExpr E bq (EBinary l p r) = in_parens
     (buildBinary (buildSide E bq l) p (if r = None then None else Some (buildSide E bq r)))"
| "buildSubExpr E bq (EColumn c) = buildColumn E (c_table c) (c_name c)"
| "buildSubExpr E bq (EAggregate a) = buildAggregate E a False"
| "buildSubExpr E bq (EValue v) = and_then (emit ''?'') (addArgs [v])"
| "buildSubExpr E bq (ERaw r xs) = raw r xs"
| "buildSubExpr E bq (ESubquery s) = buildSubQuery bq s"
| "buildSubExpr E bq (ESubqueryExpr s p) = buildSubqueryExpr bq s p"
| "buildSide E bq None = ok"
| "buildSide E bq (Some e) = buildSubExpr E bq e"

text \<open>\<open>buildPredicates\<close>; it is only called with a first predicate.\<close>

definition buildPredicates :: "benv \<Rightarrow> 'x subbuild \<Rightarrow> 'x expr list \<Rightarrow> 'x bm" where
  "buildPredicates E bq ps =
     (case ps of [] \<Rightarrow> ok | p # ps \<Rightarrow> buildExpression E bq (foldl And p ps))"


subsection \<open>Effects that do not read the state\<close>

text \<open>
  Without subqueries, an operation of the builder always ends the same way, with the same text and the
  same arguments after what is there.
\<close>

definition const_effect :: "'x bm \<Rightarrow> bool" where
  "const_effect m \<longleftrightarrow>
     (\<exists>r w xs. \<forall>s. m s = (r, s\<lparr>sb := sb s @ w, b_args := b_args s @ xs\<rparr>))"

lemma const_effectI:
  "(\<And>s. m s = (r, s\<lparr>sb := sb s @ w, b_args := b_args s @ xs\<rparr>)) \<Longrightarrow> const_effect m"
  unfolding const_effect_def by blast

lemma const_ok: "const_effect ok"
  by (rule const_effectI [where r = "Inr ()" and w = "[]" and xs = "[]"]) (simp add: ok_def)

lemma const_fail: "const_effect (fail e)"
  by (rule const_effectI [where r = "Inl e" and w = "[]" and xs = "[]"]) (simp add: fail_def)

lemma const_emit: "const_effect (emit w)"
  by (rule const_effectI [where r = "Inr ()" and w = w and xs = "[]"]) (simp add: emit_def)

lemma const_addArgs: "const_effect (addArgs xs)"
  by (rule const_effectI [where r = "Inr ()" and w = "[]" and xs = xs]) (simp add: addArgs_def)

lemma const_and_then:
  assumes "const_effect m1" "const_effect m2"
  shows "const_effect (and_then m1 m2)"
proof -
  obtain r w xs where 1: "\<And>s. m1 s = (r, s\<lparr>sb := sb s @ w, b_args := b_args s @ xs\<rparr>)"
    using assms(1) unfolding const_effect_def by blast
  obtain r' w' xs' where 2: "\<And>s. m2 s = (r', s\<lparr>sb := sb s @ w', b_args := b_args s @ xs'\<rparr>)"
    using assms(2) unfolding const_effect_def by blast
  show ?thesis
  proof (cases r)
    case (Inl e)
    then show ?thesis
      by (intro const_effectI [where r = "Inl e" and w = w and xs = xs]) (simp add: and_then_def 1)
  next
    case (Inr u)
    then show ?thesis
      by (intro const_effectI [where r = r' and w = "w @ w'" and xs = "xs @ xs'"]) (simp add: and_then_def 1 2)
  qed
qed

lemma const_do_all: "(\<And>m. m \<in> set ms \<Longrightarrow> const_effect m) \<Longrightarrow> const_effect (do_all ms)"
  by (induction ms) (auto intro: const_ok const_and_then)

lemma const_commas: "(\<And>x. x \<in> set xs \<Longrightarrow> const_effect (f x)) \<Longrightarrow> const_effect (commas f xs)"
  unfolding commas_def comma_def
  by (rule const_do_all) (auto simp: in_set_enumerate_eq intro!: const_and_then const_emit const_ok)

lemmas const_basic = const_ok const_fail const_emit const_addArgs const_and_then

lemma const_quote: "const_effect (quote E name)"
  by (simp add: quote_def const_emit)

lemma const_buildColumn: "const_effect (buildColumn E table fd)"
  by (auto simp: buildColumn_def Let_def split: sum.split intro!: const_basic const_quote)

lemma const_buildAs: "const_effect (buildAs E alias)"
  by (auto simp: buildAs_def intro!: const_basic const_quote)

lemma const_buildAggregate: "const_effect (buildAggregate E a useAlias)"
  by (auto simp: buildAggregate_def intro!: const_basic const_buildColumn const_buildAs)

lemma const_raw: "const_effect (raw r xs)"
  by (auto simp: raw_def intro!: const_basic)

lemma const_in_parens: "const_effect m \<Longrightarrow> const_effect (in_parens m)"
  by (auto simp: in_parens_def intro!: const_basic)

lemma const_buildBinary:
  "const_effect l \<Longrightarrow> (\<And>m. r = Some m \<Longrightarrow> const_effect m) \<Longrightarrow> const_effect (buildBinary l p r)"
  by (auto simp: buildBinary_def split: option.split intro!: const_basic)

text \<open>Expressions without a subquery to build. A column of a subquery only names it.\<close>

fun no_subquery :: "'x expr \<Rightarrow> bool" and no_subquery_opt :: "'x expr option \<Rightarrow> bool" where
  "no_subquery (EMath l p r) \<longleftrightarrow> no_subquery_opt l \<and> no_subquery_opt r"
| "no_subquery (EPredicate l p r) \<longleftrightarrow> no_subquery_opt l \<and> no_subquery_opt r"
| "no_subquery (EBinary l p r) \<longleftrightarrow> no_subquery_opt l \<and> no_subquery_opt r"
| "no_subquery (ESubquery _) \<longleftrightarrow> False"
| "no_subquery (ESubqueryExpr _ _) \<longleftrightarrow> False"
| "no_subquery _ \<longleftrightarrow> True"
| "no_subquery_opt None \<longleftrightarrow> True"
| "no_subquery_opt (Some e) \<longleftrightarrow> no_subquery e"

lemma const_buildExpression:
  "no_subquery e \<Longrightarrow> const_effect (buildExpression E bq e)"
  "no_subquery e \<Longrightarrow> const_effect (buildSubExpr E bq e)"
  "no_subquery_opt o' \<Longrightarrow> const_effect (buildSide E bq o')"
  by (induction E bq e and E bq e and E bq o' rule: buildExpression_buildSubExpr_buildSide.induct)
    (auto intro!: const_basic const_buildColumn const_buildAggregate const_raw const_in_parens
      const_buildBinary split: if_splits)

lemma no_subquery_And: "no_subquery (foldl And p ps) \<longleftrightarrow> no_subquery p \<and> (\<forall>q \<in> set ps. no_subquery q)"
  by (induction ps arbitrary: p) (auto simp: And_def)

lemma const_buildPredicates:
  "(\<And>p. p \<in> set ps \<Longrightarrow> no_subquery p) \<Longrightarrow> const_effect (buildPredicates E bq ps)"
  by (auto simp: buildPredicates_def no_subquery_And split: list.split
      intro!: const_buildExpression const_ok)

end
