(* ===== verification/Orm_Select.thy ===== *)
theory Orm_Select
  imports Orm_Builder
begin

text \<open>
  \<open>Selector\<close> of \<open>homework_subquery/select.go\<close>: its setters, \<open>AsSubquery\<close> and \<open>Build\<close>.

  The selectors live in the heap, since a subquery points to one. \<open>Build\<close> does not reset the text and
  the arguments of its selector, so they are part of its state. The depth of nested subqueries is the
  fuel of \<open>Build\<close>.
\<close>

subsection \<open>Setters\<close>

definition update_selector :: "nat \<Rightarrow> ('x selector \<Rightarrow> 'x selector) \<Rightarrow> 'x heap \<Rightarrow> 'x heap" where
  "update_selector sid f h = h\<lparr>selectors := (selectors h)(sid := f (selectors h sid))\<rparr>"

definition NewSelector ::
  "(go_val \<Rightarrow> (orm_error, Model) result) \<Rightarrow> char \<Rightarrow> go_val \<Rightarrow> 'x heap \<Rightarrow> nat \<times> 'x heap" where
  "NewSelector r q entity h =
     (next_selector h,
      h\<lparr>selectors := (selectors h)(next_selector h :=
          \<lparr>sel_r = r, sel_quoter = q, sel_entity = entity, sel_table = None, sel_where = [],
           sel_having = [], sel_columns = [], sel_groupBy = [], sel_offset = 0, sel_limit = 0,
           sel_sb = [], sel_args = []\<rparr>),
        next_selector := next_selector h + 1\<rparr>)"

definition Select :: "nat \<Rightarrow> 'x selectable list \<Rightarrow> 'x heap \<Rightarrow> 'x heap" where
  "Select sid cols = update_selector sid (\<lambda>s. s\<lparr>sel_columns := cols\<rparr>)"

definition From :: "nat \<Rightarrow> 'x tref option \<Rightarrow> 'x heap \<Rightarrow> 'x heap" where
  "From sid tbl = update_selector sid (\<lambda>s. s\<lparr>sel_table := tbl\<rparr>)"

definition Where :: "nat \<Rightarrow> 'x expr list \<Rightarrow> 'x heap \<Rightarrow> 'x heap" where
  "Where sid ps = update_selector sid (\<lambda>s. s\<lparr>sel_where := ps\<rparr>)"

definition GroupBy :: "nat \<Rightarrow> 'x col list \<Rightarrow> 'x heap \<Rightarrow> 'x heap" where
  "GroupBy sid cols = update_selector sid (\<lambda>s. s\<lparr>sel_groupBy := cols\<rparr>)"

definition Having :: "nat \<Rightarrow> 'x expr list \<Rightarrow> 'x heap \<Rightarrow> 'x heap" where
  "Having sid ps = update_selector sid (\<lambda>s. s\<lparr>sel_having := ps\<rparr>)"

definition Offset_to :: "nat \<Rightarrow> int \<Rightarrow> 'x heap \<Rightarrow> 'x heap" where
  "Offset_to sid offset = update_selector sid (\<lambda>s. s\<lparr>sel_offset := offset\<rparr>)"

definition Limit :: "nat \<Rightarrow> int \<Rightarrow> 'x heap \<Rightarrow> 'x heap" where
  "Limit sid limit = update_selector sid (\<lambda>s. s\<lparr>sel_limit := limit\<rparr>)"

definition AsSubquery :: "nat \<Rightarrow> string \<Rightarrow> 'x heap \<Rightarrow> 'x subq \<times> 'x heap" where
  "AsSubquery sid alias h =
     (let s = selectors h sid in
      (Subquery sid alias (next_cache h) []
         (case sel_r s (sel_entity s) of Inl _ \<Rightarrow> None | Inr m \<Rightarrow> Some m) (sel_columns s),
       h\<lparr>caches := (caches h)(next_cache h := []), next_cache := next_cache h + 1\<rparr>))"

subsection \<open>Build\<close>

definition buildSelColumn :: "benv \<Rightarrow> 'x col \<Rightarrow> bool \<Rightarrow> 'x bm" where
  "buildSelColumn E c useAlias = and_then (buildColumn E (c_table c) (c_name c))
     (if useAlias then buildAs E (c_alias c) else ok)"

fun buildSelectable :: "benv \<Rightarrow> 'x selectable \<Rightarrow> 'x bm" where
  "buildSelectable E (SColumn c) = buildSelColumn E c True"
| "buildSelectable E (SAggregate a) = buildAggregate E a True"
| "buildSelectable E (SRaw r xs) = raw r xs"

definition buildColumns :: "benv \<Rightarrow> 'x selectable list \<Rightarrow> 'x bm" where
  "buildColumns E cols =
     (if cols = [] then emit ''*'' else commas (buildSelectable E) cols)"

text \<open>
  A subquery in the table position: no cache, and the arguments come last. The SQL of a query ends in
  a semicolon, which is cut off.
\<close>

definition buildTableSubquery :: "benv \<Rightarrow> 'x subbuild \<Rightarrow> 'x subq \<Rightarrow> 'x bm" where
  "buildTableSubquery E bq tab s0 =
     (case emit ''('' s0 of
        (Inl e, s) \<Rightarrow> (Inl e, s)
      | (Inr _, s) \<Rightarrow>
          (case bq (sq_qb tab) (heap s) of
             (Inl e, h) \<Rightarrow> (Inl e, s\<lparr>heap := h\<rparr>)
           | (Inr (sql, xs), h) \<Rightarrow>
               do_all [emit (butlast sql), emit '')'', buildAs E (sq_alias tab), addArgs xs]
                 (s\<lparr>heap := h\<rparr>)))"

definition buildUsing :: "benv \<Rightarrow> string list \<Rightarrow> 'x bm" where
  "buildUsing E us =
     (if us = [] then ok
      else do_all [emit '' USING ('', commas (\<lambda>c. buildColumn E None c) us, emit '')''])"

definition buildOn :: "benv \<Rightarrow> 'x subbuild \<Rightarrow> 'x expr list \<Rightarrow> 'x bm" where
  "buildOn E bq on = (if on = [] then ok else and_then (emit '' ON '') (buildPredicates E bq on))"

text \<open>\<open>buildTable\<close> and \<open>buildJoin\<close>; the nil table is the table of the model.\<close>

fun buildTable :: "benv \<Rightarrow> 'x subbuild \<Rightarrow> 'x tref option \<Rightarrow> 'x bm"
  and buildTref :: "benv \<Rightarrow> 'x subbuild \<Rightarrow> 'x tref \<Rightarrow> 'x bm" where
  "buildTable E bq None = quote E (TableName (b_model E))"
| "buildTable E bq (Some t) = buildTref E bq t"
| "buildTref E bq (SubqueryT tab) = buildTableSubquery E bq tab"
| "buildTref E bq (Table entity alias) =
     (case reg E entity of
        Inl e \<Rightarrow> fail e
      | Inr m \<Rightarrow> and_then (quote E (TableName m)) (buildAs E alias))"
| "buildTref E bq (Join l r t on us) = do_all
     [emit ''('', buildTref E bq l, emit '' '', emit t, emit '' '', buildTable E bq r,
      buildUsing E us, buildOn E bq on, emit '')'']"

definition buildWhere :: "benv \<Rightarrow> 'x subbuild \<Rightarrow> string \<Rightarrow> 'x expr list \<Rightarrow> 'x bm" where
  "buildWhere E bq kw ps = (if ps = [] then ok else and_then (emit kw) (buildPredicates E bq ps))"

definition buildGroupBy :: "benv \<Rightarrow> 'x col list \<Rightarrow> 'x bm" where
  "buildGroupBy E cols =
     (if cols = [] then ok
      else and_then (emit '' GROUP BY '') (commas (\<lambda>c. buildSelColumn E c False) cols))"

definition buildBound :: "string \<Rightarrow> int \<Rightarrow> 'x bm" where
  "buildBound kw n = (if n > 0 then and_then (emit kw) (addArgs [VInt n]) else ok)"

definition buildSelect :: "benv \<Rightarrow> 'x subbuild \<Rightarrow> 'x selector \<Rightarrow> 'x bm" where
  "buildSelect E bq s = do_all
     [emit ''SELECT '', buildColumns E (sel_columns s),
      emit '' FROM '', buildTable E bq (sel_table s),
      buildWhere E bq '' WHERE '' (sel_where s),
      buildGroupBy E (sel_groupBy s),
      buildWhere E bq '' HAVING '' (sel_having s),
      buildBound '' LIMIT ?'' (sel_limit s),
      buildBound '' OFFSET ?'' (sel_offset s),
      emit '';'']"

fun Build :: "nat \<Rightarrow> 'x subbuild" where
  "Build 0 sid h = (Inl ErrDiverges, h)"
| "Build (Suc n) sid h =
     (let s = selectors h sid in
      case sel_r s (sel_entity s) of
        Inl e \<Rightarrow> (Inl e, h)
      | Inr m \<Rightarrow>
          (case buildSelect \<lparr>reg = sel_r s, quoter = sel_quoter s, b_model = m\<rparr> (Build n) s
                  \<lparr>sb = sel_sb s, b_args = sel_args s, heap = h\<rparr> of
             (r, t) \<Rightarrow>
               (case r of Inl e \<Rightarrow> Inl e | Inr _ \<Rightarrow> Inr (sb t, b_args t),
                update_selector sid (\<lambda>s. s\<lparr>sel_sb := sb t, sel_args := b_args t\<rparr>) (heap t))))"


declare Build.simps [simp del]

text \<open>The SQL of a query ends in a semicolon.\<close>

lemma do_all_last:
  "do_all (ms @ [m]) s = (case do_all ms s of (Inl e, t) \<Rightarrow> (Inl e, t) | (Inr _, t) \<Rightarrow> m t)"
  by (induction ms arbitrary: s) (auto simp: and_then_def ok_def split: prod.split sum.split)

lemma buildSelect_semicolon:
  assumes "buildSelect E bq s st = (r, t)" and "r = Inr u"
  shows "\<exists>w. sb t = w @ '';''"
proof -
  obtain ms where "buildSelect E bq s = do_all (ms @ [emit '';''])"
    unfolding buildSelect_def by (metis append.simps)
  with assms show ?thesis
    by (auto simp: do_all_last emit_def split: prod.splits sum.splits)
qed

subsection \<open>A selector without subqueries, built twice\<close>

fun no_subquery_tref :: "'x tref \<Rightarrow> bool" and no_subquery_table :: "'x tref option \<Rightarrow> bool" where
  "no_subquery_tref (Table _ _) \<longleftrightarrow> True"
| "no_subquery_tref (SubqueryT _) \<longleftrightarrow> False"
| "no_subquery_tref (Join l r _ on _) \<longleftrightarrow>
     no_subquery_tref l \<and> no_subquery_table r \<and> (\<forall>p \<in> set on. no_subquery p)"
| "no_subquery_table None \<longleftrightarrow> True"
| "no_subquery_table (Some t) \<longleftrightarrow> no_subquery_tref t"

definition simple_selector :: "'x selector \<Rightarrow> bool" where
  "simple_selector s \<longleftrightarrow> no_subquery_table (sel_table s)
     \<and> (\<forall>p \<in> set (sel_where s). no_subquery p) \<and> (\<forall>p \<in> set (sel_having s). no_subquery p)"

lemma const_buildSelColumn: "const_effect (buildSelColumn E c useAlias)"
  by (auto simp: buildSelColumn_def intro!: const_basic const_buildColumn const_buildAs)

lemma const_buildSelectable: "const_effect (buildSelectable E c)"
  by (cases c) (auto intro: const_buildSelColumn const_buildAggregate const_raw)

lemma const_buildColumns: "const_effect (buildColumns E cols)"
  by (auto simp: buildColumns_def intro!: const_basic const_commas const_buildSelectable)

lemma const_buildUsing: "const_effect (buildUsing E us)"
  by (auto simp: buildUsing_def intro!: const_basic const_do_all const_commas const_buildColumn)

lemma const_buildOn: "(\<And>p. p \<in> set on \<Longrightarrow> no_subquery p) \<Longrightarrow> const_effect (buildOn E bq on)"
  by (auto simp: buildOn_def intro!: const_basic const_buildPredicates)

lemma const_buildTable:
  "no_subquery_table ot \<Longrightarrow> const_effect (buildTable E bq ot)"
  "no_subquery_tref t \<Longrightarrow> const_effect (buildTref E bq t)"
  by (induction E bq ot and E bq t rule: buildTable_buildTref.induct)
    (auto split: sum.split
      intro!: const_basic const_do_all const_quote const_buildAs const_buildUsing const_buildOn)

lemma const_buildWhere:
  "(\<And>p. p \<in> set ps \<Longrightarrow> no_subquery p) \<Longrightarrow> const_effect (buildWhere E bq kw ps)"
  by (auto simp: buildWhere_def intro!: const_basic const_buildPredicates)

lemma const_buildGroupBy: "const_effect (buildGroupBy E cols)"
  by (auto simp: buildGroupBy_def intro!: const_basic const_commas const_buildSelColumn)

lemma const_buildBound: "const_effect (buildBound kw n)"
  by (auto simp: buildBound_def intro!: const_basic)

lemma const_buildSelect: "simple_selector s \<Longrightarrow> const_effect (buildSelect E bq s)"
  unfolding buildSelect_def simple_selector_def
  by (rule const_do_all)
    (auto intro!: const_basic const_buildColumns const_buildTable const_buildWhere const_buildGroupBy
      const_buildBound)

lemma buildSelect_written [simp]:
  "buildSelect E bq (s\<lparr>sel_sb := w, sel_args := xs\<rparr>) = buildSelect E bq s"
  by (simp add: buildSelect_def)

lemma Build_simple:
  assumes "simple_selector (selectors h sid)"
  obtains r :: "(orm_error, unit) result" and w xs where
    "\<And>h' u ys. selectors h' sid = (selectors h sid)\<lparr>sel_sb := u, sel_args := ys\<rparr> \<Longrightarrow>
       Build (Suc n) sid h' =
         (case r of Inl e \<Rightarrow> Inl e | Inr _ \<Rightarrow> Inr (u @ w, ys @ xs),
          if \<exists>m. sel_r (selectors h sid) (sel_entity (selectors h sid)) = Inr m
          then update_selector sid (\<lambda>s. s\<lparr>sel_sb := u @ w, sel_args := ys @ xs\<rparr>) h' else h')"
proof (cases "sel_r (selectors h sid) (sel_entity (selectors h sid))")
  case (Inl e)
  then show ?thesis by (intro that [where r = "Inl e"]) (simp add: Build.simps Let_def)
next
  case (Inr m)
  let ?s = "selectors h sid"
  let ?E = "\<lparr>reg = sel_r ?s, quoter = sel_quoter ?s, b_model = m\<rparr>"
  obtain r w xs where
    *: "\<And>st. buildSelect ?E (Build n) ?s st = (r, st\<lparr>sb := sb st @ w, b_args := b_args st @ xs\<rparr>)"
    using const_buildSelect [OF assms] unfolding const_effect_def by blast
  show ?thesis
    by (rule that [where r = r and w = w and xs = xs]) (simp add: Build.simps Let_def Inr * split: sum.split)
qed

lemma Build_again:
  assumes "simple_selector (selectors h sid)"
    and "Build (Suc n) sid h = (Inr (sel_sb (selectors h sid) @ w, sel_args (selectors h sid) @ xs), h')"
  shows "fst (Build (Suc n) sid h') =
    Inr (sel_sb (selectors h sid) @ w @ w, sel_args (selectors h sid) @ xs @ xs)"
proof -
  let ?s = "selectors h sid"
  obtain r :: "(orm_error, unit) result" and w' xs' where *: "\<And>h' u ys. selectors h' sid = ?s\<lparr>sel_sb := u, sel_args := ys\<rparr> \<Longrightarrow>
       Build (Suc n) sid h' =
         (case r of Inl e \<Rightarrow> Inl e | Inr _ \<Rightarrow> Inr (u @ w', ys @ xs'),
          if \<exists>m. sel_r ?s (sel_entity ?s) = Inr m
          then update_selector sid (\<lambda>s. s\<lparr>sel_sb := u @ w', sel_args := ys @ xs'\<rparr>) h' else h')"
    by (rule Build_simple [OF assms(1)]) blast
  have 1: "Build (Suc n) sid h =
         (case r of Inl e \<Rightarrow> Inl e | Inr _ \<Rightarrow> Inr (sel_sb ?s @ w', sel_args ?s @ xs'),
          if \<exists>m. sel_r ?s (sel_entity ?s) = Inr m
          then update_selector sid (\<lambda>s. s\<lparr>sel_sb := sel_sb ?s @ w', sel_args := sel_args ?s @ xs'\<rparr>) h
          else h)"
    by (rule *) simp
  have "(case r of Inl e \<Rightarrow> Inl e | Inr _ \<Rightarrow> Inr (sel_sb ?s @ w', sel_args ?s @ xs'))
      = Inr (sel_sb ?s @ w, sel_args ?s @ xs)"
    using arg_cong [OF assms(2), of fst] unfolding 1 fst_conv .
  then have r: "r = Inr ()" "w' = w" "xs' = xs"
    by (cases r; simp)+
  have m: "\<exists>m. sel_r ?s (sel_entity ?s) = Inr m"
    using assms(2) by (cases "sel_r ?s (sel_entity ?s)") (auto simp: Build.simps Let_def)
  have "h' = update_selector sid (\<lambda>s. s\<lparr>sel_sb := sel_sb ?s @ w, sel_args := sel_args ?s @ xs\<rparr>) h"
    using arg_cong [OF assms(2), of snd] m unfolding 1 snd_conv r by simp
  then have h': "selectors h' sid = ?s\<lparr>sel_sb := sel_sb ?s @ w, sel_args := sel_args ?s @ xs\<rparr>"
    by (simp add: update_selector_def)
  show ?thesis by (simp add: * [OF h'] r)
qed

text \<open>
  Building a selector twice doubles its query. For a selector that uses no subquery and has
  not been built yet, when the first \<open>Build\<close> returns the SQL and its arguments, the second returns the
  SQL written twice and the arguments twice: \<open>Build\<close> does not reset the builder it writes to. A
  middleware that calls \<open>Build\<close> before the handler does so too.
\<close>

theorem Build_twice:
  assumes "simple_selector (selectors h sid)"
    and "sel_sb (selectors h sid) = []" and "sel_args (selectors h sid) = []"
    and "Build (Suc n) sid h = (Inr (sql, xs), h')"
  shows "fst (Build (Suc n) sid h') = Inr (sql @ sql, xs @ xs)"
  using Build_again [of h sid n sql xs h'] assms by simp


subsection \<open>Subqueries in expressions\<close>

lemma finish_subquery:
  "do_all [emit ''('', emit sql, addArgs xs, emit '')''] s =
     (Inr (), s\<lparr>sb := sb s @ ''('' @ sql @ '')'', b_args := b_args s @ xs\<rparr>)"
  by (simp add: and_then_def emit_def addArgs_def ok_def)

lemma buildSubQuery_first:
  assumes "bq (sq_qb e) (heap s) = (Inr (sql, xs), h)" and "caches (heap s) (sq_cache e) = []"
  shows "buildSubQuery bq e s =
    (Inr (), s\<lparr>sb := sb s @ ''('' @ butlast sql @ '')'', b_args := b_args s @ xs,
               heap := h\<lparr>caches := (caches h)(sq_cache e := butlast sql)\<rparr>\<rparr>)"
  using assms by (simp add: buildSubQuery_def finish_subquery del: do_all.simps)

lemma buildSubQuery_cached:
  assumes "caches (heap s) (sq_cache e) \<noteq> []"
  shows "buildSubQuery bq e s =
    (Inr (), s\<lparr>sb := sb s @ ''('' @ caches (heap s) (sq_cache e) @ '')'', b_args := b_args s @ sq_args e\<rparr>)"
  using assms by (simp add: buildSubQuery_def finish_subquery del: do_all.simps)

text \<open>
  A subquery used a second time in an expression loses its arguments. The first use writes its
  SQL and adds its arguments; the second writes the same SQL, placeholders included, and adds none,
  because the arguments were cached in a copy of the \<open>Subquery\<close> (\<open>AsSubquery\<close> makes it with none).
\<close>

theorem subquery_reused:
  assumes "AsSubquery sid alias h0 = (e, h1)" and "caches (heap s) (sq_cache e) = []"
    and "Build n (sq_qb e) (heap s) = (Inr (sql, xs), h)" and "butlast sql \<noteq> []"
  shows "\<exists>s1 s2. buildSubQuery (Build n) e s = (Inr (), s1)
      \<and> sb s1 = sb s @ ''('' @ butlast sql @ '')'' \<and> b_args s1 = b_args s @ xs
    \<and> buildSubQuery (Build n) e s1 = (Inr (), s2)
      \<and> sb s2 = sb s1 @ ''('' @ butlast sql @ '')'' \<and> b_args s2 = b_args s1"
proof -
  have none: "sq_args e = []" using assms(1) by (auto simp: AsSubquery_def Let_def)
  note first = buildSubQuery_first [where bq = "Build n", OF assms(3,2)]
  show ?thesis
    by (intro exI conjI, rule first, simp, simp, rule buildSubQuery_cached) (simp_all add: assms(4) none)
qed

text \<open>
  An error in the subquery of \<open>ANY\<close>, \<open>ALL\<close> or \<open>SOME\<close> is lost. When building the subquery
  fails, the expression still succeeds, having written the quantifier and no subquery.
\<close>

theorem SubqueryExpr_drops_error:
  assumes "caches (heap s) (sq_cache e) = []" and "Build n (sq_qb e) (heap s) = (Inl err, h)"
    and "err \<noteq> ErrDiverges" and "err \<noteq> PanicNilModel"
  shows "buildExpression E (Build n) (ESubqueryExpr e p) s = (Inr (), s\<lparr>sb := sb s @ p, heap := h\<rparr>)"
  using assms
  by (auto simp: buildSubqueryExpr_def and_then_def emit_def buildSubQuery_def split: orm_error.split)

subsection \<open>A concrete selector\<close>

definition user_reg :: "go_val \<Rightarrow> (orm_error, Model) result" where
  "user_reg v = (if v_type v = 0 then Inr user_model else Inl ErrPointerOnly)"

definition empty_selector :: "nat selector" where
  "empty_selector = \<lparr>sel_r = user_reg, sel_quoter = CHR ''`'', sel_entity = user_val, sel_table = None,
     sel_where = [], sel_having = [], sel_columns = [], sel_groupBy = [], sel_offset = 0, sel_limit = 0,
     sel_sb = [], sel_args = []\<rparr>"

definition by_id :: "nat selector" where
  "by_id = empty_selector\<lparr>sel_where := [Column_EQ (C ''Id'') (Inr (VAny 7))]\<rparr>"

definition bad_field :: "nat selector" where
  "bad_field = empty_selector\<lparr>sel_where := [Column_EQ (C ''Nope'') (Inr (VAny 7))]\<rparr>"

definition user_heap :: "nat selector \<Rightarrow> nat heap" where
  "user_heap s = \<lparr>selectors = (\<lambda>_. s), caches = (\<lambda>_. []), next_selector = 1, next_cache = 0\<rparr>"

lemmas build_defs = buildSelect_def buildColumns_def buildWhere_def buildGroupBy_def buildBound_def
  buildPredicates_def buildBinary_def buildColumn_def colName_def field_column_def quote_def
  buildAs_def and_then_def emit_def addArgs_def ok_def fail_def Let_def

lemma Build_by_id:
  "fst (Build 1 0 (user_heap by_id)) = Inr (''SELECT * FROM `user` WHERE `id` = ?;'', [VAny 7])"
  by (simp add: Build.simps user_heap_def by_id_def empty_selector_def user_reg_def user_model_def
      user_val_def Column_EQ_def exprOf_def valueOf_def C_def build_defs)

lemma Build_bad_field:
  "fst (Build 1 0 (user_heap bad_field)) = Inl (ErrUnknownField ''Nope'')"
  by (simp add: Build.simps user_heap_def bad_field_def empty_selector_def user_reg_def user_model_def
      user_val_def Column_EQ_def exprOf_def valueOf_def C_def build_defs)

theorem Build_twice_witness:
  "fst (Build 1 0 (snd (Build 1 0 (user_heap by_id)))) =
     Inr (''SELECT * FROM `user` WHERE `id` = ?;SELECT * FROM `user` WHERE `id` = ?;'', [VAny 7, VAny 7])"
proof -
  have b: "Build (Suc 0) 0 (user_heap by_id) =
      (Inr (''SELECT * FROM `user` WHERE `id` = ?;'', [VAny 7]), snd (Build 1 0 (user_heap by_id)))"
    using Build_by_id by (simp add: prod_eq_iff)
  have "simple_selector (selectors (user_heap by_id) 0)"
    by (simp add: simple_selector_def user_heap_def by_id_def empty_selector_def Column_EQ_def
        exprOf_def valueOf_def)
  from Build_twice [OF this _ _ b] show ?thesis
    by (simp add: user_heap_def by_id_def empty_selector_def)
qed

theorem subquery_reused_witness:
  "\<exists>s1 s2. buildSubQuery (Build 1) (fst (AsSubquery 0 ''sub'' (user_heap by_id)))
        \<lparr>sb = [], b_args = [], heap = user_heap by_id\<rparr> = (Inr (), s1)
    \<and> b_args s1 = [VAny 7]
    \<and> buildSubQuery (Build 1) (fst (AsSubquery 0 ''sub'' (user_heap by_id))) s1 = (Inr (), s2)
    \<and> sb s2 = ''(SELECT * FROM `user` WHERE `id` = ?)(SELECT * FROM `user` WHERE `id` = ?)''
    \<and> b_args s2 = [VAny 7]"
proof -
  let ?e = "fst (AsSubquery 0 ''sub'' (user_heap by_id))"
  let ?s = "\<lparr>sb = [], b_args = [], heap = user_heap by_id\<rparr>"
  have e: "sq_qb ?e = 0" "sq_cache ?e = 0"
    by (simp_all add: AsSubquery_def Let_def user_heap_def)
  have "Build 1 (sq_qb ?e) (heap ?s) =
      (Inr (''SELECT * FROM `user` WHERE `id` = ?;'', [VAny 7]), snd (Build 1 0 (user_heap by_id)))"
    using Build_by_id by (simp add: prod_eq_iff e)
  from subquery_reused [OF surjective_pairing _ this] show ?thesis
    by (force simp: user_heap_def)
qed

theorem SubqueryExpr_drops_error_witness:
  "\<exists>h. buildExpression \<lparr>reg = user_reg, quoter = CHR ''`'', b_model = user_model\<rparr> (Build 1)
        (ESubqueryExpr (fst (AsSubquery 0 ''sub'' (user_heap bad_field))) ''ANY '')
        \<lparr>sb = [], b_args = [], heap = user_heap bad_field\<rparr>
      = (Inr (), \<lparr>sb = ''ANY '', b_args = [], heap = h\<rparr>)"
proof -
  let ?e = "fst (AsSubquery 0 ''sub'' (user_heap bad_field))"
  let ?s = "\<lparr>sb = [], b_args = [], heap = user_heap bad_field\<rparr>"
  have "Build 1 (sq_qb ?e) (heap ?s) = (Inl (ErrUnknownField ''Nope''), snd (Build 1 0 (user_heap bad_field)))"
    using Build_bad_field by (simp add: prod_eq_iff AsSubquery_def Let_def)
  from SubqueryExpr_drops_error [OF _ this] show ?thesis
    by (auto simp: user_heap_def)
qed

end
