(* ===== verification/Orm_Contract.thy ===== *)
theory Orm_Contract
  imports Orm_Select
begin

text \<open>
  What every operation of the builder keeps, proved once in a locale and used for two facts: a query
  has as many placeholders as arguments, and subqueries of bounded depth need only that much fuel.

  \<open>sql_pairs\<close> is a relation between a text and its arguments that the writing of the builder respects;
  \<open>builder_contract\<close> adds what the builder asks of the heap and of the function that builds a subquery.
\<close>

subsection \<open>Well-formed input of the builder\<close>

text \<open>
  Texts that \<open>plain\<close> accepts, raw expressions that \<open>pr\<close> accepts, subqueries in expressions that \<open>sub\<close>
  accepts and in tables that \<open>frm\<close> accepts.
\<close>

definition model_text :: "(string \<Rightarrow> bool) \<Rightarrow> Model \<Rightarrow> bool" where
  "model_text plain m \<longleftrightarrow> plain (TableName m)
     \<and> (\<forall>fd i. FieldMap m fd = Some i \<longrightarrow> plain (ColName (Fields m ! i)))"

fun table_text :: "(string \<Rightarrow> bool) \<Rightarrow> 'x tref option \<Rightarrow> bool" where
  "table_text plain (Some (Table _ alias)) \<longleftrightarrow> plain alias"
| "table_text plain (Some (SubqueryT s)) \<longleftrightarrow>
     plain (sq_alias s) \<and> (\<forall>m. sq_model s = Some m \<longrightarrow> model_text plain m)"
| "table_text plain _ \<longleftrightarrow> True"

fun expr_ok :: "(string \<Rightarrow> bool) \<Rightarrow> (string \<Rightarrow> 'x val list \<Rightarrow> bool) \<Rightarrow> ('x subq \<Rightarrow> bool) \<Rightarrow> 'x expr \<Rightarrow> bool"
  and expr_opt_ok :: "(string \<Rightarrow> bool) \<Rightarrow> (string \<Rightarrow> 'x val list \<Rightarrow> bool) \<Rightarrow> ('x subq \<Rightarrow> bool)
    \<Rightarrow> 'x expr option \<Rightarrow> bool" where
  "expr_ok plain pr sub (EColumn c) \<longleftrightarrow> table_text plain (c_table c)"
| "expr_ok plain pr sub (EAggregate a) \<longleftrightarrow> plain (a_fn a) \<and> table_text plain (a_table a)"
| "expr_ok plain pr sub (EValue v) \<longleftrightarrow> True"
| "expr_ok plain pr sub (ERaw r xs) \<longleftrightarrow> pr r xs"
| "expr_ok plain pr sub (EMath l p r) \<longleftrightarrow> expr_opt_ok plain pr sub l \<and> plain p \<and> expr_opt_ok plain pr sub r"
| "expr_ok plain pr sub (EPredicate l p r) \<longleftrightarrow> expr_opt_ok plain pr sub l \<and> plain p \<and> expr_opt_ok plain pr sub r"
| "expr_ok plain pr sub (EBinary l p r) \<longleftrightarrow> expr_opt_ok plain pr sub l \<and> plain p \<and> expr_opt_ok plain pr sub r"
| "expr_ok plain pr sub (ESubquery s) \<longleftrightarrow> sub s"
| "expr_ok plain pr sub (ESubqueryExpr s p) \<longleftrightarrow> plain p \<and> sub s"
| "expr_opt_ok plain pr sub None \<longleftrightarrow> True"
| "expr_opt_ok plain pr sub (Some e) \<longleftrightarrow> expr_ok plain pr sub e"

fun selectable_ok :: "(string \<Rightarrow> bool) \<Rightarrow> (string \<Rightarrow> 'x val list \<Rightarrow> bool) \<Rightarrow> 'x selectable \<Rightarrow> bool" where
  "selectable_ok plain pr (SColumn c) \<longleftrightarrow> table_text plain (c_table c) \<and> plain (c_alias c)"
| "selectable_ok plain pr (SAggregate a) \<longleftrightarrow> plain (a_fn a) \<and> table_text plain (a_table a) \<and> plain (a_alias a)"
| "selectable_ok plain pr (SRaw r xs) \<longleftrightarrow> pr r xs"

fun tref_ok :: "(string \<Rightarrow> bool) \<Rightarrow> (string \<Rightarrow> 'x val list \<Rightarrow> bool) \<Rightarrow> ('x subq \<Rightarrow> bool) \<Rightarrow> ('x subq \<Rightarrow> bool)
    \<Rightarrow> 'x tref \<Rightarrow> bool"
  and tref_opt_ok :: "(string \<Rightarrow> bool) \<Rightarrow> (string \<Rightarrow> 'x val list \<Rightarrow> bool) \<Rightarrow> ('x subq \<Rightarrow> bool)
    \<Rightarrow> ('x subq \<Rightarrow> bool) \<Rightarrow> 'x tref option \<Rightarrow> bool" where
  "tref_ok plain pr sub frm (Table _ alias) \<longleftrightarrow> plain alias"
| "tref_ok plain pr sub frm (SubqueryT s) \<longleftrightarrow> plain (sq_alias s) \<and> frm s"
| "tref_ok plain pr sub frm (Join l r t on us) \<longleftrightarrow> tref_ok plain pr sub frm l \<and> tref_opt_ok plain pr sub frm r
     \<and> plain t \<and> (\<forall>p \<in> set on. expr_ok plain pr sub p)"
| "tref_opt_ok plain pr sub frm None \<longleftrightarrow> True"
| "tref_opt_ok plain pr sub frm (Some t) \<longleftrightarrow> tref_ok plain pr sub frm t"

definition reg_ok :: "(string \<Rightarrow> bool) \<Rightarrow> (orm_error \<Rightarrow> bool) \<Rightarrow> (go_val \<Rightarrow> (orm_error, Model) result) \<Rightarrow> bool" where
  "reg_ok plain bad r \<longleftrightarrow> (\<forall>v m. r v = Inr m \<longrightarrow> model_text plain m) \<and> (\<forall>v e. r v = Inl e \<longrightarrow> \<not> bad e)"

definition env_ok :: "(string \<Rightarrow> bool) \<Rightarrow> (orm_error \<Rightarrow> bool) \<Rightarrow> benv \<Rightarrow> bool" where
  "env_ok plain bad E \<longleftrightarrow> plain [quoter E] \<and> model_text plain (b_model E) \<and> reg_ok plain bad (reg E)"

definition selector_ok :: "(string \<Rightarrow> bool) \<Rightarrow> (string \<Rightarrow> 'x val list \<Rightarrow> bool) \<Rightarrow> (orm_error \<Rightarrow> bool)
    \<Rightarrow> ('x subq \<Rightarrow> bool) \<Rightarrow> ('x subq \<Rightarrow> bool) \<Rightarrow> 'x selector \<Rightarrow> bool" where
  "selector_ok plain pr bad sub frm s \<longleftrightarrow> plain [sel_quoter s] \<and> reg_ok plain bad (sel_r s)
     \<and> tref_opt_ok plain pr sub frm (sel_table s) \<and> list_all (selectable_ok plain pr) (sel_columns s)
     \<and> list_all (expr_ok plain pr sub) (sel_where s) \<and> list_all (expr_ok plain pr sub) (sel_having s)
     \<and> list_all (\<lambda>c. table_text plain (c_table c)) (sel_groupBy s)"

lemma selector_ok_written [simp]:
  "selector_ok plain pr bad sub frm (s\<lparr>sel_sb := w, sel_args := xs\<rparr>) = selector_ok plain pr bad sub frm s"
  by (simp add: selector_ok_def)

subsection \<open>Operations that keep a predicate\<close>

definition keeps :: "('x bst \<Rightarrow> bool) \<Rightarrow> (orm_error \<Rightarrow> bool) \<Rightarrow> 'x bm \<Rightarrow> bool" where
  "keeps P bad m \<longleftrightarrow> (\<forall>s. P s \<longrightarrow> P (snd (m s)) \<and> (\<forall>e. fst (m s) = Inl e \<longrightarrow> \<not> bad e))"

lemma keepsI:
  "(\<And>s r s'. P s \<Longrightarrow> m s = (r, s') \<Longrightarrow> P s' \<and> (\<forall>e. r = Inl e \<longrightarrow> \<not> bad e)) \<Longrightarrow> keeps P bad m"
  unfolding keeps_def by (metis prod.collapse)

lemma keepsD:
  "keeps P bad m \<Longrightarrow> P s \<Longrightarrow> m s = (r, s') \<Longrightarrow> P s' \<and> (\<forall>e. r = Inl e \<longrightarrow> \<not> bad e)"
  unfolding keeps_def by (metis fst_conv snd_conv)

lemma keeps_ok: "keeps P bad ok"
  by (simp add: keeps_def ok_def)

lemma keeps_fail: "\<not> bad e \<Longrightarrow> keeps P bad (fail e)"
  by (simp add: keeps_def fail_def)

lemma keeps_and_then: "keeps P bad m1 \<Longrightarrow> keeps P bad m2 \<Longrightarrow> keeps P bad (and_then m1 m2)"
  unfolding keeps_def and_then_def by (auto split: prod.split sum.split)

lemma keeps_do_all: "(\<And>m. m \<in> set ms \<Longrightarrow> keeps P bad m) \<Longrightarrow> keeps P bad (do_all ms)"
  by (induction ms) (auto intro: keeps_ok keeps_and_then)

lemma keeps_commas:
  "keeps P bad (emit '','') \<Longrightarrow> (\<And>x. x \<in> set xs \<Longrightarrow> keeps P bad (f x)) \<Longrightarrow> keeps P bad (commas f xs)"
  unfolding commas_def comma_def
  by (rule keeps_do_all) (auto simp: in_set_enumerate_eq intro!: keeps_and_then keeps_ok)

lemmas keeps_basic = keeps_ok keeps_fail keeps_and_then

definition good :: "(string \<Rightarrow> 'x val list \<Rightarrow> bool) \<Rightarrow> ('x heap \<Rightarrow> bool) \<Rightarrow> 'x bst \<Rightarrow> bool" where
  "good pair hp s \<longleftrightarrow> pair (sb s) (b_args s) \<and> hp (heap s)"


subsection \<open>The contract\<close>

locale sql_pairs =
  fixes pair :: "string \<Rightarrow> 'x val list \<Rightarrow> bool" and plain :: "string \<Rightarrow> bool"
  assumes txt_clean: "CHR ''?'' \<notin> set w \<Longrightarrow> plain w"
    and txt_append: "plain u \<Longrightarrow> plain w \<Longrightarrow> plain (u @ w)"
    and pair_nil: "pair [] []"
    and pair_text: "pair w xs \<Longrightarrow> plain u \<Longrightarrow> pair (w @ u) xs"
    and pair_arg: "pair w xs \<Longrightarrow> pair (w @ ''?'') (xs @ [v])"
    and pair_append: "pair w xs \<Longrightarrow> pair u ys \<Longrightarrow> pair (w @ u) (xs @ ys)"
    and pair_butlast: "pair (w @ '';'') xs \<Longrightarrow> pair w xs"

locale builder_contract = sql_pairs pair plain
  for pair :: "string \<Rightarrow> 'x val list \<Rightarrow> bool" and plain :: "string \<Rightarrow> bool" +
  fixes hp :: "'x heap \<Rightarrow> bool" and bad :: "orm_error \<Rightarrow> bool"
    and sub :: "'x subq \<Rightarrow> bool" and frm :: "'x subq \<Rightarrow> bool" and bq :: "'x subbuild"
  assumes bq_keeps: "hp h \<Longrightarrow> sub e \<or> frm e \<Longrightarrow> bq (sq_qb e) h = (r, h') \<Longrightarrow> hp h'"
    and bq_error: "hp h \<Longrightarrow> sub e \<or> frm e \<Longrightarrow> bq (sq_qb e) h = (Inl err, h') \<Longrightarrow> \<not> bad err"
    and bq_query: "hp h \<Longrightarrow> sub e \<or> frm e \<Longrightarrow> bq (sq_qb e) h = (Inr (sql, xs), h') \<Longrightarrow>
      pair (butlast sql) xs"
    and cached: "hp h \<Longrightarrow> sub e \<Longrightarrow> caches h (sq_cache e) \<noteq> [] \<Longrightarrow> pair (caches h (sq_cache e)) (sq_args e)"
    and cache_written: "hp h \<Longrightarrow> sub e \<Longrightarrow> pair w xs \<Longrightarrow> hp (h\<lparr>caches := (caches h)(sq_cache e := w)\<rparr>)"
    and own_errors: "\<not> bad (ErrUnknownField fd)" "\<not> bad PanicNilModel" "\<not> bad ErrUnsupportedExpressionType"
begin

lemma keeps_emit: "plain w \<Longrightarrow> keeps (good pair hp) bad (emit w)"
  by (auto simp: keeps_def good_def emit_def pair_text)

lemmas emit_simps = keeps_emit txt_clean txt_append

lemma keeps_value: "keeps (good pair hp) bad (and_then (emit ''?'') (addArgs [v]))"
  by (auto simp: keeps_def good_def emit_def addArgs_def and_then_def pair_arg)

lemma keeps_raw: "pair r xs \<Longrightarrow> keeps (good pair hp) bad (raw r xs)"
  by (auto simp: keeps_def good_def emit_def addArgs_def and_then_def raw_def pair_append)

lemma keeps_quote:
  assumes "plain [quoter E]" and "plain name"
  shows "keeps (good pair hp) bad (quote E name)"
proof -
  have "plain ([quoter E] @ name @ [quoter E])" using assms by (intro txt_append)
  then show ?thesis by (simp add: quote_def keeps_emit)
qed

lemma keeps_buildAs: "plain [quoter E] \<Longrightarrow> plain alias \<Longrightarrow> keeps (good pair hp) bad (buildAs E alias)"
  by (auto simp: buildAs_def emit_simps intro!: keeps_basic keeps_quote)

lemma field_column_ok:
  assumes "model_text plain m"
  shows "field_column m fd = Inr w \<Longrightarrow> plain w" and "field_column m fd = Inl e \<Longrightarrow> \<not> bad e"
  using assms own_errors by (auto simp: field_column_def model_text_def split: option.splits)

lemma colName_ok:
  assumes "env_ok plain bad E" and "table_text plain ot"
  shows "colName E ot fd = Inr w \<Longrightarrow> plain w" and "colName E ot fd = Inl e \<Longrightarrow> \<not> bad e"
  using assms own_errors
  by (auto simp: colName_def env_ok_def reg_ok_def bind_result_Inr_iff bind_result_Inl_iff
      dest: field_column_ok split: option.splits tref.splits if_splits) (meson field_column_ok)+

lemma table_alias_text: "table_text plain (Some t) \<Longrightarrow> plain (tableAlias t)"
  by (cases t) (auto intro: txt_clean)

lemma keeps_buildColumn:
  assumes "env_ok plain bad E" and "table_text plain ot"
  shows "keeps (good pair hp) bad (buildColumn E ot fd)"
proof -
  have q: "plain [quoter E]" using assms(1) by (simp add: env_ok_def)
  have al: "plain (case ot of None \<Rightarrow> [] | Some t \<Rightarrow> tableAlias t)"
    using assms(2) by (auto split: option.split intro: txt_clean table_alias_text)
  show ?thesis
    using colName_ok [OF assms]
    by (auto simp: buildColumn_def Let_def emit_simps al split: sum.split
        intro!: keeps_basic keeps_quote [OF q])
qed

lemma keeps_buildAggregate:
  assumes "env_ok plain bad E" and "table_text plain (a_table a)" and "plain (a_fn a)" and "useAlias \<Longrightarrow> plain (a_alias a)"
  shows "keeps (good pair hp) bad (buildAggregate E a useAlias)"
proof -
  have q: "plain [quoter E]" using assms(1) by (simp add: env_ok_def)
  show ?thesis
    using assms q
    by (auto simp: buildAggregate_def emit_simps
        intro!: keeps_basic keeps_buildColumn keeps_buildAs)
qed

lemma keeps_in_parens: "keeps (good pair hp) bad m \<Longrightarrow> keeps (good pair hp) bad (in_parens m)"
  by (auto simp: in_parens_def emit_simps intro!: keeps_basic)

lemma keeps_buildBinary:
  assumes "keeps (good pair hp) bad l" and "plain p" and "\<And>m. r = Some m \<Longrightarrow> keeps (good pair hp) bad m"
  shows "keeps (good pair hp) bad (buildBinary l p r)"
proof -
  have "plain ('' '' @ p)" using assms(2) by (intro txt_append) (simp_all add: txt_clean)
  then show ?thesis
    using assms by (auto simp: buildBinary_def emit_simps split: option.split intro!: keeps_basic)
qed

lemma finish_good:
  assumes "good pair hp s" and "pair sql xs"
  shows "pair (sb s @ ''('' @ sql @ '')'') (b_args s @ xs)"
proof -
  have "pair (((sb s @ ''('') @ sql) @ '')'') (b_args s @ xs)"
    using assms by (intro pair_text pair_append txt_clean) (simp_all add: good_def)
  then show ?thesis by simp
qed

lemma keeps_buildSubQuery:
  assumes "sub e"
  shows "keeps (good pair hp) bad (buildSubQuery bq e)"
proof (rule keepsI)
  fix s r s'
  assume s: "good pair hp s" and m: "buildSubQuery bq e s = (r, s')"
  then have hp: "hp (heap s)" by (simp add: good_def)
  show "good pair hp s' \<and> (\<forall>e. r = Inl e \<longrightarrow> \<not> bad e)"
  proof (cases "caches (heap s) (sq_cache e) = []")
    case False
    with m s finish_good [OF s cached [OF hp assms False]] show ?thesis
      by (auto simp: buildSubQuery_cached good_def)
  next
    case True
    obtain q h where q: "bq (sq_qb e) (heap s) = (q, h)" by fastforce
    show ?thesis
    proof (cases q)
      case (Inl err)
      with m q True bq_keeps [OF hp _ q] bq_error [OF hp, of e err h] assms s show ?thesis
        by (auto simp: buildSubQuery_def good_def)
    next
      case (Inr p)
      obtain sql xs where "p = (sql, xs)" by fastforce
      with q Inr have q': "bq (sq_qb e) (heap s) = (Inr (sql, xs), h)" by simp
      have "pair (butlast sql) xs" by (rule bq_query [OF hp _ q']) (simp add: assms)
      moreover have "hp h" by (rule bq_keeps [OF hp _ q']) (simp add: assms)
      ultimately show ?thesis
        using m s finish_good [OF s] cache_written [of h e] assms
        by (auto simp: buildSubQuery_first [where bq = bq, OF q' True] good_def)
    qed
  qed
qed

lemma keeps_buildSubqueryExpr:
  assumes "sub e" and "plain p"
  shows "keeps (good pair hp) bad (buildSubqueryExpr bq e p)"
proof -
  have "keeps (good pair hp) bad (and_then (emit p) (buildSubQuery bq e))"
    using assms by (intro keeps_basic keeps_emit keeps_buildSubQuery)
  from keepsD [OF this] show ?thesis
    by (intro keepsI)
      (simp add: buildSubqueryExpr_def split: prod.splits sum.splits orm_error.splits, (blast | auto)+)
qed

lemma keeps_buildExpression_aux:
  "expr_ok plain pair sub e \<Longrightarrow> env_ok plain bad E \<Longrightarrow> bq' = bq \<Longrightarrow>
     keeps (good pair hp) bad (buildExpression E bq' e)"
  "expr_ok plain pair sub e \<Longrightarrow> env_ok plain bad E \<Longrightarrow> bq' = bq \<Longrightarrow>
     keeps (good pair hp) bad (buildSubExpr E bq' e)"
  "expr_opt_ok plain pair sub oe \<Longrightarrow> env_ok plain bad E \<Longrightarrow> bq' = bq \<Longrightarrow>
     keeps (good pair hp) bad (buildSide E bq' oe)"
  by (induction E bq' e and E bq' e and E bq' oe rule: buildExpression_buildSubExpr_buildSide.induct)
    (auto intro!: keeps_basic keeps_buildColumn keeps_buildAggregate keeps_value keeps_raw
      keeps_in_parens keeps_buildBinary keeps_buildSubQuery keeps_buildSubqueryExpr split: if_splits)

lemma expr_ok_And: "list_all (expr_ok plain pair sub) (p # ps) \<Longrightarrow> expr_ok plain pair sub (foldl And p ps)"
  by (induction ps arbitrary: p) (auto simp: And_def txt_clean)

lemma keeps_buildPredicates:
  "list_all (expr_ok plain pair sub) ps \<Longrightarrow> env_ok plain bad E \<Longrightarrow>
     keeps (good pair hp) bad (buildPredicates E bq ps)"
  by (cases ps) (simp_all add: buildPredicates_def keeps_ok keeps_buildExpression_aux(1) expr_ok_And)

subsection \<open>Selectors keep the contract\<close>

lemma keeps_buildSelColumn:
  assumes "env_ok plain bad E" and "table_text plain (c_table c)" and "useAlias \<Longrightarrow> plain (c_alias c)"
  shows "keeps (good pair hp) bad (buildSelColumn E c useAlias)"
proof -
  have q: "plain [quoter E]" using assms(1) by (simp add: env_ok_def)
  show ?thesis
    using assms q by (auto simp: buildSelColumn_def intro!: keeps_basic keeps_buildColumn keeps_buildAs)
qed

lemma keeps_buildSelectable:
  "env_ok plain bad E \<Longrightarrow> selectable_ok plain pair c \<Longrightarrow>
     keeps (good pair hp) bad (buildSelectable E c)"
  by (cases c) (auto intro: keeps_buildSelColumn keeps_buildAggregate keeps_raw)

lemma keeps_buildColumns:
  "env_ok plain bad E \<Longrightarrow> list_all (selectable_ok plain pair) cols \<Longrightarrow>
     keeps (good pair hp) bad (buildColumns E cols)"
  by (auto simp: buildColumns_def emit_simps list_all_iff intro!: keeps_commas keeps_buildSelectable)

lemma keeps_buildTableSubquery:
  assumes E: "env_ok plain bad E" and "plain (sq_alias e)" and "frm e"
  shows "keeps (good pair hp) bad (buildTableSubquery E bq e)"
proof (rule keepsI)
  fix s r s'
  assume s: "good pair hp s" and m: "buildTableSubquery E bq e s = (r, s')"
  then have hp: "hp (heap s)" by (simp add: good_def)
  obtain q h where q: "bq (sq_qb e) (heap s) = (q, h)" by fastforce
  have h: "hp h" using bq_keeps [OF hp _ q] assms(3) by simp
  show "good pair hp s' \<and> (\<forall>e. r = Inl e \<longrightarrow> \<not> bad e)"
  proof (cases q)
    case (Inl err)
    then have "\<not> bad err" using bq_error [OF hp, of e err h] q assms(3) by simp
    with Inl m q s h show ?thesis
      by (auto simp: buildTableSubquery_def emit_def good_def txt_clean pair_text)
  next
    case (Inr p)
    obtain sql xs where p: "p = (sql, xs)" by fastforce
    have "pair (butlast sql) xs" using bq_query [OF hp, of e sql xs h] q Inr p assms(3) by simp
    then have "pair (sb s @ ''('' @ butlast sql @ '')'') (b_args s @ xs)" by (rule finish_good [OF s])
    moreover have "plain (if sq_alias e \<noteq> [] then '' AS '' @ [quoter E] @ sq_alias e @ [quoter E] else [])"
    proof -
    have "plain ('' AS '' @ [quoter E] @ sq_alias e @ [quoter E])"
      using assms(2) E by (intro txt_append) (simp_all add: env_ok_def txt_clean)
    then show ?thesis by (simp add: txt_clean)
  qed
    ultimately have "pair ((sb s @ ''('' @ butlast sql @ '')'') @
        (if sq_alias e \<noteq> [] then '' AS '' @ [quoter E] @ sq_alias e @ [quoter E] else [])) (b_args s @ xs)"
      by (rule pair_text)
    with m q Inr p h show ?thesis
      by (auto simp: buildTableSubquery_def emit_def addArgs_def and_then_def ok_def buildAs_def
          quote_def good_def split: if_splits)
  qed
qed

lemma keeps_buildUsing: "env_ok plain bad E \<Longrightarrow> keeps (good pair hp) bad (buildUsing E us)"
  by (auto simp: buildUsing_def emit_simps intro!: keeps_basic keeps_commas keeps_buildColumn)

lemma keeps_buildOn:
  "env_ok plain bad E \<Longrightarrow> list_all (expr_ok plain pair sub) on \<Longrightarrow>
     keeps (good pair hp) bad (buildOn E bq on)"
  by (auto simp: buildOn_def emit_simps intro!: keeps_basic keeps_buildPredicates)

lemma keeps_table_name:
  "env_ok plain bad E \<Longrightarrow> model_text plain m \<Longrightarrow> keeps (good pair hp) bad (quote E (TableName m))"
  by (auto simp: env_ok_def model_text_def intro: keeps_quote)

lemma keeps_buildTable_aux:
  "tref_opt_ok plain pair sub frm ot \<Longrightarrow> env_ok plain bad E \<Longrightarrow> bq' = bq \<Longrightarrow>
     keeps (good pair hp) bad (buildTable E bq' ot)"
  "tref_ok plain pair sub frm t \<Longrightarrow> env_ok plain bad E \<Longrightarrow> bq' = bq \<Longrightarrow>
     keeps (good pair hp) bad (buildTref E bq' t)"
proof (induction E bq' ot and E bq' t rule: buildTable_buildTref.induct)
  case (4 E bq' entity al)
  then have "plain [quoter E]" "reg E entity = Inl e \<Longrightarrow> \<not> bad e" "reg E entity = Inr m \<Longrightarrow> model_text plain m"
    for e m by (auto simp: env_ok_def reg_ok_def)
  with 4 show ?case
    by (auto split: sum.split intro!: keeps_basic keeps_table_name keeps_buildAs)
next
  case (5 E bq' l r t ps us)
  then show ?case
    by (auto simp: emit_simps list_all_iff intro!: keeps_basic keeps_buildUsing keeps_buildOn)
qed (auto simp: env_ok_def intro!: keeps_table_name keeps_buildTableSubquery)

lemma keeps_buildWhere:
  "env_ok plain bad E \<Longrightarrow> list_all (expr_ok plain pair sub) ps \<Longrightarrow> plain kw \<Longrightarrow>
     keeps (good pair hp) bad (buildWhere E bq kw ps)"
  by (auto simp: buildWhere_def emit_simps intro!: keeps_basic keeps_buildPredicates)

lemma keeps_buildGroupBy:
  "env_ok plain bad E \<Longrightarrow> list_all (\<lambda>c. table_text plain (c_table c)) cols \<Longrightarrow>
     keeps (good pair hp) bad (buildGroupBy E cols)"
  by (auto simp: buildGroupBy_def emit_simps list_all_iff
      intro!: keeps_basic keeps_commas keeps_buildSelColumn)

lemma keeps_buildBound:
  assumes "CHR ''?'' \<notin> set kw"
  shows "keeps (good pair hp) bad (buildBound (kw @ ''?'') n)"
proof -
  have "pair (kw @ ''?'') [VInt n]"
    using pair_arg [OF pair_text [OF pair_nil txt_clean [OF assms]]] by simp
  then show ?thesis
    by (auto simp: buildBound_def keeps_ok raw_def [symmetric] intro: keeps_raw)
qed

lemma keeps_buildSelect:
  assumes E: "env_ok plain bad E" and s: "selector_ok plain pair bad sub frm s"
  shows "keeps (good pair hp) bad (buildSelect E bq s)"
proof -
  have "keeps (good pair hp) bad (buildBound '' LIMIT ?'' n)"
    "keeps (good pair hp) bad (buildBound '' OFFSET ?'' n)" for n
    using keeps_buildBound [of "'' LIMIT ''"] keeps_buildBound [of "'' OFFSET ''"] by simp_all
  with s show ?thesis
    unfolding buildSelect_def selector_ok_def
    by (intro keeps_do_all)
      (auto simp: emit_simps E keeps_buildColumns keeps_buildTable_aux keeps_buildWhere keeps_buildGroupBy)
qed

text \<open>One more level: what \<open>Build\<close> does to a selector that the contract covers.\<close>

lemma Build_next:
  assumes h: "hp h" and s: "selector_ok plain pair bad sub frm (selectors h sid)"
    and p: "pair (sel_sb (selectors h sid)) (sel_args (selectors h sid))"
    and written: "\<forall>h w xs. hp h \<and> pair w xs \<longrightarrow>
      hp (update_selector sid (\<lambda>s. s\<lparr>sel_sb := w, sel_args := xs\<rparr>) h)"
    and bq: "bq = Build n" and b: "Build (Suc n) sid h = (r, h')"
  shows "hp h' \<and> (\<forall>e. r = Inl e \<longrightarrow> \<not> bad e) \<and> (\<forall>sql xs. r = Inr (sql, xs) \<longrightarrow> pair sql xs \<and> pair (butlast sql) xs)"
proof (cases "sel_r (selectors h sid) (sel_entity (selectors h sid))")
  case (Inl e)
  then have "\<not> bad e" using s by (auto simp: selector_ok_def reg_ok_def)
  with Inl b h show ?thesis by (auto simp: Build.simps Let_def)
next
  case (Inr m)
  let ?s = "selectors h sid"
  let ?E = "\<lparr>reg = sel_r ?s, quoter = sel_quoter ?s, b_model = m\<rparr>"
  obtain q t where q: "buildSelect ?E bq ?s \<lparr>sb = sel_sb ?s, b_args = sel_args ?s, heap = h\<rparr> = (q, t)"
    by fastforce
  have "env_ok plain bad ?E" using s Inr by (auto simp: env_ok_def selector_ok_def reg_ok_def)
  from keepsD [OF keeps_buildSelect [OF this s] _ q] h p
  have t: "good pair hp t" "\<forall>e. q = Inl e \<longrightarrow> \<not> bad e" by (auto simp: good_def)
  have last: "\<exists>w. sb t = w @ '';''" if "q = Inr u" for u
    using q that by (rule buildSelect_semicolon)
  show ?thesis
    using b Inr q t bq written [rule_format, of "heap t"] last pair_butlast
    by (auto simp: Build.simps Let_def good_def split: sum.splits)
qed

end

end
