(* ===== verification/Orm_Balance.thy ===== *)
theory Orm_Balance
  imports Orm_Contract
begin

text \<open>
  The two facts about \<open>Build\<close> that rest on the contract of the builder: a query has as many placeholders
  as arguments (\<open>balance\<close>), and fuel above the depth of the subqueries is enough (\<open>depth\<close>).
\<close>

subsection \<open>Placeholders and arguments\<close>

definition no_mark :: "string \<Rightarrow> bool" where
  "no_mark w \<longleftrightarrow> CHR ''?'' \<notin> set w"

definition balanced :: "string \<Rightarrow> 'x val list \<Rightarrow> bool" where
  "balanced w xs \<longleftrightarrow> count_list w (CHR ''?'') = length xs"

text \<open>
  Every selector is free of subqueries in its expressions, its names and operators hold no question
  mark, its raw expressions bring an argument for each of theirs, and what it has written is balanced.
\<close>

definition balanced_heap :: "'x heap \<Rightarrow> bool" where
  "balanced_heap h \<longleftrightarrow>
     (\<forall>sid. selector_ok no_mark balanced (\<lambda>_. False) (\<lambda>_. False) (\<lambda>_. True) (selectors h sid)
        \<and> balanced (sel_sb (selectors h sid)) (sel_args (selectors h sid)))"

lemma count_list_no_mark: "no_mark w \<Longrightarrow> count_list w (CHR ''?'') = 0"
  by (simp add: no_mark_def count_list_0_iff)

interpretation marks: sql_pairs balanced no_mark
  by unfold_locales (auto simp: balanced_def count_list_no_mark, auto simp: no_mark_def)

lemma balanced_heap_written:
  "\<forall>h w xs. balanced_heap h \<and> balanced w xs \<longrightarrow>
     balanced_heap (update_selector sid (\<lambda>s. s\<lparr>sel_sb := w, sel_args := xs\<rparr>) h)"
  by (simp add: balanced_heap_def update_selector_def)

lemma balance_contract:
  "builder_contract balanced no_mark balanced_heap (\<lambda>_. False) (\<lambda>_. False) (\<lambda>_. True)
     (Build n :: 'x subbuild)"
proof (induction n)
  case 0
  show ?case by unfold_locales (auto simp: Build.simps)
next
  case (Suc n)
  have step: "balanced_heap h' \<and> (\<forall>sql xs. r = Inr (sql, xs) \<longrightarrow> balanced (butlast sql) xs)"
    if "balanced_heap h" and "Build (Suc n) sid h = (r, h')" for h :: "'x heap" and sid r h'
    using builder_contract.Build_next [OF Suc.IH that(1) _ _ balanced_heap_written refl that(2)] that(1)
    by (auto simp: balanced_heap_def)
  show ?case by unfold_locales (auto dest: step)
qed

interpretation balance: builder_contract balanced no_mark balanced_heap "\<lambda>_. False" "\<lambda>_. False" "\<lambda>_. True"
  "Build n" for n
  by (rule balance_contract)

lemma Build_balanced:
  assumes "balanced_heap h" and "Build n sid h = (Inr (sql, xs), h')"
  shows "balanced sql xs \<and> balanced_heap h'"
proof (cases n)
  case (Suc m)
  from balance.Build_next [OF assms(1) _ _ balanced_heap_written refl] assms Suc show ?thesis
    by (fastforce simp: balanced_heap_def)
qed (use assms in \<open>simp add: Build.simps\<close>)

text \<open>
  A query has exactly as many placeholders as arguments. For a selector whose tables may be
  joins and nested subqueries, whose expressions use no subquery, whose names hold no question mark and
  whose raw expressions are themselves balanced, the SQL that \<open>Build\<close> returns holds one \<open>?\<close> for each of
  the arguments it returns, and the selectors stay in a state where this holds again.
\<close>

theorem Build_placeholders:
  assumes "balanced_heap h" and "Build n sid h = (Inr (sql, xs), h')"
  shows "count_list sql (CHR ''?'') = length xs \<and> balanced_heap h'"
  using Build_balanced [OF assms] by (simp add: balanced_def)

subsection \<open>Enough placeholders\<close>

text \<open>
  With subqueries in expressions the balance is lost in one direction only. A subquery is written as
  \<open>AsSubquery\<close> makes it, without arguments of its own; it may be used any number of times, in any place.
\<close>

definition enough :: "string \<Rightarrow> 'x val list \<Rightarrow> bool" where
  "enough w xs \<longleftrightarrow> length xs \<le> count_list w (CHR ''?'')"

definition enough_heap :: "'x heap \<Rightarrow> bool" where
  "enough_heap h \<longleftrightarrow>
     (\<forall>sid. selector_ok (\<lambda>_. True) enough (\<lambda>_. False) (\<lambda>e. sq_args e = []) (\<lambda>_. True) (selectors h sid)
        \<and> enough (sel_sb (selectors h sid)) (sel_args (selectors h sid)))"

interpretation marks_enough: sql_pairs enough "\<lambda>_. True"
  by unfold_locales (auto simp: enough_def)

lemma enough_heap_written:
  "\<forall>h w xs. enough_heap h \<and> enough w xs \<longrightarrow>
     enough_heap (update_selector sid (\<lambda>s. s\<lparr>sel_sb := w, sel_args := xs\<rparr>) h)"
  by (simp add: enough_heap_def update_selector_def)

lemma enough_heap_caches: "enough_heap (h\<lparr>caches := c\<rparr>) \<longleftrightarrow> enough_heap h"
  by (simp add: enough_heap_def)

lemma enough_contract:
  "builder_contract enough (\<lambda>_. True) enough_heap (\<lambda>_. False) (\<lambda>e. sq_args e = []) (\<lambda>_. True)
     (Build n :: 'x subbuild)"
proof (induction n)
  case 0
  show ?case by unfold_locales (auto simp: Build.simps enough_heap_caches enough_def)
next
  case (Suc n)
  have step: "enough_heap h' \<and> (\<forall>sql xs. r = Inr (sql, xs) \<longrightarrow> enough (butlast sql) xs)"
    if "enough_heap h" and "Build (Suc n) sid h = (r, h')" for h :: "'x heap" and sid r h'
    using builder_contract.Build_next [OF Suc.IH that(1) _ _ enough_heap_written refl that(2)] that(1)
    by (auto simp: enough_heap_def)
  have nil: "enough w []" for w :: string by (simp add: enough_def)
  show ?case by unfold_locales (auto dest: step simp: enough_heap_caches nil)
qed

interpretation enough: builder_contract enough "\<lambda>_. True" enough_heap "\<lambda>_. False" "\<lambda>e. sq_args e = []" "\<lambda>_. True"
  "Build n" for n
  by (rule enough_contract)

text \<open>
  Claim C29: a query never returns more arguments than placeholders. Whatever subqueries its selectors
  hold, in tables or in expressions, reused, cached or failing with a dropped error, the SQL that \<open>Build\<close>
  returns has a \<open>?\<close> for each argument, and the selectors stay in a state where this holds again.
\<close>

theorem Build_enough_placeholders:
  assumes "enough_heap h" and "Build n sid h = (Inr (sql, xs), h')"
  shows "length xs \<le> count_list sql (CHR ''?'') \<and> enough_heap h'"
proof (cases n)
  case (Suc m)
  from enough.Build_next [OF assms(1) _ _ enough_heap_written refl] assms Suc show ?thesis
    by (fastforce simp: enough_heap_def enough_def)
qed (use assms in \<open>simp add: Build.simps\<close>)

subsection \<open>The depth of subqueries\<close>

text \<open>A rank of the selectors that goes down from a selector to those its subqueries point to.\<close>

definition ranked :: "(nat \<Rightarrow> nat) \<Rightarrow> 'x heap \<Rightarrow> bool" where
  "ranked rk h \<longleftrightarrow>
     (\<forall>sid. selector_ok (\<lambda>_. True) (\<lambda>_ _. True) (\<lambda>e. e = ErrDiverges)
        (\<lambda>e. rk (sq_qb e) < rk sid) (\<lambda>e. rk (sq_qb e) < rk sid) (selectors h sid))"

lemma ranked_written:
  "\<forall>h w xs. ranked rk h \<and> True \<longrightarrow>
     ranked rk (update_selector sid (\<lambda>s. s\<lparr>sel_sb := w, sel_args := xs\<rparr>) h)"
  by (simp add: ranked_def update_selector_def)

lemma ranked_caches: "ranked rk (h\<lparr>caches := c\<rparr>) \<longleftrightarrow> ranked rk h"
  by (simp add: ranked_def)

lemma depth_contract:
  "k \<le> n \<Longrightarrow> builder_contract (\<lambda>_ _. True) (\<lambda>_. True) (ranked rk) (\<lambda>e. e = ErrDiverges)
     (\<lambda>e. rk (sq_qb e) < k) (\<lambda>e. rk (sq_qb e) < k)
     (Build n :: 'x subbuild)"
proof (induction n arbitrary: k)
  case 0
  show ?case by unfold_locales (use 0 in \<open>auto simp: ranked_caches\<close>)
next
  case (Suc n)
  have step: "ranked rk h' \<and> r \<noteq> Inl ErrDiverges"
    if "ranked rk h" and "rk sid < k" and "Build (Suc n) sid h = (r, h')" for h :: "'x heap" and sid r h'
  proof -
    have "rk sid \<le> n" using that(2) Suc.prems by simp
    from builder_contract.Build_next [OF Suc.IH [OF this] that(1) _ _ ranked_written refl that(3)] that(1)
    show ?thesis by (auto simp: ranked_def)
  qed
  show ?case by unfold_locales (use step in \<open>auto simp: ranked_caches\<close>)
qed

interpretation depth: builder_contract "\<lambda>_ _. True" "\<lambda>_. True" "ranked rk" "\<lambda>e. e = ErrDiverges"
  "\<lambda>e. rk (sq_qb e) < n" "\<lambda>e. rk (sq_qb e) < n" "Build n" for rk n
  by (rule depth_contract) simp

lemma Build_returns:
  assumes "ranked rk h" and "rk sid < n" and "Build n sid h = (r, h')"
  shows "r \<noteq> Inl ErrDiverges \<and> ranked rk h'"
proof -
  obtain m where n: "n = Suc m" "rk sid \<le> m" using assms(2) by (cases n) auto
  from builder_contract.Build_next [OF depth_contract [OF n(2)] assms(1) _ _ ranked_written refl] assms n
  show ?thesis by (fastforce simp: ranked_def)
qed


text \<open>More fuel changes nothing once a build returns: every operation takes over the answers it has.\<close>

definition extends :: "'x bm \<Rightarrow> 'x bm \<Rightarrow> bool" where
  "extends m m' \<longleftrightarrow> (\<forall>s. fst (m s) \<noteq> Inl ErrDiverges \<longrightarrow> m' s = m s)"

definition extends_bq :: "'x subbuild \<Rightarrow> 'x subbuild \<Rightarrow> bool" where
  "extends_bq bq bq' \<longleftrightarrow> (\<forall>sid h. fst (bq sid h) \<noteq> Inl ErrDiverges \<longrightarrow> bq' sid h = bq sid h)"

lemma extends_refl: "extends m m"
  by (simp add: extends_def)

lemma extends_and_then: "extends m1 m1' \<Longrightarrow> extends m2 m2' \<Longrightarrow> extends (and_then m1 m2) (and_then m1' m2')"
  unfolding extends_def and_then_def by (auto split: prod.splits sum.splits)

lemma extends_do_all: "list_all2 extends ms ms' \<Longrightarrow> extends (do_all ms) (do_all ms')"
  by (induction ms ms' rule: list_all2_induct) (auto intro: extends_refl extends_and_then)

lemma extends_in_parens: "extends m m' \<Longrightarrow> extends (in_parens m) (in_parens m')"
  unfolding in_parens_def by (rule extends_do_all) (simp add: extends_refl)

lemma extends_buildBinary:
  "extends l l' \<Longrightarrow> rel_option extends r r' \<Longrightarrow> extends (buildBinary l p r) (buildBinary l' p r')"
  unfolding buildBinary_def
  by (rule extends_do_all) (cases r; cases r'; auto intro: extends_refl extends_and_then)

lemma extends_buildSubQuery: "extends_bq bq bq' \<Longrightarrow> extends (buildSubQuery bq e) (buildSubQuery bq' e)"
  unfolding extends_def extends_bq_def buildSubQuery_def Let_def
  by (auto split: prod.split sum.split)

lemma extends_buildSubqueryExpr:
  assumes "extends_bq bq bq'"
  shows "extends (buildSubqueryExpr bq e p) (buildSubqueryExpr bq' e p)"
proof -
  have "extends (and_then (emit p) (buildSubQuery bq e)) (and_then (emit p) (buildSubQuery bq' e))"
    by (intro extends_and_then extends_refl extends_buildSubQuery assms)
  then show ?thesis
    unfolding extends_def buildSubqueryExpr_def
    by (auto split: prod.splits sum.splits orm_error.splits)
qed

lemma extends_buildExpression:
  "extends_bq bq bq' \<Longrightarrow> extends (buildExpression E bq e) (buildExpression E bq' e)"
  "extends_bq bq bq' \<Longrightarrow> extends (buildSubExpr E bq e) (buildSubExpr E bq' e)"
  "extends_bq bq bq' \<Longrightarrow> extends (buildSide E bq oe) (buildSide E bq' oe)"
  by (induction E bq e and E bq e and E bq oe rule: buildExpression_buildSubExpr_buildSide.induct)
    (auto intro!: extends_in_parens extends_buildBinary
      intro: extends_refl extends_buildSubQuery extends_buildSubqueryExpr)

lemma extends_buildPredicates:
  "extends_bq bq bq' \<Longrightarrow> extends (buildPredicates E bq ps) (buildPredicates E bq' ps)"
  by (cases ps) (simp_all add: buildPredicates_def extends_refl extends_buildExpression)

lemma extends_buildWhere:
  "extends_bq bq bq' \<Longrightarrow> extends (buildWhere E bq kw ps) (buildWhere E bq' kw ps)"
  by (auto simp: buildWhere_def intro: extends_refl extends_and_then extends_buildPredicates)

lemma extends_buildOn:
  "extends_bq bq bq' \<Longrightarrow> extends (buildOn E bq ps) (buildOn E bq' ps)"
  by (auto simp: buildOn_def intro: extends_refl extends_and_then extends_buildPredicates)

lemma extends_buildTableSubquery:
  "extends_bq bq bq' \<Longrightarrow> extends (buildTableSubquery E bq e) (buildTableSubquery E bq' e)"
  unfolding extends_def extends_bq_def buildTableSubquery_def
  by (auto split: prod.split sum.split)

lemma extends_buildTable:
  "extends_bq bq bq' \<Longrightarrow> extends (buildTable E bq ot) (buildTable E bq' ot)"
  "extends_bq bq bq' \<Longrightarrow> extends (buildTref E bq t) (buildTref E bq' t)"
proof (induction E bq ot and E bq t rule: buildTable_buildTref.induct)
  case (5 E bq l r t ps us)
  then show ?case
    unfolding buildTref.simps
    by (intro extends_do_all) (simp add: extends_refl extends_buildOn)
qed (simp_all add: extends_refl extends_buildTableSubquery)

lemma extends_buildSelect:
  "extends_bq bq bq' \<Longrightarrow> extends (buildSelect E bq s) (buildSelect E bq' s)"
  unfolding buildSelect_def
  by (rule extends_do_all) (simp add: extends_refl extends_buildTable extends_buildWhere)

lemma Build_extends: "extends_bq (Build n) (Build (Suc n))"
proof (induction n)
  case 0
  show ?case by (simp add: extends_bq_def Build.simps)
next
  case (Suc n)
  show ?case
    unfolding extends_bq_def
  proof (intro allI impI)
    fix sid and h :: "'a heap"
    assume returns: "fst (Build (Suc n) sid h) \<noteq> Inl ErrDiverges"
    show "Build (Suc (Suc n)) sid h = Build (Suc n) sid h"
    proof (cases "sel_r (selectors h sid) (sel_entity (selectors h sid))")
      case (Inr m)
      with returns extends_buildSelect [OF Suc] show ?thesis
        unfolding extends_def
        by (subst (1 2) Build.simps) (auto simp: Build.simps Let_def split: prod.splits sum.splits)
    qed (simp add: Build.simps Let_def)
  qed
qed

lemma Build_more_fuel:
  assumes "fst (Build n sid h) \<noteq> Inl ErrDiverges" and "n \<le> n'"
  shows "Build n' sid h = Build n sid h"
  using assms(2)
proof (induction n' rule: dec_induct)
  case (step k)
  with assms(1) Build_extends [of k, unfolded extends_bq_def, rule_format, of sid h]
  show ?case by simp
qed simp

text \<open>
  Claim C28: \<open>Build\<close> returns, and the depth given to it does not matter. When each selector ranks above
  those its subqueries point to, any fuel above the selector's rank gives the same outcome, a query or
  one of the errors of the code.
\<close>

theorem Build_fuel:
  assumes "ranked rk h" and "rk sid < n" and "rk sid < n'"
  shows "Build n sid h = Build n' sid h \<and> fst (Build n sid h) \<noteq> Inl ErrDiverges"
proof -
  have "fst (Build (Suc (rk sid)) sid h) \<noteq> Inl ErrDiverges"
    using Build_returns [OF assms(1), of sid "Suc (rk sid)"] by (metis lessI prod.collapse)
  moreover from Build_more_fuel [OF this, of n] Build_more_fuel [OF this, of n'] assms
  have "Build n sid h = Build (Suc (rk sid)) sid h" "Build n' sid h = Build (Suc (rk sid)) sid h"
    by simp_all
  ultimately show ?thesis by simp
qed

text \<open>
  A selector that selects from its own subquery never returns: however deep the recursion, it
  is not enough.
\<close>

theorem Build_own_subquery:
  assumes "sel_table (selectors h sid) = Some (SubqueryT e)" and "sq_qb e = sid"
    and "sel_columns (selectors h sid) = []"
    and "sel_r (selectors h sid) (sel_entity (selectors h sid)) = Inr m"
  shows "fst (Build n sid h) = Inl ErrDiverges"
proof (induction n)
  case (Suc n)
  then obtain h' where "Build n sid h = (Inl ErrDiverges, h')" by (metis prod.collapse)
  with assms show ?case
    by (simp add: Build.simps Let_def buildSelect_def buildColumns_def and_then_def emit_def
        buildTableSubquery_def)
qed (simp add: Build.simps)

subsection \<open>A concrete query with a subquery\<close>

definition nested :: "nat selector" where
  "nested = empty_selector\<lparr>
     sel_table := Some (SubqueryT (fst (AsSubquery 0 ''u'' (user_heap by_id)))),
     sel_where := [Column_GT (C ''Id'') (Inr (VAny 3))], sel_limit := 5\<rparr>"

definition nested_heap :: "nat heap" where
  "nested_heap = (user_heap by_id)\<lparr>selectors := (\<lambda>i. if i = 1 then nested else by_id)\<rparr>"

lemma Build_nested:
  "fst (Build 2 1 nested_heap) =
     Inr (''SELECT * FROM (SELECT * FROM `user` WHERE `id` = ?) AS `u` WHERE `id` > ? LIMIT ?;'',
          [VAny 7, VAny 3, VInt 5])"
  by (simp add: Build.simps numeral_2_eq_2 nested_heap_def nested_def AsSubquery_def user_heap_def by_id_def
      empty_selector_def user_reg_def user_model_def user_val_def Column_EQ_def Column_GT_def exprOf_def
      valueOf_def C_def update_selector_def buildTableSubquery_def build_defs)

lemma user_reg_ok:
  assumes "\<And>w. CHR ''?'' \<notin> set w \<Longrightarrow> plain w" and "\<not> bad ErrPointerOnly"
  shows "reg_ok plain bad user_reg"
  using assms(2)
  by (auto simp: reg_ok_def user_reg_def user_model_def model_text_def intro: assms(1) split: if_splits)

lemmas demo_defs = nested_heap_def nested_def AsSubquery_def user_heap_def by_id_def empty_selector_def
  Column_EQ_def Column_GT_def exprOf_def valueOf_def C_def

theorem Build_placeholders_witness:
  "count_list ''SELECT * FROM (SELECT * FROM `user` WHERE `id` = ?) AS `u` WHERE `id` > ? LIMIT ?;''
     (CHR ''?'') = length [VAny (7 :: nat), VAny 3, VInt 5]"
proof -
  have "reg_ok no_mark (\<lambda>_. False) user_reg" by (rule user_reg_ok) (simp_all add: no_mark_def)
  then have "balanced_heap nested_heap"
    by (simp add: balanced_heap_def demo_defs selector_ok_def no_mark_def balanced_def)
  moreover obtain h' where "Build 2 1 nested_heap = (Inr
      (''SELECT * FROM (SELECT * FROM `user` WHERE `id` = ?) AS `u` WHERE `id` > ? LIMIT ?;'',
       [VAny 7, VAny 3, VInt 5]), h')"
    using Build_nested by (metis prod.collapse)
  ultimately show ?thesis using Build_placeholders by blast
qed

theorem Build_fuel_witness:
  "Build 2 1 nested_heap = Build 100 1 nested_heap \<and> fst (Build 2 1 nested_heap) \<noteq> Inl ErrDiverges"
proof (rule Build_fuel [of id])
  have "reg_ok (\<lambda>_. True) (\<lambda>e. e = ErrDiverges) user_reg" by (rule user_reg_ok) simp_all
  then show "ranked id nested_heap"
    by (simp add: ranked_def demo_defs selector_ok_def)
qed simp_all

definition own_subquery :: "nat selector" where
  "own_subquery = empty_selector\<lparr>
     sel_table := Some (SubqueryT (fst (AsSubquery 0 ''u'' (user_heap by_id))))\<rparr>"

theorem Build_own_subquery_witness: "fst (Build 1000 0 (user_heap own_subquery)) = Inl ErrDiverges"
  by (rule Build_own_subquery [where e = "fst (AsSubquery 0 ''u'' (user_heap by_id))" and m = user_model])
    (simp_all add: own_subquery_def user_heap_def empty_selector_def AsSubquery_def Let_def user_reg_def
      user_val_def)


text \<open>A subquery that is used twice: three placeholders, two arguments.\<close>

definition reusing :: "nat selector" where
  "reusing = empty_selector\<lparr>
     sel_where := [Column_InQuery (C ''Id'') (fst (AsSubquery 0 ''u'' (user_heap by_id))),
       Column_GT (C ''Id'') (Inl (ESubquery (fst (AsSubquery 0 ''u'' (user_heap by_id)))))],
     sel_limit := 5\<rparr>"

definition reusing_heap :: "nat heap" where
  "reusing_heap = (user_heap by_id)\<lparr>selectors := (\<lambda>i. if i = 1 then reusing else by_id)\<rparr>"

lemma Build_reusing:
  "fst (Build 2 1 reusing_heap) =
     Inr (''SELECT * FROM `user` WHERE (`id` IN (SELECT * FROM `user` WHERE `id` = ?)) AND (`id` > (SELECT * FROM `user` WHERE `id` = ?)) LIMIT ?;'',
          [VAny 7, VInt 5])"
  by (simp add: Build.simps numeral_2_eq_2 reusing_heap_def reusing_def AsSubquery_def user_heap_def by_id_def
      empty_selector_def user_reg_def user_model_def user_val_def Column_EQ_def Column_GT_def Column_InQuery_def exprOf_def
      valueOf_def C_def And_def update_selector_def buildSubQuery_def
      in_parens_def build_defs)

theorem Build_enough_placeholders_witness:
  "length [VAny (7 :: nat), VInt 5] \<le> count_list ''SELECT * FROM `user` WHERE (`id` IN (SELECT * FROM `user` WHERE `id` = ?)) AND (`id` > (SELECT * FROM `user` WHERE `id` = ?)) LIMIT ?;'' (CHR ''?'')"
proof -
  have "reg_ok (\<lambda>_. True) (\<lambda>_. False) user_reg" by (rule user_reg_ok) simp_all
  then have "enough_heap reusing_heap"
    by (simp add: enough_heap_def reusing_heap_def reusing_def Column_InQuery_def demo_defs selector_ok_def enough_def)
  moreover obtain h' where "Build 2 1 reusing_heap = (Inr
      (''SELECT * FROM `user` WHERE (`id` IN (SELECT * FROM `user` WHERE `id` = ?)) AND (`id` > (SELECT * FROM `user` WHERE `id` = ?)) LIMIT ?;'',
       [VAny 7, VInt 5]), h')"
    using Build_reusing by (metis prod.collapse)
  ultimately show ?thesis using Build_enough_placeholders by blast
qed

end
