(* ===== verification/Orm_Value.thy ===== *)
theory Orm_Value
  imports Orm_Model
begin

text \<open>
  The two accesses to a struct of \<open>homework_subquery/internal/valuer\<close>: by reflection, which finds a
  field by its Go name, and by address, which takes its offset from the model.

  A struct is its fields' values by offset. \<open>sql.Rows\<close> is its columns, an error its \<open>Scan\<close> may start
  with, and the conversion of a column into a target of a type: whether it fails, and what the target
  holds afterwards. That may depend on what the target held: a \<open>Scanner\<close> such as \<open>JsonColumn\<close> of \<open>Orm_Json\<close>
  leaves its target alone on \<open>NULL\<close>. \<open>Scan\<close> converts column by column into the given addresses and stops at
  the first error. Structs embed no other struct.
\<close>

type_synonym 'v struct_mem = "nat \<Rightarrow> 'v"

record 'v rows =
  r_columns :: "(orm_error, string list) result"
  r_scan_error :: "orm_error option"
  r_value :: "nat \<Rightarrow> nat \<Rightarrow> 'v \<Rightarrow> (orm_error, unit) result \<times> 'v"

subsection \<open>Scan\<close>

fun scan_from :: "(nat \<Rightarrow> nat \<Rightarrow> 'v \<Rightarrow> (orm_error, unit) result \<times> 'v) \<Rightarrow> nat \<Rightarrow> (nat \<times> nat) list \<Rightarrow> 'v struct_mem
    \<Rightarrow> (orm_error, unit) result \<times> 'v struct_mem" where
  "scan_from conv i [] mem = (Inr (), mem)"
| "scan_from conv i ((a, t) # dest) mem =
     (case conv i t (mem a) of
        (Inl e, v) \<Rightarrow> (Inl e, mem(a := v))
      | (Inr _, v) \<Rightarrow> scan_from conv (i + 1) dest (mem(a := v)))"

definition Scan :: "'v rows \<Rightarrow> (nat \<times> nat) list \<Rightarrow> 'v struct_mem \<Rightarrow> (orm_error, unit) result \<times> 'v struct_mem" where
  "Scan rows dest mem =
     (case r_scan_error rows of Some e \<Rightarrow> (Inl e, mem) | None \<Rightarrow> scan_from (r_value rows) 0 dest mem)"

text \<open>The fields of the columns, in order.\<close>

fun column_fields :: "Model \<Rightarrow> string list \<Rightarrow> (orm_error, Field list) result" where
  "column_fields m [] = Inr []"
| "column_fields m (c # cs) =
     (case ColumnMap m c of
        None \<Rightarrow> Inl (ErrUnknownColumn c)
      | Some i \<Rightarrow> bind_result (column_fields m cs) (\<lambda>fds. Inr (Fields m ! i # fds)))"

subsection \<open>By address\<close>

definition unsafe_Field :: "Model \<Rightarrow> 'v struct_mem \<Rightarrow> string \<Rightarrow> (orm_error, 'v) result" where
  "unsafe_Field m mem name =
     (case FieldMap m name of
        None \<Rightarrow> Inl (ErrUnknownField name)
      | Some i \<Rightarrow> Inr (mem (Offset (Fields m ! i))))"

definition unsafe_SetColumns ::
  "Model \<Rightarrow> 'v rows \<Rightarrow> 'v struct_mem \<Rightarrow> (orm_error, unit) result \<times> 'v struct_mem" where
  "unsafe_SetColumns m rows mem =
     (case r_columns rows of
        Inl e \<Rightarrow> (Inl e, mem)
      | Inr cs \<Rightarrow>
          if length cs > card (dom (ColumnMap m)) then (Inl ErrTooManyReturnedColumns, mem)
          else (case column_fields m cs of
            Inl e \<Rightarrow> (Inl e, mem)
          | Inr fds \<Rightarrow> Scan rows (map (\<lambda>fd. (Offset fd, Type fd)) fds) mem))"

subsection \<open>By reflection\<close>

text \<open>The type of the struct gives its fields; \<open>zero\<close> is the zero value of a type.\<close>

definition FieldByName :: "struct_field list \<Rightarrow> string \<Rightarrow> struct_field option" where
  "FieldByName sfs name = find (\<lambda>sf. sf_Name sf = name) sfs"

definition exported :: "struct_field \<Rightarrow> bool" where
  "exported sf \<longleftrightarrow> (case sf_Name sf of [] \<Rightarrow> False | c # _ \<Rightarrow> IsUpper c)"

definition reflect_Field :: "struct_field list \<Rightarrow> 'v struct_mem \<Rightarrow> string \<Rightarrow> (orm_error, 'v) result" where
  "reflect_Field sfs mem name =
     (case FieldByName sfs name of
        None \<Rightarrow> Inl (ErrUnknownField name)
      | Some sf \<Rightarrow> if exported sf then Inr (mem (sf_Offset sf)) else Inl PanicUnexported)"

text \<open>The loop that sets the fields to the scanned values; \<open>i\<close> is the column.\<close>

fun set_fields :: "struct_field list \<Rightarrow> 'v struct_mem \<Rightarrow> nat \<Rightarrow> Field list \<Rightarrow> 'v struct_mem
    \<Rightarrow> (orm_error, unit) result \<times> 'v struct_mem" where
  "set_fields sfs vals i [] mem = (Inr (), mem)"
| "set_fields sfs vals i (fd # fds) mem =
     (case FieldByName sfs (GoName fd) of
        None \<Rightarrow> (Inl PanicUnexported, mem)
      | Some sf \<Rightarrow>
          if exported sf then set_fields sfs vals (i + 1) fds (mem(sf_Offset sf := vals i))
          else (Inl PanicUnexported, mem))"

definition reflect_SetColumns :: "(nat \<Rightarrow> 'v) \<Rightarrow> struct_field list \<Rightarrow> Model \<Rightarrow> 'v rows \<Rightarrow> 'v struct_mem
    \<Rightarrow> (orm_error, unit) result \<times> 'v struct_mem" where
  "reflect_SetColumns zero sfs m rows mem =
     (case r_columns rows of
        Inl e \<Rightarrow> (Inl e, mem)
      | Inr cs \<Rightarrow>
          if length cs > card (dom (FieldMap m)) then (Inl ErrTooManyReturnedColumns, mem)
          else (case column_fields m cs of
            Inl e \<Rightarrow> (Inl e, mem)
          | Inr fds \<Rightarrow>
              (case Scan rows (enumerate 0 (map Type fds)) (\<lambda>i. zero (Type (fds ! i))) of
                 (Inl e, _) \<Rightarrow> (Inl e, mem)
               | (Inr _, vals) \<Rightarrow> set_fields sfs vals 0 fds mem)))"

subsection \<open>The model of the struct\<close>

text \<open>The model's fields are those of the struct, with their offsets, and its maps find them.\<close>

definition model_of :: "struct_field list \<Rightarrow> Model \<Rightarrow> bool" where
  "model_of sfs m \<longleftrightarrow> distinct (map sf_Name sfs)
     \<and> map GoName (Fields m) = map sf_Name sfs \<and> map Offset (Fields m) = map sf_Offset sfs
     \<and> fields_found m \<and> columns_found m"

lemma FieldByName_nth:
  assumes "distinct (map sf_Name sfs)" and "i < length sfs"
  shows "FieldByName sfs (sf_Name (sfs ! i)) = Some (sfs ! i)"
proof -
  have "sf_Name (sfs ! j) \<noteq> sf_Name (sfs ! i)" if "j < i" for j
    using assms that nth_eq_iff_index_eq [of "map sf_Name sfs" j i] by simp
  then show ?thesis
    using assms(2) by (auto simp: FieldByName_def find_Some_iff)
qed

lemma model_of_field:
  assumes "model_of sfs m" and "i < length (Fields m)"
  shows "FieldByName sfs (GoName (Fields m ! i)) = Some (sfs ! i)"
    and "sf_Offset (sfs ! i) = Offset (Fields m ! i)" and "sfs ! i \<in> set sfs"
proof -
  have l: "length sfs = length (Fields m)"
    using assms(1) unfolding model_of_def by (metis length_map)
  have "sf_Name (sfs ! i) = GoName (Fields m ! i)"
    using assms l unfolding model_of_def by (metis nth_map)
  moreover have "FieldByName sfs (sf_Name (sfs ! i)) = Some (sfs ! i)"
    using assms l by (intro FieldByName_nth) (simp_all add: model_of_def)
  ultimately show "FieldByName sfs (GoName (Fields m ! i)) = Some (sfs ! i)" by simp
  show "sf_Offset (sfs ! i) = Offset (Fields m ! i)"
    using assms l unfolding model_of_def by (metis nth_map)
  show "sfs ! i \<in> set sfs" using assms(2) l by simp
qed

lemma Field_agree:
  assumes "model_of sfs m" and "\<forall>sf \<in> set sfs. exported sf"
  shows "reflect_Field sfs mem name = unsafe_Field m mem name"
proof (cases "FieldMap m name")
  case None
  then have "GoName (Fields m ! i) \<noteq> name" if "i < length (Fields m)" for i
    using assms(1) that unfolding model_of_def fields_found_def by (metis option.distinct(1))
  then have "name \<notin> set (map GoName (Fields m))" by (force simp: in_set_conv_nth)
  moreover have "map GoName (Fields m) = map sf_Name sfs" using assms(1) by (simp add: model_of_def)
  ultimately have "name \<notin> set (map sf_Name sfs)" by metis
  then have "FieldByName sfs name = None" by (auto simp: FieldByName_def find_None_iff)
  with None show ?thesis by (simp add: reflect_Field_def unsafe_Field_def)
next
  case (Some i)
  then have i: "i < length (Fields m)" "GoName (Fields m ! i) = name"
    using assms(1) by (auto simp: model_of_def fields_found_def)
  with Some assms(2) model_of_field [OF assms(1) i(1)] show ?thesis
    by (auto simp: reflect_Field_def unsafe_Field_def)
qed


lemma column_fields_nth:
  assumes "column_fields m cs = Inr fds" and "columns_found m" and "fd \<in> set fds"
  shows "\<exists>i < length (Fields m). fd = Fields m ! i"
  using assms
proof (induction cs arbitrary: fds)
  case (Cons c cs)
  then show ?case
    by (auto simp: bind_result_Inr_iff split: option.splits) (auto simp: columns_found_def)
qed simp

text \<open>
  The reflecting valuer scans into new variables, the other one into the struct. Both scan alike when no
  conversion reads its target, or when the struct is new and each of its fields is the target of one column
  at most.
\<close>

definition blind :: "(nat \<Rightarrow> 'v) \<Rightarrow> (nat \<Rightarrow> nat \<Rightarrow> 'v \<Rightarrow> (orm_error, unit) result \<times> 'v) \<Rightarrow> bool" where
  "blind zero conv \<longleftrightarrow> (\<forall>i t v. fst (conv i t v) = fst (conv i t (zero t))
     \<and> (fst (conv i t v) = Inr () \<longrightarrow> snd (conv i t v) = snd (conv i t (zero t))))"

definition fresh_struct :: "(nat \<Rightarrow> 'v) \<Rightarrow> Model \<Rightarrow> 'v rows \<Rightarrow> 'v struct_mem \<Rightarrow> bool" where
  "fresh_struct zero m rows mem \<longleftrightarrow> distinct (map Offset (Fields m))
     \<and> (\<forall>fd \<in> set (Fields m). mem (Offset fd) = zero (Type fd))
     \<and> (\<forall>cs. r_columns rows = Inr cs \<longrightarrow> distinct cs)"

definition alike :: "(nat \<Rightarrow> 'v) \<Rightarrow> (nat \<Rightarrow> nat \<Rightarrow> 'v \<Rightarrow> (orm_error, unit) result \<times> 'v) \<Rightarrow> Field list
    \<Rightarrow> 'v struct_mem \<Rightarrow> bool" where
  "alike zero conv fds mem \<longleftrightarrow> blind zero conv
     \<or> distinct (map Offset fds) \<and> (\<forall>fd \<in> set fds. mem (Offset fd) = zero (Type fd))"

lemma alike_Cons:
  assumes "alike zero conv (fd # fds) mem"
  shows "fst (conv i (Type fd) (mem (Offset fd))) = fst (conv i (Type fd) (zero (Type fd)))"
    and "fst (conv i (Type fd) (zero (Type fd))) = Inr () \<Longrightarrow>
      snd (conv i (Type fd) (mem (Offset fd))) = snd (conv i (Type fd) (zero (Type fd)))"
    and "alike zero conv fds (mem(Offset fd := v))"
proof -
  show "fst (conv i (Type fd) (mem (Offset fd))) = fst (conv i (Type fd) (zero (Type fd)))"
    "fst (conv i (Type fd) (zero (Type fd))) = Inr () \<Longrightarrow>
      snd (conv i (Type fd) (mem (Offset fd))) = snd (conv i (Type fd) (zero (Type fd)))"
    using assms unfolding alike_def blind_def by (metis list.set_intros(1))+
  show "alike zero conv fds (mem(Offset fd := v))"
    using assms by (auto simp: alike_def) (metis image_eqI)
qed

lemma column_fields_offsets:
  assumes "column_fields m cs = Inr fds" and "columns_found m" and "distinct (map Offset (Fields m))" and "distinct cs"
  shows "distinct (map Offset fds)"
  using assms
proof (induction cs arbitrary: fds)
  case (Cons c cs)
  then obtain i fds' where i: "ColumnMap m c = Some i" "column_fields m cs = Inr fds'" "fds = Fields m ! i # fds'"
    by (auto simp: bind_result_Inr_iff split: option.splits)
  then have fi: "i < length (Fields m)" "ColName (Fields m ! i) = c"
    using Cons.prems(2) by (auto simp: columns_found_def)
  have "Offset fd \<noteq> Offset (Fields m ! i)" if fd: "fd \<in> set fds'" for fd
  proof
    assume eq: "Offset fd = Offset (Fields m ! i)"
    have "ColName fd \<in> set cs" using fd i(2) Cons.prems(2)
    proof (induction cs arbitrary: fds')
      case (Cons d cs)
      then show ?case
        by (auto simp: bind_result_Inr_iff split: option.splits) (auto simp: columns_found_def)
    qed simp
    moreover obtain j where "j < length (Fields m)" "fd = Fields m ! j"
      using column_fields_nth [OF i(2) Cons.prems(2) fd] by blast
    with eq fi Cons.prems(3) have "fd = Fields m ! i"
      by (metis length_map nth_eq_iff_index_eq nth_map)
    ultimately show False using fi(2) Cons.prems(4) by simp
  qed
  moreover have "distinct (map Offset fds')" using Cons i(2) by simp
  ultimately show ?case unfolding i(3) by force
qed simp

text \<open>Then scanning into new variables and copying them is scanning into the struct.\<close>

lemma scan_fresh:
  assumes "\<And>fd. fd \<in> set fds \<Longrightarrow> \<exists>sf. FieldByName sfs (GoName fd) = Some sf \<and> exported sf \<and> sf_Offset sf = Offset fd"
    and "alike zero conv fds mem" and "\<And>j. j < length fds \<Longrightarrow> vals (i + j) = zero (Type (fds ! j))"
    and "scan_from conv i (enumerate i (map Type fds)) vals = (r, vals')"
  shows "(case r of
      Inl e \<Rightarrow> fst (scan_from conv i (map (\<lambda>fd. (Offset fd, Type fd)) fds) mem) = Inl e
    | Inr _ \<Rightarrow> scan_from conv i (map (\<lambda>fd. (Offset fd, Type fd)) fds) mem = set_fields sfs vals' i fds mem)
    \<and> (\<forall>j < i. vals' j = vals j)"
  using assms
proof (induction fds arbitrary: i vals mem)
  case Nil
  then show ?case by auto
next
  case (Cons fd fds)
  obtain x v where c: "conv i (Type fd) (zero (Type fd)) = (x, v)" by fastforce
  have z: "vals i = zero (Type fd)" using Cons.prems(3) [of 0] by simp
  obtain y u where m: "conv i (Type fd) (mem (Offset fd)) = (y, u)" by fastforce
  with c have same: "y = x" "x = Inr () \<Longrightarrow> u = v"
    using alike_Cons(1,2) [OF Cons.prems(2), of i] by simp_all
  show ?case
  proof (cases x)
    case (Inl e)
    with Cons.prems(4) c z m same(1) show ?thesis by auto
  next
    case (Inr one)
    then have m: "conv i (Type fd) (mem (Offset fd)) = (x, v)" using m same by simp
    from Inr Cons.prems(4) c z have
      "scan_from conv (i + 1) (enumerate (i + 1) (map Type fds)) (vals(i := v)) = (r, vals')"
      by simp
    moreover have "(vals(i := v)) (i + 1 + j) = zero (Type (fds ! j))" if "j < length fds" for j
      using Cons.prems(3) [of "Suc j"] that by simp
    ultimately have IH: "(case r of
        Inl e \<Rightarrow> fst (scan_from conv (i + 1) (map (\<lambda>fd. (Offset fd, Type fd)) fds) (mem(Offset fd := v))) = Inl e
      | Inr _ \<Rightarrow> scan_from conv (i + 1) (map (\<lambda>fd. (Offset fd, Type fd)) fds) (mem(Offset fd := v)) =
          set_fields sfs vals' (i + 1) fds (mem(Offset fd := v)))
      \<and> (\<forall>j < i + 1. vals' j = (vals(i := v)) j)"
      using Cons.prems(1) alike_Cons(3) [OF Cons.prems(2)] by (intro Cons.IH) (auto simp del: fun_upd_apply)
    then have v: "vals' i = v" "\<forall>j < i. vals' j = vals j" by auto
    from Cons.prems(1) [of fd] obtain sf where "FieldByName sfs (GoName fd) = Some sf" "exported sf"
      "sf_Offset sf = Offset fd" by auto
    with IH Inr m v show ?thesis by (auto split: sum.splits)
  qed
qed

lemma SetColumns_agree:
  assumes m: "model_of sfs m" and ex: "\<forall>sf \<in> set sfs. exported sf"
    and card: "card (dom (ColumnMap m)) = card (dom (FieldMap m))"
    and same: "blind zero (r_value rows) \<or> fresh_struct zero m rows mem"
  shows "fst (reflect_SetColumns zero sfs m rows mem) = fst (unsafe_SetColumns m rows mem)
    \<and> (fst (unsafe_SetColumns m rows mem) = Inr () \<longrightarrow>
         snd (reflect_SetColumns zero sfs m rows mem) = snd (unsafe_SetColumns m rows mem))
    \<and> (fst (unsafe_SetColumns m rows mem) \<noteq> Inr () \<longrightarrow>
         snd (reflect_SetColumns zero sfs m rows mem) = mem)"
proof (cases "\<exists>cs fds. r_columns rows = Inr cs \<and> \<not> length cs > card (dom (FieldMap m))
    \<and> column_fields m cs = Inr fds \<and> r_scan_error rows = None")
  case False
  then consider e where "r_columns rows = Inl e"
    | cs where "r_columns rows = Inr cs" "length cs > card (dom (FieldMap m))"
    | cs e where "r_columns rows = Inr cs" "\<not> length cs > card (dom (FieldMap m))" "column_fields m cs = Inl e"
    | cs fds e where "r_columns rows = Inr cs" "\<not> length cs > card (dom (FieldMap m))"
        "column_fields m cs = Inr fds" "r_scan_error rows = Some e"
    by (metis not_None_eq sum.exhaust)
  then show ?thesis
    by cases (simp_all add: reflect_SetColumns_def unsafe_SetColumns_def Scan_def card)
next
  case True
  then obtain cs fds where *: "r_columns rows = Inr cs" "\<not> length cs > card (dom (FieldMap m))"
    "column_fields m cs = Inr fds" "r_scan_error rows = None" by blast
  have cf: "columns_found m" using m by (simp add: model_of_def)
  have fd: "\<exists>sf. FieldByName sfs (GoName fd) = Some sf \<and> exported sf \<and> sf_Offset sf = Offset fd"
    if "fd \<in> set fds" for fd
    using column_fields_nth [OF *(3) cf that] model_of_field [OF m] ex by metis
  have "alike zero (r_value rows) fds mem"
  proof (cases "blind zero (r_value rows)")
    case False
    with same have fresh: "distinct (map Offset (Fields m))" "distinct cs"
      "\<forall>fd \<in> set (Fields m). mem (Offset fd) = zero (Type fd)" by (simp_all add: fresh_struct_def *(1))
    have "set fds \<subseteq> set (Fields m)" using column_fields_nth [OF *(3) cf] by fastforce
    with fresh(3) column_fields_offsets [OF *(3) cf fresh(1,2)] show ?thesis by (auto simp: alike_def)
  qed (simp add: alike_def)
  moreover obtain r vals' where
    r: "scan_from (r_value rows) 0 (enumerate 0 (map Type fds)) (\<lambda>i. zero (Type (fds ! i))) = (r, vals')"
    by fastforce
  ultimately have agree: "case r of
      Inl e \<Rightarrow> fst (scan_from (r_value rows) 0 (map (\<lambda>fd. (Offset fd, Type fd)) fds) mem) = Inl e
    | Inr _ \<Rightarrow> scan_from (r_value rows) 0 (map (\<lambda>fd. (Offset fd, Type fd)) fds) mem = set_fields sfs vals' 0 fds mem"
    using scan_fresh [OF fd, where conv = "r_value rows" and i = 0] by simp
  have set_ok: "fst (set_fields sfs vals' i fds mem) = Inr ()" for i
    using fd
  proof (induction fds arbitrary: i mem)
    case (Cons fd fds)
    from Cons.prems [of fd] obtain sf where "FieldByName sfs (GoName fd) = Some sf" "exported sf" by auto
    with Cons show ?case by auto
  qed simp
  show ?thesis
    using agree set_ok r *
    by (auto simp: reflect_SetColumns_def unsafe_SetColumns_def Scan_def card split: sum.splits)
qed

subsection \<open>Properties\<close>

text \<open>
  Claim C34: the two valuers are interchangeable on a struct whose fields are exported and have columns
  of their own, in the two cases in which a scan cannot tell their targets apart: no conversion of the row
  reads its target, or the struct is new, as in \<open>Get\<close>, and the row has no column twice. Reading a
  field and storing a row give the same value or the same error; after a successful store the structs are
  equal. After a failed one the reflecting valuer has left the struct as it was. In other cases they
  differ: see \<open>valuers_differ\<close> of \<open>Orm_Json\<close>.
\<close>

theorem valuers_agree:
  assumes "model_of sfs m" and "\<forall>sf \<in> set sfs. exported sf"
    and "card (dom (ColumnMap m)) = card (dom (FieldMap m))"
    and "blind zero (r_value rows) \<or> fresh_struct zero m rows mem"
  shows "reflect_Field sfs mem name = unsafe_Field m mem name
    \<and> fst (reflect_SetColumns zero sfs m rows mem) = fst (unsafe_SetColumns m rows mem)
    \<and> (fst (unsafe_SetColumns m rows mem) = Inr () \<longrightarrow>
         snd (reflect_SetColumns zero sfs m rows mem) = snd (unsafe_SetColumns m rows mem))
    \<and> (fst (unsafe_SetColumns m rows mem) \<noteq> Inr () \<longrightarrow>
         snd (reflect_SetColumns zero sfs m rows mem) = mem)"
  using Field_agree [OF assms(1,2)] SetColumns_agree [OF assms] by blast

definition user_fields :: "struct_field list" where
  "user_fields =
     [\<lparr>sf_Name = ''Id'', sf_Tag = [], sf_Type = 0, sf_Offset = 0\<rparr>,
      \<lparr>sf_Name = ''FirstName'', sf_Tag = ''column=first'', sf_Type = 1, sf_Offset = 8\<rparr>]"

text \<open>
  A row of two columns: the first is added to what its target holds; the second does not convert in
  \<open>bad_row\<close> and is \<open>NULL\<close> in \<open>null_row\<close>, which leaves the target alone.
\<close>

definition bad_row :: "nat rows" where
  "bad_row = \<lparr>r_columns = Inr [''id'', ''first''], r_scan_error = None,
     r_value = (\<lambda>i t v. if i = 0 then (Inr (), v + 42) else (Inl (ErrDriver ''conversion''), v))\<rparr>"

definition null_row :: "nat rows" where
  "null_row = \<lparr>r_columns = Inr [''id'', ''first''], r_scan_error = None,
     r_value = (\<lambda>i t v. (Inr (), if i = 0 then v + 42 else v))\<rparr>"

lemma user_model_of: "model_of user_fields user_model"
proof -
  have "fields_found user_model" "columns_found user_model"
    by (auto simp: fields_found_def columns_found_def user_model_def nth_Cons' split: if_splits)
  then show ?thesis by (simp add: model_of_def user_fields_def user_model_def)
qed

theorem valuers_agree_witness:
  "fst (reflect_SetColumns (\<lambda>_. 1) user_fields user_model bad_row (\<lambda>_. 1)) = Inl (ErrDriver ''conversion'')
    \<and> snd (reflect_SetColumns (\<lambda>_. 1) user_fields user_model bad_row (\<lambda>_. 1)) = (\<lambda>_. 1)
    \<and> snd (unsafe_SetColumns user_model bad_row (\<lambda>_. 1)) 0 = 43
    \<and> snd (reflect_SetColumns (\<lambda>_. 1) user_fields user_model null_row (\<lambda>_. 1)) = (\<lambda>_. 1)(0 := 43)"
proof -
  have card: "card (dom (ColumnMap user_model)) = 2" "card (dom (FieldMap user_model)) = 2"
    by (simp_all add: user_model_def)
  have run: "unsafe_SetColumns user_model bad_row (\<lambda>_. 1) =
      (Inl (ErrDriver ''conversion''), (\<lambda>_. 1)(0 := 43))"
    "unsafe_SetColumns user_model null_row (\<lambda>_. 1) = (Inr (), (\<lambda>_. 1)(0 := 43))"
    by (simp_all add: unsafe_SetColumns_def card bad_row_def null_row_def)
      (auto simp: user_model_def Scan_def fun_eq_iff)
  have ex: "\<forall>sf \<in> set user_fields. exported sf"
    by (simp add: user_fields_def exported_def IsUpper_def)
  have fresh: "fresh_struct (\<lambda>_. 1) user_model bad_row (\<lambda>_. 1)" "fresh_struct (\<lambda>_. 1) user_model null_row (\<lambda>_. 1)"
    by (simp_all add: fresh_struct_def user_model_def bad_row_def null_row_def)
  show ?thesis
    using valuers_agree [OF user_model_of ex _ disjI2 [OF fresh(1)]] valuers_agree [OF user_model_of ex _ disjI2 [OF fresh(2)]]
      card run by simp
qed

end
