(* ===== verification/Orm_Write.thy ===== *)
theory Orm_Write
  imports Orm_Select Orm_Value
begin

text \<open>
  \<open>Inserter\<close>, \<open>UpsertBuilder\<close> and \<open>Updater\<close> of \<open>homework_subquery\<close> (\<open>insert.go\<close>, \<open>updater.go\<close>,
  \<open>assignment.go\<close>) with the two dialects of \<open>dialect.go\<close>.

  The valuer of the core is an argument: it reads a field of a value by its Go name. \<open>bq\<close> builds the
  subqueries in expressions, as in \<open>Orm_Builder\<close>.
\<close>

subsection \<open>Assignments\<close>

datatype 'x assignable = AColumn "'x col" | AAssign string "'x expr" | ARaw string "'x val list"

definition Assign :: "string \<Rightarrow> 'x expr + 'x val \<Rightarrow> 'x assignable" where
  "Assign column val = AAssign column (case val of Inl e \<Rightarrow> e | Inr v \<Rightarrow> EValue v)"

record 'x Upsert =
  up_conflictColumns :: "string list"
  up_assigns :: "'x assignable list"

subsection \<open>Dialects\<close>

datatype dialect = MySQL | SQLite3

fun dialect_quoter :: "dialect \<Rightarrow> char" where
  "dialect_quoter MySQL = CHR ''`''"
| "dialect_quoter SQLite3 = CHR ''`''"

definition buildAssignment :: "benv \<Rightarrow> 'x subbuild \<Rightarrow> string \<Rightarrow> 'x expr \<Rightarrow> 'x bm" where
  "buildAssignment E bq column v =
     do_all [buildColumn E None column, emit ''='', buildExpression E bq v]"

text \<open>The loops over the assignments: an \<open>Assignment\<close> returns from the function.\<close>

fun mysql_assigns :: "benv \<Rightarrow> 'x subbuild \<Rightarrow> nat \<Rightarrow> 'x assignable list \<Rightarrow> 'x bm" where
  "mysql_assigns E bq idx [] = ok"
| "mysql_assigns E bq idx (AColumn c # as) =
     (case colName E (c_table c) (c_name c) of
        Inl e \<Rightarrow> and_then (comma idx) (fail e)
      | Inr col \<Rightarrow> do_all [comma idx, quote E col, emit ''=VALUES('', quote E col, emit '')'',
                          mysql_assigns E bq (idx + 1) as])"
| "mysql_assigns E bq idx (AAssign column v # as) =
     and_then (comma idx) (buildAssignment E bq column v)"
| "mysql_assigns E bq idx (ARaw _ _ # as) = and_then (comma idx) (fail ErrUnsupportedAssignableType)"

definition mysql_buildUpsert :: "benv \<Rightarrow> 'x subbuild \<Rightarrow> 'x Upsert \<Rightarrow> 'x bm" where
  "mysql_buildUpsert E bq odk =
     and_then (emit '' ON DUPLICATE KEY UPDATE '') (mysql_assigns E bq 0 (up_assigns odk))"

fun sqlite_assigns :: "benv \<Rightarrow> 'x subbuild \<Rightarrow> nat \<Rightarrow> 'x assignable list \<Rightarrow> 'x bm" where
  "sqlite_assigns E bq idx [] = ok"
| "sqlite_assigns E bq idx (AColumn c # as) =
     (case colName E (c_table c) (c_name c) of
        Inl e \<Rightarrow> and_then (comma idx) (fail e)
      | Inr col \<Rightarrow> do_all [comma idx, quote E col, emit ''=excluded.'', quote E col,
                          sqlite_assigns E bq (idx + 1) as])"
| "sqlite_assigns E bq idx (AAssign column v # as) =
     and_then (comma idx) (buildAssignment E bq column v)"
| "sqlite_assigns E bq idx (ARaw _ _ # as) = and_then (comma idx) (fail ErrUnsupportedAssignableType)"

definition sqlite_buildUpsert :: "benv \<Rightarrow> 'x subbuild \<Rightarrow> 'x Upsert \<Rightarrow> 'x bm" where
  "sqlite_buildUpsert E bq odk = do_all
     [emit '' ON CONFLICT'',
      if up_conflictColumns odk = [] then ok
      else do_all [emit ''('', commas (\<lambda>col. buildColumn E None col) (up_conflictColumns odk), emit '')''],
      emit '' DO UPDATE SET '',
      sqlite_assigns E bq 0 (up_assigns odk)]"

fun buildUpsert :: "dialect \<Rightarrow> benv \<Rightarrow> 'x subbuild \<Rightarrow> 'x Upsert \<Rightarrow> 'x bm" where
  "buildUpsert MySQL = mysql_buildUpsert"
| "buildUpsert SQLite3 = sqlite_buildUpsert"

subsection \<open>Insert\<close>

text \<open>A value to insert: what the registry sees of it, and its struct.\<close>

record 'x row_val =
  rv_go :: go_val
  rv_struct :: "'x val struct_mem"

record 'x inserter =
  ins_r :: "go_val \<Rightarrow> (orm_error, Model) result"
  ins_dialect :: dialect
  ins_field :: "Model \<Rightarrow> 'x row_val \<Rightarrow> string \<Rightarrow> (orm_error, 'x val) result"
  ins_values :: "'x row_val list"
  ins_columns :: "string list"
  ins_upsert :: "'x Upsert option"
  ins_sb :: string
  ins_args :: "'x val list"

definition NewInserter :: "(go_val \<Rightarrow> (orm_error, Model) result) \<Rightarrow> dialect
    \<Rightarrow> (Model \<Rightarrow> 'x row_val \<Rightarrow> string \<Rightarrow> (orm_error, 'x val) result) \<Rightarrow> 'x inserter" where
  "NewInserter r d vc = \<lparr>ins_r = r, ins_dialect = d, ins_field = vc, ins_values = [], ins_columns = [],
     ins_upsert = None, ins_sb = [], ins_args = []\<rparr>"

definition Values :: "'x row_val list \<Rightarrow> 'x inserter \<Rightarrow> 'x inserter" where
  "Values vals i = i\<lparr>ins_values := vals\<rparr>"

definition Columns :: "string list \<Rightarrow> 'x inserter \<Rightarrow> 'x inserter" where
  "Columns cols i = i\<lparr>ins_columns := cols\<rparr>"

text \<open>\<open>OnDuplicateKey().ConflictColumns(cols).Update(assigns)\<close>; without conflict columns, \<open>cols\<close> is empty.\<close>

definition Update_upsert :: "string list \<Rightarrow> 'x assignable list \<Rightarrow> 'x inserter \<Rightarrow> 'x inserter" where
  "Update_upsert cols assigns i =
     i\<lparr>ins_upsert := Some \<lparr>up_conflictColumns = cols, up_assigns = assigns\<rparr>\<rparr>"

fun pick_fields :: "Model \<Rightarrow> string list \<Rightarrow> (orm_error, Field list) result" where
  "pick_fields m [] = Inr []"
| "pick_fields m (c # cs) =
     (case FieldMap m c of
        None \<Rightarrow> Inl (ErrUnknownField c)
      | Some i \<Rightarrow> bind_result (pick_fields m cs) (\<lambda>fds. Inr (Fields m ! i # fds)))"

definition insert_fields :: "Model \<Rightarrow> string list \<Rightarrow> (orm_error, Field list) result" where
  "insert_fields m cols = (if cols = [] then Inr (Fields m) else pick_fields m cols)"

definition reset_args :: "'x bm" where
  "reset_args s = (Inr (), s\<lparr>b_args := []\<rparr>)"

definition insert_value :: "(string \<Rightarrow> (orm_error, 'x val) result) \<Rightarrow> Field \<Rightarrow> 'x bm" where
  "insert_value get_field fd = and_then (emit ''?'')
     (case get_field (GoName fd) of Inl e \<Rightarrow> fail e | Inr v \<Rightarrow> addArgs [v])"

definition insert_row :: "(string \<Rightarrow> (orm_error, 'x val) result) \<Rightarrow> Field list \<Rightarrow> 'x bm" where
  "insert_row get_field fds = do_all [emit ''('', commas (insert_value get_field) fds, emit '')'']"

definition buildInsert :: "benv \<Rightarrow> 'x subbuild \<Rightarrow> 'x inserter \<Rightarrow> 'x bm" where
  "buildInsert E bq i = do_all
     [emit ''INSERT INTO '', quote E (TableName (b_model E)), emit ''('',
      case insert_fields (b_model E) (ins_columns i) of
        Inl e \<Rightarrow> fail e
      | Inr fds \<Rightarrow> do_all
          [reset_args, commas (\<lambda>fd. quote E (ColName fd)) fds, emit '') VALUES'',
           commas (\<lambda>v. insert_row (ins_field i (b_model E) v) fds) (ins_values i),
           case ins_upsert i of None \<Rightarrow> ok | Some odk \<Rightarrow> buildUpsert (ins_dialect i) E bq odk,
           emit '';'']]"

definition Inserter_Build ::
  "'x subbuild \<Rightarrow> 'x inserter \<Rightarrow> 'x heap \<Rightarrow> (orm_error, 'x query) result \<times> 'x inserter \<times> 'x heap" where
  "Inserter_Build bq i h =
     (case ins_values i of
        [] \<Rightarrow> (Inl ErrInsertZeroRow, i, h)
      | val # _ \<Rightarrow>
          (case ins_r i (rv_go val) of
             Inl e \<Rightarrow> (Inl e, i, h)
           | Inr m \<Rightarrow>
               (case buildInsert \<lparr>reg = ins_r i, quoter = dialect_quoter (ins_dialect i), b_model = m\<rparr> bq i
                       \<lparr>sb = ins_sb i, b_args = ins_args i, heap = h\<rparr> of
                  (r, t) \<Rightarrow> (case r of Inl e \<Rightarrow> Inl e | Inr _ \<Rightarrow> Inr (sb t, b_args t),
                              i\<lparr>ins_sb := sb t, ins_args := b_args t\<rparr>, heap t))))"

subsection \<open>Update\<close>

text \<open>\<open>upd_new\<close> is \<open>new(T)\<close>, which stands in for a value that was not set.\<close>

record 'x updater =
  upd_r :: "go_val \<Rightarrow> (orm_error, Model) result"
  upd_dialect :: dialect
  upd_field :: "Model \<Rightarrow> 'x row_val \<Rightarrow> string \<Rightarrow> (orm_error, 'x val) result"
  upd_new :: "'x row_val"
  upd_assigns :: "'x assignable list"
  upd_val :: "'x row_val option"
  upd_where :: "'x expr list"
  upd_sb :: string
  upd_args :: "'x val list"

definition NewUpdater :: "(go_val \<Rightarrow> (orm_error, Model) result) \<Rightarrow> dialect
    \<Rightarrow> (Model \<Rightarrow> 'x row_val \<Rightarrow> string \<Rightarrow> (orm_error, 'x val) result) \<Rightarrow> 'x row_val \<Rightarrow> 'x updater" where
  "NewUpdater r d vc new = \<lparr>upd_r = r, upd_dialect = d, upd_field = vc, upd_new = new, upd_assigns = [],
     upd_val = None, upd_where = [], upd_sb = [], upd_args = []\<rparr>"

definition Updater_Update :: "'x row_val \<Rightarrow> 'x updater \<Rightarrow> 'x updater" where
  "Updater_Update t u = u\<lparr>upd_val := Some t\<rparr>"

definition Updater_Set :: "'x assignable list \<Rightarrow> 'x updater \<Rightarrow> 'x updater" where
  "Updater_Set assigns u = u\<lparr>upd_assigns := assigns\<rparr>"

definition Updater_Where :: "'x expr list \<Rightarrow> 'x updater \<Rightarrow> 'x updater" where
  "Updater_Where ps u = u\<lparr>upd_where := ps\<rparr>"

fun update_assign ::
  "benv \<Rightarrow> 'x subbuild \<Rightarrow> (string \<Rightarrow> (orm_error, 'x val) result) \<Rightarrow> 'x assignable \<Rightarrow> 'x bm" where
  "update_assign E bq get_field (AColumn c) = do_all
     [buildColumn E (c_table c) (c_name c), emit ''=?'',
      case get_field (c_name c) of Inl e \<Rightarrow> fail e | Inr v \<Rightarrow> addArgs [v]]"
| "update_assign E bq get_field (AAssign column v) = buildAssignment E bq column v"
| "update_assign E bq get_field (ARaw _ _) = fail ErrUnsupportedAssignableType"

definition buildUpdate :: "benv \<Rightarrow> 'x subbuild \<Rightarrow> 'x updater \<Rightarrow> 'x row_val \<Rightarrow> 'x bm" where
  "buildUpdate E bq u val = do_all
     [emit ''UPDATE '', quote E (TableName (b_model E)), emit '' SET '',
      commas (update_assign E bq (upd_field u (b_model E) val)) (upd_assigns u),
      buildWhere E bq '' WHERE '' (upd_where u),
      emit '';'']"

definition Updater_Build ::
  "'x subbuild \<Rightarrow> 'x updater \<Rightarrow> 'x heap \<Rightarrow> (orm_error, 'x query) result \<times> 'x updater \<times> 'x heap" where
  "Updater_Build bq u h =
     (if upd_assigns u = [] then (Inl ErrNoUpdatedColumns, u, h)
      else
        let val = (case upd_val u of None \<Rightarrow> upd_new u | Some v \<Rightarrow> v);
            u = u\<lparr>upd_val := Some val\<rparr> in
        case upd_r u (rv_go val) of
          Inl e \<Rightarrow> (Inl e, u, h)
        | Inr m \<Rightarrow>
            (case buildUpdate \<lparr>reg = upd_r u, quoter = dialect_quoter (upd_dialect u), b_model = m\<rparr> bq u val
                    \<lparr>sb = upd_sb u, b_args = upd_args u, heap = h\<rparr> of
               (r, t) \<Rightarrow> (case r of Inl e \<Rightarrow> Inl e | Inr _ \<Rightarrow> Inr (sb t, b_args t),
                           u\<lparr>upd_sb := sb t, upd_args := b_args t\<rparr>, heap t)))"


subsection \<open>Operations that write a given text\<close>

definition writes :: "'x bm \<Rightarrow> string \<Rightarrow> 'x val list \<Rightarrow> bool" where
  "writes m w xs \<longleftrightarrow> (\<forall>s. m s = (Inr (), s\<lparr>sb := sb s @ w, b_args := b_args s @ xs\<rparr>))"

lemma writesD: "writes m w xs \<Longrightarrow> m s = (Inr (), s\<lparr>sb := sb s @ w, b_args := b_args s @ xs\<rparr>)"
  by (simp add: writes_def)

lemma writes_ok: "writes ok [] []"
  by (simp add: writes_def ok_def)

lemma writes_emit: "writes (emit w) w []"
  by (simp add: writes_def emit_def)

lemma writes_addArgs: "writes (addArgs xs) [] xs"
  by (simp add: writes_def addArgs_def)

lemma writes_and_then: "writes m1 w xs \<Longrightarrow> writes m2 u ys \<Longrightarrow> writes (and_then m1 m2) (w @ u) (xs @ ys)"
  by (simp add: writes_def and_then_def)

lemma writes_quote: "writes (quote E name) ([quoter E] @ name @ [quoter E]) []"
  by (simp add: quote_def writes_emit)

text \<open>A list of operations with what each writes.\<close>

lemma writes_do_all:
  assumes "list_all2 (\<lambda>m (w, xs). writes m w xs) ms outs"
  shows "writes (do_all ms) (concat (map fst outs)) (concat (map snd outs))"
  using assms by (induction ms outs rule: list_all2_induct) (auto intro: writes_ok writes_and_then)

lemma writes_comma: "writes (comma i) (if i > 0 then '','' else []) []"
  by (simp add: comma_def writes_ok writes_emit)

lemma writes_commas_from:
  assumes "\<And>x. x \<in> set xs \<Longrightarrow> writes (f x) (w x) (a x)"
  shows "writes (do_all (map (\<lambda>(i, x). and_then (comma i) (f x)) (enumerate n xs)))
    ((if n > 0 \<and> xs \<noteq> [] then '','' else []) @ join_with (CHR '','') (map w xs)) (concat (map a xs))"
  using assms
proof (induction xs arbitrary: n)
  case (Cons x xs)
  have x: "writes (and_then (comma n) (f x)) ((if n > 0 then '','' else []) @ w x) ([] @ a x)"
    using Cons.prems by (intro writes_and_then writes_comma) simp
  have "writes (do_all (map (\<lambda>(i, x). and_then (comma i) (f x)) (enumerate (Suc n) xs)))
      ((if xs \<noteq> [] then '','' else []) @ join_with (CHR '','') (map w xs)) (concat (map a xs))"
    using Cons.IH [of "Suc n"] Cons.prems by simp
  from writes_and_then [OF x this] show ?case
    by (cases xs) simp_all
qed (simp add: writes_ok)

lemma writes_commas:
  "(\<And>x. x \<in> set xs \<Longrightarrow> writes (f x) (w x) (a x)) \<Longrightarrow>
     writes (commas f xs) (join_with (CHR '','') (map w xs)) (concat (map a xs))"
  using writes_commas_from [of xs f w a 0] by (simp add: commas_def)

subsection \<open>Properties of INSERT\<close>

definition quoted :: "char \<Rightarrow> string \<Rightarrow> string" where
  "quoted q name = [q] @ name @ [q]"

text \<open>The statement that inserts \<open>n\<close> rows of the columns \<open>cols\<close>; \<open>up\<close> is the text of the upsert clause.\<close>

definition insert_sql :: "string \<Rightarrow> string list \<Rightarrow> nat \<Rightarrow> string \<Rightarrow> string" where
  "insert_sql table cols n up =
     ''INSERT INTO '' @ quoted (CHR ''`'') table
       @ ''('' @ join_with (CHR '','') (map (quoted (CHR ''`'')) cols) @ '') VALUES''
       @ join_with (CHR '','') (replicate n (''('' @ join_with (CHR '','') (map (\<lambda>_. ''?'') cols) @ '')''))
       @ up @ '';''"

text \<open>The upsert clause of a dialect that takes the new values of \<open>cols\<close> when the columns \<open>cf\<close> collide.\<close>

fun upsert_sql :: "dialect \<Rightarrow> string list \<Rightarrow> string list \<Rightarrow> string" where
  "upsert_sql MySQL cf cols = '' ON DUPLICATE KEY UPDATE '' @ join_with (CHR '','')
     (map (\<lambda>c. quoted (CHR ''`'') c @ ''=VALUES('' @ quoted (CHR ''`'') c @ '')'') cols)"
| "upsert_sql SQLite3 cf cols = '' ON CONFLICT''
     @ (if cf = [] then [] else ''('' @ join_with (CHR '','') (map (quoted (CHR ''`'')) cf) @ '')'')
     @ '' DO UPDATE SET '' @ join_with (CHR '','')
     (map (\<lambda>c. quoted (CHR ''`'') c @ ''=excluded.'' @ quoted (CHR ''`'') c) cols)"

text \<open>
  \<open>up\<close> is the clause of an \<open>OnDuplicateKey\<close> that names fields of the model: conflict columns, which only
  SQLite reads, and columns to update; without \<open>OnDuplicateKey\<close> it is empty.
\<close>

definition upsert_columns :: "dialect \<Rightarrow> Model \<Rightarrow> 'x Upsert option \<Rightarrow> string \<Rightarrow> bool" where
  "upsert_columns d m odk up \<longleftrightarrow> (case odk of
     None \<Rightarrow> up = []
   | Some u \<Rightarrow> \<exists>cf cs fds. (d = SQLite3 \<longrightarrow> pick_fields m (up_conflictColumns u) = Inr cf) \<and>
       up_assigns u = map AColumn cs \<and> (\<forall>c \<in> set cs. c_table c = None) \<and>
       pick_fields m (map c_name cs) = Inr fds \<and> up = upsert_sql d (map ColName cf) (map ColName fds))"

lemma writes_insert_row:
  assumes "\<And>fd. fd \<in> set fds \<Longrightarrow> get_field (GoName fd) = Inr (f fd)"
  shows "writes (insert_row get_field fds)
    (''('' @ join_with (CHR '','') (map (\<lambda>_. ''?'') fds) @ '')'') (map f fds)"
proof -
  have "writes (insert_value get_field fd) ''?'' [f fd]" if "fd \<in> set fds" for fd
    using writes_and_then [OF writes_emit writes_addArgs] assms [OF that] by (simp add: insert_value_def)
  from writes_commas [OF this] have "writes (commas (insert_value get_field) fds)
      (join_with (CHR '','') (map (\<lambda>_. ''?'') fds)) (map f fds)" by (simp add: concat_map_singleton)
  from writesD [OF this] show ?thesis
    by (simp add: writes_def insert_row_def and_then_def emit_def ok_def)
qed

lemma concat_map_Nil: "concat (map (\<lambda>_. []) xs) = []"
  by (simp add: concat_eq_Nil_conv)

lemma pick_fields_columns:
  "pick_fields m cs = Inr fds \<Longrightarrow> list_all2 (\<lambda>c fd. field_column m c = Inr (ColName fd)) cs fds"
proof (induction cs arbitrary: fds)
  case (Cons c cs)
  then show ?case
    by (cases "pick_fields m cs") (auto simp: field_column_def split: option.splits)
qed simp

lemma writes_conflict_columns:
  assumes "quoter E = CHR ''`''" and "pick_fields (b_model E) cs = Inr fds"
  shows "writes (commas (\<lambda>col. buildColumn E None col) cs)
    (join_with (CHR '','') (map (quoted (CHR ''`'')) (map ColName fds))) ([] :: 'x val list)"
proof -
  define col where "col c = (case field_column (b_model E) c of Inr w \<Rightarrow> w | Inl _ \<Rightarrow> [])" for c
  have cols: "list_all2 (\<lambda>c fd. field_column (b_model E) c = Inr (ColName fd)) cs fds"
    by (rule pick_fields_columns [OF assms(2)])
  then have "map col cs = map ColName fds"
    by (induction rule: list_all2_induct) (simp_all add: col_def)
  moreover have "writes (buildColumn E None c) (quoted (CHR ''`'') (col c)) ([] :: 'x val list)" if "c \<in> set cs" for c
  proof -
    from that cols obtain w where "field_column (b_model E) c = Inr w"
      by (auto simp: list_all2_conv_all_nth in_set_conv_nth)
    with assms(1) show ?thesis
      by (simp add: writes_def buildColumn_def colName_def quote_def quoted_def and_then_def emit_def ok_def col_def)
  qed
  then have "writes (commas (\<lambda>col. buildColumn E None col) cs)
      (join_with (CHR '','') (map (\<lambda>c. quoted (CHR ''`'') (col c)) cs)) (concat (map (\<lambda>_. [] :: 'x val list) cs))"
    by (rule writes_commas)
  then have "writes (commas (\<lambda>col. buildColumn E None col) cs)
      (join_with (CHR '','') (map (quoted (CHR ''`'')) (map col cs))) ([] :: 'x val list)"
    by (simp only: concat_map_Nil map_map comp_def)
  ultimately show ?thesis by simp
qed

lemma writes_assign_column:
  assumes "quoter E = CHR ''`''" and "writes rest t []"
  shows "writes (do_all [comma n, quote E col, emit a, quote E col, emit b, rest])
      ((if n > 0 then '','' else []) @ quoted (CHR ''`'') col @ a @ quoted (CHR ''`'') col @ b @ t) []"
    and "writes (do_all [comma n, quote E col, emit a, quote E col, rest])
      ((if n > 0 then '','' else []) @ quoted (CHR ''`'') col @ a @ quoted (CHR ''`'') col @ t) []"
  using writesD [OF assms(2)] assms(1)
  by (simp_all add: writes_def quote_def quoted_def and_then_def emit_def ok_def comma_def)

lemma join_with_Cons: "join_with c (x # xs) = (if xs = [] then x else x @ c # join_with c xs)"
  by (cases xs) simp_all

lemma writes_assigns:
  assumes "quoter E = CHR ''`''" and "pick_fields (b_model E) (map c_name cs) = Inr fds"
    and "\<forall>c \<in> set cs. c_table c = None"
  shows "writes (mysql_assigns E bq n (map AColumn cs)) ((if n > 0 \<and> cs \<noteq> [] then '','' else []) @ join_with (CHR '','')
      (map (\<lambda>c. quoted (CHR ''`'') c @ ''=VALUES('' @ quoted (CHR ''`'') c @ '')'') (map ColName fds))) []"
    and "writes (sqlite_assigns E bq n (map AColumn cs)) ((if n > 0 \<and> cs \<noteq> [] then '','' else []) @ join_with (CHR '','')
      (map (\<lambda>c. quoted (CHR ''`'') c @ ''=excluded.'' @ quoted (CHR ''`'') c) (map ColName fds))) []"
proof -
  have cols: "list_all2 (\<lambda>c fd. field_column (b_model E) c = Inr (ColName fd)) (map c_name cs) fds"
    by (rule pick_fields_columns [OF assms(2)])
  show "writes (mysql_assigns E bq n (map AColumn cs)) ((if n > 0 \<and> cs \<noteq> [] then '','' else []) @ join_with (CHR '','')
      (map (\<lambda>c. quoted (CHR ''`'') c @ ''=VALUES('' @ quoted (CHR ''`'') c @ '')'') (map ColName fds))) []"
    using cols assms(3)
  proof (induction cs arbitrary: fds n)
    case (Cons c cs)
    then obtain fd fds' where fds: "fds = fd # fds'" by (auto simp: list_all2_Cons1)
    with Cons.prems(1) have lens: "fds' = [] \<longleftrightarrow> cs = []" by auto
    have "writes (mysql_assigns E bq (Suc n) (map AColumn cs)) ((if cs \<noteq> [] then '','' else []) @ join_with (CHR '','')
      (map (\<lambda>c. quoted (CHR ''`'') c @ ''=VALUES('' @ quoted (CHR ''`'') c @ '')'') (map ColName fds'))) []" 
      using Cons.IH [of fds' "Suc n"] Cons.prems fds by simp
    from writes_assign_column(1) [OF assms(1) this, of n "ColName fd" "''=VALUES(''" "'')''"] show ?case
      using Cons.prems fds lens by (cases "cs = []") (simp_all add: colName_def join_with_Cons)
  qed (simp add: writes_ok)
  show "writes (sqlite_assigns E bq n (map AColumn cs)) ((if n > 0 \<and> cs \<noteq> [] then '','' else []) @ join_with (CHR '','')
      (map (\<lambda>c. quoted (CHR ''`'') c @ ''=excluded.'' @ quoted (CHR ''`'') c) (map ColName fds))) []"
    using cols assms(3)
  proof (induction cs arbitrary: fds n)
    case (Cons c cs)
    then obtain fd fds' where fds: "fds = fd # fds'" by (auto simp: list_all2_Cons1)
    with Cons.prems(1) have lens: "fds' = [] \<longleftrightarrow> cs = []" by auto
    have "writes (sqlite_assigns E bq (Suc n) (map AColumn cs)) ((if cs \<noteq> [] then '','' else []) @ join_with (CHR '','')
      (map (\<lambda>c. quoted (CHR ''`'') c @ ''=excluded.'' @ quoted (CHR ''`'') c) (map ColName fds'))) []" 
      using Cons.IH [of fds' "Suc n"] Cons.prems fds by simp
    from writes_assign_column(2) [OF assms(1) this, of n "ColName fd" "''=excluded.''"] show ?case
      using Cons.prems fds lens by (cases "cs = []") (simp_all add: colName_def join_with_Cons)
  qed (simp add: writes_ok)
qed

text \<open>What the clause writes, for both dialects; without the clause nothing.\<close>

lemma writes_upsert:
  assumes "quoter E = CHR ''`''" and "upsert_columns d (b_model E) odk up"
  shows "writes (case odk of None \<Rightarrow> ok | Some u \<Rightarrow> buildUpsert d E bq u) up []"
proof (cases odk)
  case None
  with assms(2) show ?thesis by (simp add: upsert_columns_def writes_ok)
next
  case (Some u)
  with assms(2) obtain cf cs fds where c: "d = SQLite3 \<longrightarrow> pick_fields (b_model E) (up_conflictColumns u) = Inr cf"
      "up_assigns u = map AColumn cs" "\<forall>c \<in> set cs. c_table c = None"
      "pick_fields (b_model E) (map c_name cs) = Inr fds" "up = upsert_sql d (map ColName cf) (map ColName fds)"
    by (auto simp: upsert_columns_def)
  note assigns = writes_assigns [OF assms(1) c(4,3), of bq 0, THEN writesD]
  show ?thesis
  proof (cases d)
    case MySQL
    with Some c(2,5) assigns(1) show ?thesis
      by (simp add: writes_def mysql_buildUpsert_def and_then_def emit_def)
  next
    case SQLite3
    let ?list = "if up_conflictColumns u = [] then ok
        else do_all [emit ''('', commas (\<lambda>col. buildColumn E None col) (up_conflictColumns u), emit '')'']"
    from SQLite3 have cf: "pick_fields (b_model E) (up_conflictColumns u) = Inr cf" using c(1) by simp
    have "up_conflictColumns u = [] \<longleftrightarrow> cf = []"
      using list_all2_lengthD [OF pick_fields_columns [OF cf]] by auto
    then have "writes ?list (if cf = [] then []
        else ''('' @ join_with (CHR '','') (map (quoted (CHR ''`'')) (map ColName cf)) @ '')'') ([] :: 'a val list)"
      using writesD [OF writes_conflict_columns [OF assms(1) cf, where 'x = 'a]]
      by (auto simp: writes_def and_then_def emit_def ok_def)
    from writesD [OF this] SQLite3 Some c(2,5) assigns(2) show ?thesis
      unfolding writes_def sqlite_buildUpsert_def
      by (simp add: and_then_def emit_def ok_def sqlite_buildUpsert_def)
  qed
qed

lemma Inserter_Build_writes:
  fixes i :: "'x inserter"
  assumes v: "ins_values i = val # vals" and m: "ins_r i (rv_go val) = Inr m"
    and fds: "insert_fields m (ins_columns i) = Inr fds" and up: "upsert_columns (ins_dialect i) m (ins_upsert i) up"
    and get: "\<And>v fd. v \<in> set (ins_values i) \<Longrightarrow> fd \<in> set fds \<Longrightarrow> ins_field i m v (GoName fd) = Inr (f v fd)"
  shows "Inserter_Build bq i h =
    (let sql = ins_sb i @ insert_sql (TableName m) (map ColName fds) (length (ins_values i)) up;
         xs = concat (map (\<lambda>v. map (f v) fds) (ins_values i)) in
     (Inr (sql, xs), i\<lparr>ins_sb := sql, ins_args := xs\<rparr>, h))"
proof -
  let ?E = "\<lparr>reg = ins_r i, quoter = dialect_quoter (ins_dialect i), b_model = m\<rparr>"
  have q: "dialect_quoter (ins_dialect i) = CHR ''`''" by (cases "ins_dialect i") simp_all
  have cols: "writes (commas (\<lambda>fd. quote ?E (ColName fd)) fds)
      (join_with (CHR '','') (map (\<lambda>fd. quoted (CHR ''`'') (ColName fd)) fds)) ([] :: 'x val list)"
  proof -
    have q1: "writes (quote ?E (ColName fd)) (quoted (CHR ''`'') (ColName fd)) ([] :: 'x val list)" for fd
      using writes_quote [of ?E] by (simp add: quoted_def q)
    have "writes (commas (\<lambda>fd. quote ?E (ColName fd)) fds)
        (join_with (CHR '','') (map (\<lambda>fd. quoted (CHR ''`'') (ColName fd)) fds)) (concat (map (\<lambda>_. [] :: 'x val list) fds))"
      by (rule writes_commas) (rule q1)
    then show ?thesis by (simp only: concat_map_Nil)
  qed
  have rows: "writes (commas (\<lambda>v. insert_row (ins_field i m v) fds) (ins_values i))
      (join_with (CHR '','') (map (\<lambda>_. ''('' @ join_with (CHR '','') (map (\<lambda>_. ''?'') fds) @ '')'') (ins_values i)))
      (concat (map (\<lambda>v. map (f v) fds) (ins_values i)))"
    by (rule writes_commas) (rule writes_insert_row, rule get)
  define clause where "clause = (case ins_upsert i of None \<Rightarrow> ok | Some u \<Rightarrow> buildUpsert (ins_dialect i) ?E bq u)"
  have upsert: "writes clause up []"
    unfolding clause_def by (rule writes_upsert) (simp_all add: q up)
  have build: "buildInsert ?E bq i = do_all
     [emit ''INSERT INTO '', quote ?E (TableName m), emit ''('',
      do_all [reset_args, commas (\<lambda>fd. quote ?E (ColName fd)) fds, emit '') VALUES'',
        commas (\<lambda>v. insert_row (ins_field i m v) fds) (ins_values i), clause, emit '';'']]"
    by (simp add: buildInsert_def fds clause_def)
  show ?thesis
    using v m fds writesD [OF cols] writesD [OF rows] writesD [OF upsert]
    by (simp add: Inserter_Build_def build [unfolded q] and_then_def emit_def quote_def reset_args_def
        ok_def insert_sql_def quoted_def q map_replicate_const Let_def comp_def)
qed

text \<open>
  Claim C31: the statement of an \<open>Inserter\<close>. When the registry knows the type, the columns resolve and
  every field can be read, \<open>Build\<close> returns \<open>INSERT INTO\<close> the table, the columns quoted and in order, for
  each value a group of as many placeholders as there are columns, and the dialect's upsert clause if
  there is an \<open>OnDuplicateKey\<close>, here one that names columns (of assignments only the first counts, see
  \<open>upsert_drops_assignments\<close>). The arguments are the fields of the values, row by row, whatever arguments an
  earlier build left. The text is not reset: the statement stands behind the text an earlier build left.
\<close>

theorem Inserter_Build_rows:
  assumes "ins_values i = val # vals" and "ins_r i (rv_go val) = Inr m"
    and "insert_fields m (ins_columns i) = Inr fds" and "upsert_columns (ins_dialect i) m (ins_upsert i) up"
    and "\<And>v fd. v \<in> set (ins_values i) \<Longrightarrow> fd \<in> set fds \<Longrightarrow> ins_field i m v (GoName fd) = Inr (f v fd)"
  shows "fst (Inserter_Build bq i h) =
    Inr (ins_sb i @ insert_sql (TableName m) (map ColName fds) (length (ins_values i)) up,
         concat (map (\<lambda>v. map (f v) fds) (ins_values i)))"
  using Inserter_Build_writes [OF assms(1-4) assms(5)] by (simp add: Let_def)

text \<open>
  Building an \<open>Inserter\<close> twice breaks its query. The arguments are reset and the text is not,
  so the second \<open>Build\<close> returns the SQL twice and the arguments once.
\<close>

theorem Inserter_Build_twice:
  assumes "ins_values i = val # vals" and "ins_r i (rv_go val) = Inr m"
    and "insert_fields m (ins_columns i) = Inr fds" and "upsert_columns (ins_dialect i) m (ins_upsert i) up"
    and "\<And>v fd. v \<in> set (ins_values i) \<Longrightarrow> fd \<in> set fds \<Longrightarrow> ins_field i m v (GoName fd) = Inr (f v fd)"
    and "ins_sb i = []" and "Inserter_Build bq i h = (Inr (sql, xs), i', h')"
  shows "fst (Inserter_Build bq i' h') = Inr (sql @ sql, xs)"
proof -
  note first = Inserter_Build_writes [OF assms(1-4) assms(5), of bq h]
  from first assms(6,7) have i': "i' = i\<lparr>ins_sb := sql, ins_args := xs\<rparr>" "h' = h"
    and sql: "sql = insert_sql (TableName m) (map ColName fds) (length (ins_values i)) up"
      "xs = concat (map (\<lambda>v. map (f v) fds) (ins_values i))"
    by (simp_all add: Let_def)
  have "Inserter_Build bq i' h = (let s = ins_sb i' @ insert_sql (TableName m) (map ColName fds) (length (ins_values i')) up;
         ys = concat (map (\<lambda>v. map (f v) fds) (ins_values i')) in
     (Inr (s, ys), i'\<lparr>ins_sb := s, ins_args := ys\<rparr>, h))"
    using assms(1-5) by (intro Inserter_Build_writes) (simp_all add: i')
  then show ?thesis by (simp add: Let_def i' sql)
qed

lemma mysql_assigns_drop:
  "mysql_assigns E bq idx (pre @ AAssign column v # rest) = mysql_assigns E bq idx (pre @ [AAssign column v])"
  by (induction E bq idx pre rule: mysql_assigns.induct) (auto split: sum.split)

lemma sqlite_assigns_drop:
  "sqlite_assigns E bq idx (pre @ AAssign column v # rest) = sqlite_assigns E bq idx (pre @ [AAssign column v])"
  by (induction E bq idx pre rule: sqlite_assigns.induct) (auto split: sum.split)

text \<open>
  An upsert ends at its first \<open>Assignment\<close>. In both dialects, everything after the first
  \<open>Assign(column, value)\<close> is dropped without an error, because the case of an assignment returns from the
  function instead of going on with the loop.
\<close>

theorem upsert_drops_assignments:
  "buildUpsert d E bq \<lparr>up_conflictColumns = cs, up_assigns = pre @ AAssign column v # rest\<rparr> =
   buildUpsert d E bq \<lparr>up_conflictColumns = cs, up_assigns = pre @ [AAssign column v]\<rparr>"
  by (cases d)
    (simp_all add: mysql_buildUpsert_def sqlite_buildUpsert_def mysql_assigns_drop [of E bq 0 pre column v rest]
      sqlite_assigns_drop [of E bq 0 pre column v rest])

subsection \<open>Properties of UPDATE\<close>

lemma writes_update_column:
  assumes "c_table c = None" and "field_column (b_model E) (c_name c) = Inr col"
    and "get_field (c_name c) = Inr v"
  shows "writes (update_assign E bq get_field (AColumn c)) (quoted (quoter E) col @ ''=?'') [v]"
  using assms
  by (simp add: writes_def buildColumn_def colName_def quote_def quoted_def and_then_def emit_def addArgs_def
      ok_def)

text \<open>
  The statement of an \<open>Updater\<close> over columns: \<open>UPDATE\<close> the table, each column quoted with a
  placeholder, then the condition; the arguments are the fields' values in the order of the columns,
  followed by those of the condition.
\<close>

theorem Updater_Build_columns:
  assumes "upd_assigns u = map AColumn cs" and "cs \<noteq> []" and "upd_val u = Some val"
    and "upd_r u (rv_go val) = Inr m"
    and "\<And>c. c \<in> set cs \<Longrightarrow> c_table c = None"
    and "\<And>c. c \<in> set cs \<Longrightarrow> field_column m (c_name c) = Inr (col c)"
    and "\<And>c. c \<in> set cs \<Longrightarrow> upd_field u m val (c_name c) = Inr (f c)"
    and "writes (buildWhere \<lparr>reg = upd_r u, quoter = CHR ''`'', b_model = m\<rparr> bq '' WHERE '' (upd_where u)) w xs"
    and "upd_sb u = []" and "upd_args u = []"
  shows "fst (Updater_Build bq u h) =
    Inr (''UPDATE '' @ quoted (CHR ''`'') (TableName m) @ '' SET ''
           @ join_with (CHR '','') (map (\<lambda>c. quoted (CHR ''`'') (col c) @ ''=?'') cs) @ w @ '';'',
         map f cs @ xs)"
proof -
  let ?E = "\<lparr>reg = upd_r u, quoter = CHR ''`'', b_model = m\<rparr>"
  have q: "dialect_quoter (upd_dialect u) = CHR ''`''" by (cases "upd_dialect u") simp_all
  have u: "u\<lparr>upd_val := Some val\<rparr> = u" using assms(3) by (cases u) simp
  have "writes (update_assign ?E bq (upd_field u m val) (AColumn c)) (quoted (CHR ''`'') (col c) @ ''=?'') [f c]"
    if "c \<in> set cs" for c
    using writes_update_column [of c ?E "col c" "upd_field u m val" "f c" bq] assms(5-7) that by simp
  then have sets: "writes (commas (\<lambda>c. update_assign ?E bq (upd_field u m val) (AColumn c)) cs)
      (join_with (CHR '','') (map (\<lambda>c. quoted (CHR ''`'') (col c) @ ''=?'') cs)) (concat (map (\<lambda>c. [f c]) cs))"
    by (rule writes_commas)
  have map: "commas g (map AColumn cs) = commas (\<lambda>c. g (AColumn c)) cs" for g :: "'a assignable \<Rightarrow> 'a bm"
    by (simp add: commas_def enumerate_map_upt zip_map2 enumerate_eq_zip comp_def case_prod_unfold)
  show ?thesis
    using assms(1-4,9,10) writesD [OF sets] writesD [OF assms(8)]
    by (simp add: Updater_Build_def buildUpdate_def and_then_def emit_def quote_def ok_def q u map
        quoted_def Let_def concat_map_singleton)
qed


subsection \<open>Concrete statements\<close>

definition user_row :: "int \<Rightarrow> int \<Rightarrow> nat row_val" where
  "user_row k v = \<lparr>rv_go = user_val, rv_struct = (\<lambda>a. if a = 0 then VInt k else VInt v)\<rparr>"

definition by_address :: "Model \<Rightarrow> nat row_val \<Rightarrow> string \<Rightarrow> (orm_error, nat val) result" where
  "by_address m v name = unsafe_Field m (rv_struct v) name"

definition two_users :: "nat inserter" where
  "two_users = Values [user_row 1 10, user_row 2 20] (NewInserter user_reg MySQL by_address)"

lemmas insert_demo = two_users_def Values_def NewInserter_def user_row_def user_reg_def user_val_def
  insert_fields_def by_address_def unsafe_Field_def user_model_def

definition user_column :: "nat row_val \<Rightarrow> Field \<Rightarrow> nat val" where
  "user_column v fd = rv_struct v (Offset fd)"

lemma two_users_rows:
  "ins_values two_users = user_row 1 10 # [user_row 2 20]"
  "ins_r two_users (rv_go (user_row 1 10)) = Inr user_model"
  "insert_fields user_model (ins_columns two_users) = Inr (Fields user_model)"
  "upsert_columns (ins_dialect two_users) user_model (ins_upsert two_users) []"
  by (simp_all add: insert_demo upsert_columns_def)

lemma two_users_get:
  "v \<in> set (ins_values two_users) \<Longrightarrow> fd \<in> set (Fields user_model) \<Longrightarrow>
     ins_field two_users user_model v (GoName fd) = Inr (user_column v fd)"
  by (auto simp: insert_demo user_column_def)

text \<open>The same two rows with SQLite and an upsert, in a builder that holds text and arguments.\<close>

definition upsert_users :: "nat inserter" where
  "upsert_users = (Update_upsert [''Id''] [AColumn (C ''FirstName'')]
     (Values [user_row 1 10, user_row 2 20] (NewInserter user_reg SQLite3 by_address)))
       \<lparr>ins_sb := ''INSERT;'', ins_args := [VInt 0]\<rparr>"

lemma upsert_users_rows:
  "ins_values upsert_users = user_row 1 10 # [user_row 2 20]"
  "ins_r upsert_users (rv_go (user_row 1 10)) = Inr user_model"
  "insert_fields user_model (ins_columns upsert_users) = Inr (Fields user_model)"
  "upsert_columns (ins_dialect upsert_users) user_model (ins_upsert upsert_users)
     '' ON CONFLICT(`id`) DO UPDATE SET `first`=excluded.`first`''"
proof -
  let ?u = "\<lparr>up_conflictColumns = [''Id''], up_assigns = [AColumn (C ''FirstName'')]\<rparr> :: nat Upsert"
  have "up_assigns ?u = map AColumn [C ''FirstName'']" by simp
  then have "upsert_columns SQLite3 user_model (Some ?u) '' ON CONFLICT(`id`) DO UPDATE SET `first`=excluded.`first`''"
    unfolding upsert_columns_def option.case
    by (intro exI [of _ "[hd (Fields user_model)]"] exI [of _ "[C ''FirstName'']"] exI [of _ "tl (Fields user_model)"])
      (simp add: C_def user_model_def quoted_def)
  then show "upsert_columns (ins_dialect upsert_users) user_model (ins_upsert upsert_users)
     '' ON CONFLICT(`id`) DO UPDATE SET `first`=excluded.`first`''"
    by (simp add: upsert_users_def Update_upsert_def Values_def NewInserter_def)
qed (simp_all add: insert_demo upsert_users_def Update_upsert_def)

lemma upsert_users_get:
  "v \<in> set (ins_values upsert_users) \<Longrightarrow> fd \<in> set (Fields user_model) \<Longrightarrow>
     ins_field upsert_users user_model v (GoName fd) = Inr (user_column v fd)"
  by (auto simp: insert_demo upsert_users_def Update_upsert_def user_column_def)

theorem Inserter_Build_rows_witness:
  "fst (Inserter_Build (Build 0) upsert_users (user_heap by_id)) =
    Inr (''INSERT;INSERT INTO `user`(`id`,`first`) VALUES(?,?),(?,?) ON CONFLICT(`id`) DO UPDATE SET `first`=excluded.`first`;'',
      [VInt 1, VInt 10, VInt 2, VInt 20])"
  using Inserter_Build_rows [OF upsert_users_rows upsert_users_get, of "Build 0" "user_heap by_id"]
  by (simp add: insert_sql_def quoted_def user_column_def insert_demo upsert_users_def Update_upsert_def)

theorem Inserter_Build_twice_witness:
  "\<exists>i' h'. snd (Inserter_Build (Build 0) two_users (user_heap by_id)) = (i', h') \<and> fst (Inserter_Build (Build 0) i' h') =
    Inr (''INSERT INTO `user`(`id`,`first`) VALUES(?,?),(?,?);INSERT INTO `user`(`id`,`first`) VALUES(?,?),(?,?);'',
         [VInt 1, VInt 10, VInt 2, VInt 20])"
proof -
  have "fst (Inserter_Build (Build 0) two_users (user_heap by_id)) =
    Inr (''INSERT INTO `user`(`id`,`first`) VALUES(?,?),(?,?);'', [VInt 1, VInt 10, VInt 2, VInt 20])"
    using Inserter_Build_writes [OF two_users_rows two_users_get, of "Build 0" "user_heap by_id"]
    by (simp add: insert_sql_def quoted_def user_column_def insert_demo Let_def)
  then obtain i' h' where first: "Inserter_Build (Build 0) two_users (user_heap by_id) =
      (Inr (''INSERT INTO `user`(`id`,`first`) VALUES(?,?),(?,?);'', [VInt 1, VInt 10, VInt 2, VInt 20]), i', h')"
    by (metis prod.collapse)
  with Inserter_Build_twice [OF two_users_rows two_users_get _ first] show ?thesis by (simp add: insert_demo)
qed

definition set_first :: "nat updater" where
  "set_first = Updater_Where [Column_EQ (C ''Id'') (Inr (VInt 1))]
     (Updater_Set [AColumn (C ''FirstName'')]
       (Updater_Update (user_row 1 10) (NewUpdater user_reg SQLite3 by_address (user_row 0 0))))"

theorem Updater_Build_columns_witness:
  "fst (Updater_Build (Build 0) set_first (user_heap by_id)) = Inr (''UPDATE `user` SET `first`=? WHERE `id` = ?;'', [VInt 10, VInt 1])"
proof -
  note demo = set_first_def Updater_Where_def Updater_Set_def Updater_Update_def NewUpdater_def insert_demo
    Column_EQ_def C_def exprOf_def valueOf_def
  let ?E = "\<lparr>reg = upd_r set_first, quoter = CHR ''`'', b_model = user_model\<rparr>"
  have w: "writes (buildWhere ?E (Build 0) '' WHERE '' (upd_where set_first)) '' WHERE `id` = ?'' [VInt 1]"
    by (simp add: writes_def demo build_defs)
  have "fst (Updater_Build (Build 0) set_first (user_heap by_id)) =
    Inr (''UPDATE '' @ quoted (CHR ''`'') (TableName user_model) @ '' SET ''
           @ join_with (CHR '','') (map (\<lambda>c. quoted (CHR ''`'') ''first'' @ ''=?'') [C ''FirstName'' :: nat col])
           @ '' WHERE `id` = ?'' @ '';'',
         map (\<lambda>_. VInt 10) [C ''FirstName'' :: nat col] @ [VInt 1])"
    by (rule Updater_Build_columns [where val = "user_row 1 10", OF _ _ _ _ _ _ _ w]) (simp_all add: demo field_column_def)
  then show ?thesis by (simp add: quoted_def user_model_def)
qed

end
