(* ===== verification/Orm_Exec.thy ===== *)
theory Orm_Exec
  imports Orm_Write
begin

text \<open>
  Running a query in \<open>homework_subquery\<close>: the handlers and the middleware chain of \<open>core.go\<close>, \<open>Get\<close> of
  \<open>select.go\<close>, \<open>raw_query.go\<close> and \<open>result.go\<close>, \<open>Exec\<close> of \<open>insert.go\<close> and \<open>updater.go\<close>, the options of
  \<open>db.go\<close>, and the middleware of \<open>middleware/prometheus\<close>. The packages \<open>querylog\<close> and \<open>opentelemetry\<close> are
  not modelled: they read a field \<open>qc.builder\<close> that \<open>QueryContext\<close> does not have, and do not compile.

  A handler is a function of the query context and the state of the world; \<open>None\<close> is a panic. The
  database is what a session does to that state.
\<close>

subsection \<open>Query contexts, results and sessions\<close>

datatype 'x any_result = RNil | RStruct "'x val struct_mem" | RSql "int \<times> int"

record ('w, 'x) QueryContext =
  qc_Type :: string
  qc_Builder :: "'w \<Rightarrow> (orm_error, 'x query) result \<times> 'w"
  qc_Model :: "Model option"

record 'x QueryResult =
  qr_Result :: "'x any_result"
  qr_Err :: "orm_error option"

type_synonym ('w, 'x) HandleFunc = "('w, 'x) QueryContext \<Rightarrow> 'w \<Rightarrow> 'x QueryResult option \<times> 'w"

type_synonym ('w, 'x) Middleware = "('w, 'x) HandleFunc \<Rightarrow> ('w, 'x) HandleFunc"

text \<open>The rows of a query: whether there is a first one, and what the valuers read of it.\<close>

record 'x rowset =
  rs_next :: bool
  rs_rows :: "'x val rows"

record ('w, 'x) session =
  ss_queryContext :: "string \<Rightarrow> 'x val list \<Rightarrow> 'w \<Rightarrow> (orm_error, 'x rowset) result \<times> 'w"
  ss_Next :: "'x rowset \<Rightarrow> 'w \<Rightarrow> bool \<times> 'w"
  ss_execContext :: "string \<Rightarrow> 'x val list \<Rightarrow> 'w \<Rightarrow> (orm_error, int \<times> int) result \<times> 'w"

record ('w, 'x) core =
  co_r :: "go_val \<Rightarrow> (orm_error, Model) result"
  co_dialect :: dialect
  co_field :: "Model \<Rightarrow> 'x row_val \<Rightarrow> string \<Rightarrow> (orm_error, 'x val) result"
  co_setColumns :: "Model \<Rightarrow> 'x val rows \<Rightarrow> 'x row_val \<Rightarrow> (orm_error, unit) result \<times> 'x val struct_mem"
  co_ms :: "('w, 'x) Middleware list"

subsection \<open>Handlers\<close>

definition failed :: "orm_error \<Rightarrow> 'x QueryResult option" where
  "failed e = Some \<lparr>qr_Result = RNil, qr_Err = Some e\<rparr>"

text \<open>\<open>new\<close> is \<open>new(T)\<close>.\<close>

definition getHandler :: "'x row_val \<Rightarrow> ('w, 'x) session \<Rightarrow> ('w, 'x) core \<Rightarrow> ('w, 'x) HandleFunc" where
  "getHandler new sess c qc w0 =
     (case qc_Builder qc w0 of
        (Inl e, w) \<Rightarrow> (failed e, w)
      | (Inr (sql, args), w) \<Rightarrow>
          (case ss_queryContext sess sql args w of
             (Inl e, w) \<Rightarrow> (failed e, w)
           | (Inr rs, w) \<Rightarrow>
               (case ss_Next sess rs w of
                  (False, w) \<Rightarrow> (failed ErrNoRows, w)
                | (True, w) \<Rightarrow>
                    (case co_r c (rv_go new) of
                       Inl e \<Rightarrow> (failed e, w)
                     | Inr meta \<Rightarrow>
                         (case co_setColumns c meta (rs_rows rs) new of
                            (r, tp) \<Rightarrow> (Some \<lparr>qr_Result = RStruct tp,
                               qr_Err = (case r of Inl e \<Rightarrow> Some e | Inr _ \<Rightarrow> None)\<rparr>, w))))))"

definition execHandler :: "('w, 'x) session \<Rightarrow> ('w, 'x) HandleFunc" where
  "execHandler sess qc w0 =
     (case qc_Builder qc w0 of
        (Inl e, w) \<Rightarrow> (failed e, w)
      | (Inr (sql, args), w) \<Rightarrow>
          (case ss_execContext sess sql args w of
             (Inl e, w) \<Rightarrow> (failed e, w)
           | (Inr res, w) \<Rightarrow> (Some \<lparr>qr_Result = RSql res, qr_Err = None\<rparr>, w)))"

definition chain :: "('w, 'x) Middleware list \<Rightarrow> ('w, 'x) HandleFunc \<Rightarrow> ('w, 'x) HandleFunc" where
  "chain ms handler = foldr (\<lambda>m handler. m handler) ms handler"

definition get_query :: "'x row_val \<Rightarrow> ('w, 'x) core \<Rightarrow> ('w, 'x) session \<Rightarrow> ('w, 'x) HandleFunc" where
  "get_query new c sess qc w = chain (co_ms c) (getHandler new sess c) qc w"

text \<open>\<open>Result\<close>: an error, and the driver's result, which may be nil.\<close>

record exec_result =
  er_err :: "orm_error option"
  er_res :: "(int \<times> int) option"

definition exec_query :: "('w, 'x) session \<Rightarrow> ('w, 'x) core \<Rightarrow> ('w, 'x) QueryContext \<Rightarrow> 'w
    \<Rightarrow> exec_result option \<times> 'w" where
  "exec_query sess c qc w0 =
     (case chain (co_ms c) (execHandler sess) qc w0 of
        (None, w) \<Rightarrow> (None, w)
      | (Some qr, w) \<Rightarrow>
          (case qr_Result qr of
             RNil \<Rightarrow> (Some \<lparr>er_err = qr_Err qr, er_res = None\<rparr>, w)
           | RSql res \<Rightarrow> (Some \<lparr>er_err = qr_Err qr, er_res = Some res\<rparr>, w)
           | RStruct _ \<Rightarrow> (None, w)))"

definition LastInsertId :: "exec_result \<Rightarrow> (int \<times> orm_error option) option" where
  "LastInsertId r =
     (case er_err r of
        Some e \<Rightarrow> Some (0, Some e)
      | None \<Rightarrow> (case er_res r of None \<Rightarrow> None | Some (lid, _) \<Rightarrow> Some (lid, None)))"

definition RowsAffected :: "exec_result \<Rightarrow> (int \<times> orm_error option) option" where
  "RowsAffected r =
     (case er_err r of
        Some e \<Rightarrow> Some (0, Some e)
      | None \<Rightarrow> (case er_res r of None \<Rightarrow> None | Some (_, n) \<Rightarrow> Some (n, None)))"

text \<open>The end of both \<open>Get\<close>s: a result that is not the struct is a failed type assertion.\<close>

definition get_result :: "'x QueryResult option \<times> 'w
    \<Rightarrow> ('x val struct_mem option \<times> orm_error option) option \<times> 'w" where
  "get_result rw =
     (case rw of
        (None, w) \<Rightarrow> (None, w)
      | (Some res, w) \<Rightarrow>
          (case qr_Result res of
             RNil \<Rightarrow> (Some (None, qr_Err res), w)
           | RStruct tp \<Rightarrow> (Some (Some tp, qr_Err res), w)
           | RSql _ \<Rightarrow> (None, w)))"

subsection \<open>The state of the program and its database\<close>

text \<open>
  The selectors, the statements sent so far, and the number of result sets that are open. \<open>answer\<close> and
  \<open>effect\<close> are what the database says to a query and to a statement; \<open>sql.DB\<close> opens a result set for a
  query that succeeds, and \<open>Next\<close> closes it when there is no row.
\<close>

record 'x world =
  w_heap :: "'x heap"
  w_sent :: "'x query list"
  w_open :: nat

definition db_session :: "('x query \<Rightarrow> (orm_error, 'x rowset) result)
    \<Rightarrow> ('x query \<Rightarrow> (orm_error, int \<times> int) result) \<Rightarrow> ('x world, 'x) session" where
  "db_session answer effect =
     \<lparr>ss_queryContext = (\<lambda>sql args w.
        (answer (sql, args),
         w\<lparr>w_sent := w_sent w @ [(sql, args)],
           w_open := (case answer (sql, args) of Inl _ \<Rightarrow> w_open w | Inr _ \<Rightarrow> w_open w + 1)\<rparr>)),
      ss_Next = (\<lambda>rs w. (rs_next rs, if rs_next rs then w else w\<lparr>w_open := w_open w - 1\<rparr>)),
      ss_execContext = (\<lambda>sql args w. (effect (sql, args), w\<lparr>w_sent := w_sent w @ [(sql, args)]\<rparr>))\<rparr>"

definition selector_builder :: "nat \<Rightarrow> nat \<Rightarrow> 'x world \<Rightarrow> (orm_error, 'x query) result \<times> 'x world" where
  "selector_builder n sid w = (case Build n sid (w_heap w) of (r, h) \<Rightarrow> (r, w\<lparr>w_heap := h\<rparr>))"

definition Selector_Get :: "nat \<Rightarrow> 'x row_val \<Rightarrow> ('x world, 'x) core \<Rightarrow> ('x world, 'x) session \<Rightarrow> nat \<Rightarrow> 'x world
    \<Rightarrow> ('x val struct_mem option \<times> orm_error option) option \<times> 'x world" where
  "Selector_Get n new c sess sid w = get_result (get_query new c sess
     \<lparr>qc_Type = ''SELECT'', qc_Builder = selector_builder n sid, qc_Model = None\<rparr> w)"

definition RawQuery_Build :: "string \<Rightarrow> 'x val list \<Rightarrow> 'w \<Rightarrow> (orm_error, 'x query) result \<times> 'w" where
  "RawQuery_Build sql args w = (Inr (sql, args), w)"

definition RawQuery_Get :: "'x row_val \<Rightarrow> ('w, 'x) core \<Rightarrow> ('w, 'x) session \<Rightarrow> string \<Rightarrow> 'x val list \<Rightarrow> 'w
    \<Rightarrow> ('x val struct_mem option \<times> orm_error option) option \<times> 'w" where
  "RawQuery_Get new c sess sql args w = get_result (get_query new c sess
     \<lparr>qc_Type = ''RAW'', qc_Builder = RawQuery_Build sql args, qc_Model = None\<rparr> w)"

definition RawQuery_Exec :: "('w, 'x) core \<Rightarrow> ('w, 'x) session \<Rightarrow> string \<Rightarrow> 'x val list \<Rightarrow> 'w
    \<Rightarrow> exec_result option \<times> 'w" where
  "RawQuery_Exec c sess sql args w = exec_query sess c
     \<lparr>qc_Type = ''RAW'', qc_Builder = RawQuery_Build sql args, qc_Model = None\<rparr> w"

text \<open>The inserter is part of the state while its query runs.\<close>

definition inserter_builder :: "nat \<Rightarrow> 'x inserter \<times> 'x world \<Rightarrow>
    (orm_error, 'x query) result \<times> 'x inserter \<times> 'x world" where
  "inserter_builder n = (\<lambda>(i, w).
     case Inserter_Build (Build n) i (w_heap w) of (r, i, h) \<Rightarrow> (r, i, w\<lparr>w_heap := h\<rparr>))"

definition Inserter_Exec :: "nat \<Rightarrow> ('x inserter \<times> 'x world, 'x) core \<Rightarrow> ('x inserter \<times> 'x world, 'x) session
    \<Rightarrow> 'x inserter \<times> 'x world \<Rightarrow> exec_result option \<times> 'x inserter \<times> 'x world" where
  "Inserter_Exec n c sess w = exec_query sess c
     \<lparr>qc_Type = ''INSERT'', qc_Builder = inserter_builder n, qc_Model = None\<rparr> w"

text \<open>\<open>Updater.Exec\<close> builds and runs by itself: no middleware sees it.\<close>

definition Updater_Exec :: "nat \<Rightarrow> ('x world, 'x) session \<Rightarrow> 'x updater \<Rightarrow> 'x world
    \<Rightarrow> exec_result \<times> 'x updater \<times> 'x world" where
  "Updater_Exec n sess u w =
     (case Updater_Build (Build n) u (w_heap w) of
        (Inl e, u, h) \<Rightarrow> (\<lparr>er_err = Some e, er_res = None\<rparr>, u, w\<lparr>w_heap := h\<rparr>)
      | (Inr (sql, args), u, h) \<Rightarrow>
          (case ss_execContext sess sql args (w\<lparr>w_heap := h\<rparr>) of
             (Inl e, w) \<Rightarrow> (\<lparr>er_err = Some e, er_res = None\<rparr>, u, w)
           | (Inr res, w) \<Rightarrow> (\<lparr>er_err = None, er_res = Some res\<rparr>, u, w)))"

subsection \<open>Middlewares\<close>

text \<open>
  The deferred function reads the table's name from \<open>qc.Model\<close> after the query has been run; with no model
  it panics.
\<close>

definition prometheus :: "(string \<Rightarrow> string \<Rightarrow> 'w \<Rightarrow> 'w) \<Rightarrow> ('w, 'x) Middleware" where
  "prometheus observe next qc w0 =
     (case next qc w0 of
        (r, w) \<Rightarrow> (case qc_Model qc of
           None \<Rightarrow> (None, w)
         | Some m \<Rightarrow> (r, observe (qc_Type qc) (TableName m) w)))"

subsection \<open>Lemmas\<close>

lemma chain_Nil [simp]: "chain [] handler = handler"
  by (simp add: chain_def)

lemma chain_Cons [simp]: "chain (m # ms) handler = m (chain ms handler)"
  by (simp add: chain_def)

lemma db_session_simps [simp]:
  "ss_Next (db_session answer effect) rs w = (rs_next rs, if rs_next rs then w else w\<lparr>w_open := w_open w - 1\<rparr>)"
  "ss_queryContext (db_session answer effect) sql args w =
     (answer (sql, args), w\<lparr>w_sent := w_sent w @ [(sql, args)],
        w_open := (case answer (sql, args) of Inl _ \<Rightarrow> w_open w | Inr _ \<Rightarrow> w_open w + 1)\<rparr>)"
  by (simp_all add: db_session_def)

lemma getHandler_sent:
  assumes "qc_Builder qc w = (Inr (sql, args), w')"
  shows "w_sent (snd (getHandler new (db_session answer effect) c qc w)) = w_sent w' @ [(sql, args)]"
  by (simp add: getHandler_def assms split: sum.split prod.split bool.split)

lemma getHandler_ms [simp]: "getHandler new sess (c\<lparr>co_ms := ms\<rparr>) = getHandler new sess c"
proof -
  have "co_r (c\<lparr>co_ms := ms\<rparr>) = co_r c" "co_setColumns (c\<lparr>co_ms := ms\<rparr>) = co_setColumns c" by simp_all
  then show ?thesis by (intro ext) (simp only: getHandler_def)
qed

lemma prometheus_no_model [simp]:
  "qc_Model qc = None \<Longrightarrow> prometheus observe next qc w = (None, snd (next qc w))"
  by (simp add: prometheus_def split: prod.split)

lemma get_result_panic [simp]: "get_result (None, w) = (None, w)"
  by (simp add: get_result_def)

lemma get_result_world [simp]: "snd (get_result rw) = snd rw"
  by (simp add: get_result_def split: prod.split option.split any_result.split)

text \<open>A result without a driver's result, from a middleware that ends the query, panics when it is read.\<close>

lemma LastInsertId_nil: "LastInsertId \<lparr>er_err = None, er_res = None\<rparr> = None"
  by (simp add: LastInsertId_def)

lemma Selector_Get_run:
  assumes "Build n sid (w_heap w) = (Inr (sql, xs), h)" and "answer (sql, xs) = Inr rs"
    and "co_ms c = []" and "co_r c (rv_go new) = Inr meta"
    and "co_setColumns c meta (rs_rows rs) new = (r, tp)"
  shows "Selector_Get n new c (db_session answer effect) sid w =
    (Some (if rs_next rs then (Some tp, case r of Inl e \<Rightarrow> Some e | Inr _ \<Rightarrow> None) else (None, Some ErrNoRows)),
     w\<lparr>w_heap := h, w_sent := w_sent w @ [(sql, xs)],
       w_open := w_open w + (if rs_next rs then 1 else 0)\<rparr>)"
  using assms
  by (simp add: Selector_Get_def get_query_def getHandler_def selector_builder_def get_result_def failed_def)

subsection \<open>Properties\<close>

text \<open>
  Claim C35: what \<open>Get\<close> of a selector does without middlewares. When \<open>Build\<close> gives a query and the database
  accepts it, that query is sent once. With no row the error is \<open>ErrNoRows\<close> and the result set is closed;
  with a row the struct filled by the valuer is returned, even beside the valuer's error, and the
  result set stays open: nothing closes it.
\<close>

theorem Selector_Get_outcome:
  assumes "Build n sid (w_heap w) = (Inr (sql, xs), h)" and "answer (sql, xs) = Inr rs"
    and "co_ms c = []" and "co_r c (rv_go new) = Inr meta"
    and "co_setColumns c meta (rs_rows rs) new = (r, tp)"
  shows "Selector_Get n new c (db_session answer effect) sid w =
    (Some (if rs_next rs then (Some tp, case r of Inl e \<Rightarrow> Some e | Inr _ \<Rightarrow> None) else (None, Some ErrNoRows)),
     w\<lparr>w_heap := h, w_sent := w_sent w @ [(sql, xs)],
       w_open := w_open w + (if rs_next rs then 1 else 0)\<rparr>)"
  using assms by (rule Selector_Get_run)

text \<open>
  Claim C36: with the \<open>prometheus\<close> middleware every query panics, after it has been run. No query context
  has its \<open>Model\<close> set, and the middleware reads the table's name from it. A \<open>Get\<close> whose query the database
  accepts has sent it once and leaves its result set open if there is a row; a raw statement has been sent to
  the database. Neither returns a result, and nothing is observed.
\<close>

theorem prometheus_panics:
  assumes "Build n sid (w_heap w) = (Inr (sql, xs), h)" and "answer (sql, xs) = Inr rs"
  shows "Selector_Get n new (c\<lparr>co_ms := [prometheus observe]\<rparr>) (db_session answer effect) sid w =
      (None, w\<lparr>w_heap := h, w_sent := w_sent w @ [(sql, xs)], w_open := w_open w + (if rs_next rs then 1 else 0)\<rparr>)
    \<and> RawQuery_Exec (c\<lparr>co_ms := [prometheus observe]\<rparr>) (db_session answer effect) stmt args w =
      (None, w\<lparr>w_sent := w_sent w @ [(stmt, args)]\<rparr>)"
proof
  have "snd (getHandler new (db_session answer effect) c
      \<lparr>qc_Type = ''SELECT'', qc_Builder = selector_builder n sid, qc_Model = None\<rparr> w) =
      w\<lparr>w_heap := h, w_sent := w_sent w @ [(sql, xs)], w_open := w_open w + (if rs_next rs then 1 else 0)\<rparr>"
    using assms by (simp add: getHandler_def selector_builder_def split: sum.split prod.split)
  then show "Selector_Get n new (c\<lparr>co_ms := [prometheus observe]\<rparr>) (db_session answer effect) sid w =
      (None, w\<lparr>w_heap := h, w_sent := w_sent w @ [(sql, xs)], w_open := w_open w + (if rs_next rs then 1 else 0)\<rparr>)"
    by (simp add: Selector_Get_def get_query_def)
  show "RawQuery_Exec (c\<lparr>co_ms := [prometheus observe]\<rparr>) (db_session answer effect) stmt args w =
      (None, w\<lparr>w_sent := w_sent w @ [(stmt, args)]\<rparr>)"
    by (simp add: RawQuery_Exec_def exec_query_def execHandler_def RawQuery_Build_def db_session_def split: sum.split)
qed

subsection \<open>A concrete query\<close>

definition by_address_set ::
  "Model \<Rightarrow> nat val rows \<Rightarrow> nat row_val \<Rightarrow> (orm_error, unit) result \<times> nat val struct_mem" where
  "by_address_set m rows v = unsafe_SetColumns m rows (rv_struct v)"

definition user_core :: "(nat world, nat) core" where
  "user_core = \<lparr>co_r = user_reg, co_dialect = MySQL, co_field = by_address,
     co_setColumns = by_address_set, co_ms = []\<rparr>"

definition user_world :: "nat world" where
  "user_world = \<lparr>w_heap = user_heap by_id, w_sent = [], w_open = 0\<rparr>"

definition one_user :: "nat query \<Rightarrow> (orm_error, nat rowset) result" where
  "one_user q = Inr \<lparr>rs_next = True, rs_rows = \<lparr>r_columns = Inr [''id''], r_scan_error = None,
     r_value = (\<lambda>_ _ _. (Inr (), VInt 7))\<rparr>\<rparr>"

theorem Selector_Get_outcome_witness:
  "\<exists>h. Selector_Get 1 (user_row 0 0) user_core (db_session one_user (\<lambda>_. Inr (0, 0))) 0 user_world =
    (Some (Some ((rv_struct (user_row 0 0))(0 := VInt 7)), None),
     \<lparr>w_heap = h, w_sent = [(''SELECT * FROM `user` WHERE `id` = ?;'', [VAny 7])], w_open = 1\<rparr>)"
proof -
  obtain h where b: "Build 1 0 (w_heap user_world) = (Inr (''SELECT * FROM `user` WHERE `id` = ?;'', [VAny 7]), h)"
    using Build_by_id by (cases "Build 1 0 (user_heap by_id)") (auto simp: user_world_def)
  let ?rs = "\<lparr>rs_next = True, rs_rows = \<lparr>r_columns = Inr [''id''], r_scan_error = None,
     r_value = (\<lambda>_ _ _. (Inr (), VInt 7))\<rparr>\<rparr> :: nat rowset"
  have a: "one_user q = Inr ?rs" for q by (simp add: one_user_def)
  have card: "card (dom (ColumnMap user_model)) = 2" by (simp add: user_model_def)
  have "unsafe_SetColumns user_model (rs_rows ?rs) (rv_struct (user_row 0 0)) =
      (Inr (), (rv_struct (user_row 0 0))(0 := VInt 7))"
    by (simp add: unsafe_SetColumns_def card) (simp add: user_model_def Scan_def)
  then have s: "co_setColumns user_core user_model (rs_rows ?rs) (user_row 0 0) =
      (Inr (), (rv_struct (user_row 0 0))(0 := VInt 7))" by (simp add: user_core_def by_address_set_def)
  have r: "co_ms user_core = []" "co_r user_core (rv_go (user_row 0 0)) = Inr user_model"
    by (simp_all add: user_core_def user_reg_def user_row_def user_val_def)
  show ?thesis
    using Selector_Get_outcome [OF b a r s] by (auto simp: user_world_def)
qed

theorem prometheus_panics_witness:
  "\<exists>h. Selector_Get 1 (user_row 0 0) (user_core\<lparr>co_ms := [prometheus (\<lambda>_ _ w. w)]\<rparr>)
      (db_session one_user (\<lambda>_. Inr (0, 0))) 0 user_world =
    (None, \<lparr>w_heap = h, w_sent = [(''SELECT * FROM `user` WHERE `id` = ?;'', [VAny 7])], w_open = 1\<rparr>)"
proof -
  obtain h where b: "Build 1 0 (w_heap user_world) = (Inr (''SELECT * FROM `user` WHERE `id` = ?;'', [VAny 7]), h)"
    using Build_by_id by (cases "Build 1 0 (user_heap by_id)") (auto simp: user_world_def)
  show ?thesis
    using prometheus_panics [where w = user_world and new = "user_row 0 0" and c = user_core, OF b, of one_user]
    by (auto simp: user_world_def one_user_def)
qed

end
