(* ===== verification/Orm_Tx.thy ===== *)
theory Orm_Tx
  imports Orm_Exec
begin

text \<open>
  Databases and transactions of \<open>homework_subquery\<close>: \<open>OpenDB\<close> with its options, \<open>Wait\<close>, \<open>BeginTx\<close> and
  \<open>DoTx\<close> of \<open>db.go\<close>, and \<open>transaction.go\<close>.

  A transaction is the state \<open>sql.Tx\<close> keeps of it and the state of the database; the driver's commit and
  rollback are arguments, and what the caller's function does is any function of the transaction. That
  the context of a transaction is cancelled is left out.
\<close>

subsection \<open>Options\<close>

type_synonym ('w, 'x) DBOption = "('w, 'x) core \<Rightarrow> ('w, 'x) core"

text \<open>The two creators of \<open>internal/valuer\<close>, on a value with its type.\<close>

definition type_fields :: "(nat \<Rightarrow> go_type) \<Rightarrow> go_val \<Rightarrow> struct_field list" where
  "type_fields types v = (case types (v_type v) of StructPtr _ sfs \<Rightarrow> sfs | NotStructPtr \<Rightarrow> [])"

definition OpenDB :: "(go_val \<Rightarrow> (orm_error, Model) result) \<Rightarrow> ('w, 'x) DBOption list \<Rightarrow> ('w, 'x) core" where
  "OpenDB registry opts = fold (\<lambda>opt res. opt res) opts
     \<lparr>co_r = registry, co_dialect = MySQL,
      co_field = (\<lambda>m v. unsafe_Field m (rv_struct v)),
      co_setColumns = (\<lambda>m rows v. unsafe_SetColumns m rows (rv_struct v)),
      co_ms = []\<rparr>"

definition DBWithDialect :: "dialect \<Rightarrow> ('w, 'x) DBOption" where
  "DBWithDialect d db = db\<lparr>co_dialect := d\<rparr>"

definition DBWithRegistry :: "(go_val \<Rightarrow> (orm_error, Model) result) \<Rightarrow> ('w, 'x) DBOption" where
  "DBWithRegistry r db = db\<lparr>co_r := r\<rparr>"

definition DBUseReflectValuer :: "(nat \<Rightarrow> go_type) \<Rightarrow> (nat \<Rightarrow> 'x val) \<Rightarrow> ('w, 'x) DBOption" where
  "DBUseReflectValuer types zero db = db\<lparr>
     co_field := (\<lambda>m v. reflect_Field (type_fields types (rv_go v)) (rv_struct v)),
     co_setColumns := (\<lambda>m rows v. reflect_SetColumns zero (type_fields types (rv_go v)) m rows (rv_struct v))\<rparr>"

definition DBWithMiddleware :: "('w, 'x) Middleware list \<Rightarrow> ('w, 'x) DBOption" where
  "DBWithMiddleware ms db = db\<lparr>co_ms := ms\<rparr>"

text \<open>
  \<open>Wait\<close> pings until the answer is not \<open>ErrBadConn\<close>; \<open>ping i\<close> is the answer to the \<open>i\<close>-th ping, \<open>None\<close>
  when the fuel is used up.
\<close>

fun Wait :: "(nat \<Rightarrow> orm_error option) \<Rightarrow> orm_error \<Rightarrow> nat \<Rightarrow> nat \<Rightarrow> orm_error option option" where
  "Wait ping bad_conn 0 i = None"
| "Wait ping bad_conn (Suc n) i =
     (if ping i = Some bad_conn then Wait ping bad_conn n (i + 1) else Some (ping i))"

lemma Wait_returns:
  "\<forall>j < k. ping (i + j) = Some bad_conn \<Longrightarrow> ping (i + k) \<noteq> Some bad_conn \<Longrightarrow>
     Wait ping bad_conn (Suc k) i = Some (ping (i + k))"
proof (induction k arbitrary: i)
  case (Suc k)
  from Suc.prems(1) have "ping i = Some bad_conn" by force
  moreover have "\<forall>j < k. ping (i + 1 + j) = Some bad_conn"
    using Suc.prems(1) by (metis Suc_less_eq add_Suc_shift add.commute plus_1_eq_Suc)
  ultimately show ?case using Suc.IH [of "i + 1"] Suc.prems(2) by simp
qed simp

subsection \<open>Transactions\<close>

record 'd txn =
  t_done :: bool
  t_committed :: bool
  t_db :: 'd

record 'd driver =
  drv_Begin :: "'d \<Rightarrow> orm_error option \<times> 'd"
  drv_Commit :: "'d \<Rightarrow> orm_error option \<times> 'd"
  drv_Rollback :: "'d \<Rightarrow> orm_error option \<times> 'd"

definition BeginTx :: "'d driver \<Rightarrow> 'd \<Rightarrow> (orm_error \<times> 'd, 'd txn) result" where
  "BeginTx drv d =
     (case drv_Begin drv d of
        (Some e, d) \<Rightarrow> Inl (e, d)
      | (None, d) \<Rightarrow> Inr \<lparr>t_done = False, t_committed = False, t_db = d\<rparr>)"

definition Commit :: "'d driver \<Rightarrow> 'd txn \<Rightarrow> orm_error option \<times> 'd txn" where
  "Commit drv t =
     (if t_done t then (Some ErrTxDone, t)
      else case drv_Commit drv (t_db t) of
        (e, d) \<Rightarrow> (e, t\<lparr>t_done := True, t_committed := (e = None), t_db := d\<rparr>))"

definition Rollback :: "'d driver \<Rightarrow> 'd txn \<Rightarrow> orm_error option \<times> 'd txn" where
  "Rollback drv t =
     (if t_done t then (Some ErrTxDone, t)
      else case drv_Rollback drv (t_db t) of
        (e, d) \<Rightarrow> (e, t\<lparr>t_done := True, t_committed := False, t_db := d\<rparr>))"

definition RollbackIfNotCommit :: "'d driver \<Rightarrow> 'd txn \<Rightarrow> orm_error option \<times> 'd txn" where
  "RollbackIfNotCommit drv t =
     (case Rollback drv t of (err, t) \<Rightarrow> (if err \<noteq> Some ErrTxDone then err else None, t))"

subsection \<open>DoTx\<close>

text \<open>What the caller's function, and then \<open>DoTx\<close>, ends with.\<close>

datatype outcome = Returned "orm_error option" | Panicked

text \<open>The deferred function, with \<open>panicked\<close> and \<open>err\<close> as the outcome.\<close>

definition finish_tx :: "'d driver \<Rightarrow> outcome \<Rightarrow> 'd txn \<Rightarrow> outcome \<times> 'd txn" where
  "finish_tx drv r t =
     (case r of
        Returned None \<Rightarrow> (case Commit drv t of (err, t) \<Rightarrow> (Returned err, t))
      | Returned (Some err) \<Rightarrow>
          (case Rollback drv t of
             (None, t) \<Rightarrow> (Returned (Some err), t)
           | (Some e, t) \<Rightarrow> (Returned (Some (ErrFailToRollbackTx (Some err) e False)), t))
      | Panicked \<Rightarrow> (case Rollback drv t of (_, t) \<Rightarrow> (Panicked, t)))"

definition DoTx :: "'d driver \<Rightarrow> ('d txn \<Rightarrow> outcome \<times> 'd txn) \<Rightarrow> 'd \<Rightarrow> outcome \<times> ('d, 'd txn) result" where
  "DoTx drv fn d =
     (case BeginTx drv d of
        Inl (err, d) \<Rightarrow> (Returned (Some err), Inl d)
      | Inr tx \<Rightarrow> (case fn tx of (r, t) \<Rightarrow> (case finish_tx drv r t of (out, t) \<Rightarrow> (out, Inr t))))"

subsection \<open>Lemmas\<close>

lemma Commit_done: "t_done (snd (Commit drv t))"
  by (simp add: Commit_def split: prod.split)

lemma Rollback_done: "t_done (snd (Rollback drv t))"
  by (simp add: Rollback_def split: prod.split)

lemma finish_done: "t_done (snd (finish_tx drv r t))"
  using Commit_done [of drv t] Rollback_done [of drv t]
  by (auto simp: finish_tx_def split: outcome.split option.split prod.split)

text \<open>A function that commits by itself and returns nil makes \<open>DoTx\<close> report \<open>ErrTxDone\<close>.\<close>

lemma DoTx_fn_commits:
  assumes "BeginTx drv d = Inr tx" and "fn tx = (Returned None, snd (Commit drv tx))"
  shows "fst (DoTx drv fn d) = Returned (Some ErrTxDone)"
  using Commit_done [of drv tx] assms
  by (simp add: DoTx_def finish_tx_def Commit_def [of _ "snd (Commit drv tx)"] split: prod.split)

subsection \<open>Properties\<close>

text \<open>
  Claim C37: \<open>DoTx\<close> is all or nothing. Whatever the function does to a transaction it leaves open, and
  however it ends, the transaction is over afterwards. It was committed exactly when the function
  returned nil and the driver accepted the commit, which is exactly when \<open>DoTx\<close> returns nil; after an
  error or a panic it was rolled back, and a panic goes on to the caller.
\<close>

theorem DoTx_all_or_nothing:
  assumes "BeginTx drv d = Inr tx" and "fn tx = (r, t1)" and "\<not> t_done t1"
  shows "\<exists>out t. DoTx drv fn d = (out, Inr t) \<and> t_done t
    \<and> (t_committed t \<longleftrightarrow> r = Returned None \<and> fst (drv_Commit drv (t_db t1)) = None)
    \<and> (out = Returned None \<longleftrightarrow> t_committed t) \<and> (out = Panicked \<longleftrightarrow> r = Panicked)"
  using assms
  by (auto simp: DoTx_def finish_tx_def Commit_def Rollback_def
      split: outcome.split option.split prod.split)

text \<open>
  \<open>RollbackIfNotCommit\<close> can always be deferred. After a commit or a rollback it returns nil and
  changes nothing, before one it rolls the transaction back and reports what the driver says.
\<close>

theorem RollbackIfNotCommit_safe:
  "t_done (snd (RollbackIfNotCommit drv t))
   \<and> (if t_done t then RollbackIfNotCommit drv t = (None, t)
      else fst (RollbackIfNotCommit drv t) =
             (if fst (drv_Rollback drv (t_db t)) = Some ErrTxDone then None else fst (drv_Rollback drv (t_db t)))
         \<and> \<not> t_committed (snd (RollbackIfNotCommit drv t)))"
  by (simp add: RollbackIfNotCommit_def Rollback_def split: prod.split)

text \<open>A driver whose state counts; it commits and rolls back without an error.\<close>

definition counting :: "nat driver" where
  "counting = \<lparr>drv_Begin = (\<lambda>d. (None, d)), drv_Commit = (\<lambda>d. (None, d + 100)), drv_Rollback = (\<lambda>d. (None, 0))\<rparr>"

theorem DoTx_all_or_nothing_witness:
  "\<exists>out t. DoTx counting (\<lambda>t. (Panicked, t\<lparr>t_db := 7\<rparr>)) 0 = (out, Inr t) \<and> t_done t \<and> \<not> t_committed t
    \<and> out = Panicked"
  using DoTx_all_or_nothing [of counting 0 "\<lparr>t_done = False, t_committed = False, t_db = 0\<rparr>"
      "\<lambda>t. (Panicked, t\<lparr>t_db := 7\<rparr>)" Panicked "\<lparr>t_done = False, t_committed = False, t_db = 7\<rparr>"]
  by (auto simp: BeginTx_def counting_def)

end
