(* ===== verification/Orm_Delete.thy ===== *)
theory Orm_Delete
  imports Orm_Write
begin

text \<open>
  The builders of \<open>homework_delete\<close>: \<open>Deleter\<close> and \<open>Selector\<close> over columns, values and predicates, without
  a registry. Their text and arguments are those of \<open>Orm_Builder\<close>'s state, whose heap plays no part.
  \<open>DNil\<close> is the nil expression, \<open>DOther\<close> one of a type that the builders do not know.
\<close>

subsection \<open>Expressions\<close>

datatype 'x dexpr = DNil | DColumn string | DValue "'x val" | DPredicate "'x dexpr" string "'x dexpr" | DOther

definition D_exprOf :: "'x dexpr + 'x val \<Rightarrow> 'x dexpr" where
  "D_exprOf e = (case e of Inl x \<Rightarrow> x | Inr v \<Rightarrow> DValue v)"

definition D_C :: "string \<Rightarrow> 'x dexpr" where
  "D_C name = DColumn name"

text \<open>\<open>EQ\<close>, \<open>LT\<close> and \<open>GT\<close> of a column.\<close>

definition D_EQ :: "string \<Rightarrow> 'x dexpr + 'x val \<Rightarrow> 'x dexpr" where
  "D_EQ c arg = DPredicate (DColumn c) ''='' (D_exprOf arg)"

definition D_LT :: "string \<Rightarrow> 'x dexpr + 'x val \<Rightarrow> 'x dexpr" where
  "D_LT c arg = DPredicate (DColumn c) ''<'' (D_exprOf arg)"

definition D_GT :: "string \<Rightarrow> 'x dexpr + 'x val \<Rightarrow> 'x dexpr" where
  "D_GT c arg = DPredicate (DColumn c) ''>'' (D_exprOf arg)"

definition D_Not :: "'x dexpr \<Rightarrow> 'x dexpr" where
  "D_Not p = DPredicate DNil ''NOT'' p"

definition D_And :: "'x dexpr \<Rightarrow> 'x dexpr \<Rightarrow> 'x dexpr" where
  "D_And p r = DPredicate p ''AND'' r"

definition D_Or :: "'x dexpr \<Rightarrow> 'x dexpr \<Rightarrow> 'x dexpr" where
  "D_Or p r = DPredicate p ''OR'' r"

fun is_DPredicate :: "'x dexpr \<Rightarrow> bool" where
  "is_DPredicate (DPredicate _ _ _) = True"
| "is_DPredicate _ = False"

subsection \<open>Builders\<close>

definition when_do :: "bool \<Rightarrow> 'x bm \<Rightarrow> 'x bm" where
  "when_do b m = (if b then m else ok)"

text \<open>\<open>buildExpression\<close> of the deleter.\<close>

fun D_buildExpression :: "'x dexpr \<Rightarrow> 'x bm" where
  "D_buildExpression DNil = ok"
| "D_buildExpression (DColumn name) = do_all [emit ''`'', emit name, emit ''`'']"
| "D_buildExpression (DValue v) = and_then (emit ''?'') (addArgs [v])"
| "D_buildExpression (DPredicate l p r) = do_all
     [when_do (is_DPredicate l) (emit ''(''), D_buildExpression l, when_do (is_DPredicate l) (emit '')''),
      emit '' '', emit p, emit '' '',
      when_do (is_DPredicate r) (emit ''(''), D_buildExpression r, when_do (is_DPredicate r) (emit '')'')]"
| "D_buildExpression DOther = fail ErrUnsupportedExpressionType"

text \<open>A deleter and a selector; \<open>T\<close> is the name of the type.\<close>

record 'x deleter =
  d_T :: string
  d_sb :: string
  d_args :: "'x val list"
  d_table :: string
  d_where :: "'x dexpr list"

definition Deleter_From :: "string \<Rightarrow> 'x deleter \<Rightarrow> 'x deleter" where
  "Deleter_From tbl d = d\<lparr>d_table := tbl\<rparr>"

definition Deleter_Where :: "'x dexpr list \<Rightarrow> 'x deleter \<Rightarrow> 'x deleter" where
  "Deleter_Where ps d = d\<lparr>d_where := ps\<rparr>"

definition buildDelete :: "'x deleter \<Rightarrow> 'x bm" where
  "buildDelete d = do_all
     [emit ''DELETE FROM '',
      if d_table d = [] then do_all [emit ''`'', emit (d_T d), emit ''`''] else emit (d_table d),
      case d_where d of [] \<Rightarrow> ok
      | p # ps \<Rightarrow> and_then (emit '' WHERE '') (D_buildExpression (foldl D_And p ps)),
      emit '';'']"

definition Deleter_Build :: "'x heap \<Rightarrow> 'x deleter \<Rightarrow> (orm_error, 'x query) result \<times> 'x deleter" where
  "Deleter_Build h d =
     (case buildDelete d \<lparr>sb = d_sb d, b_args = d_args d, heap = h\<rparr> of
        (r, t) \<Rightarrow> (case r of Inl e \<Rightarrow> Inl e | Inr _ \<Rightarrow> Inr (sb t, b_args t),
                   d\<lparr>d_sb := sb t, d_args := b_args t\<rparr>))"

record 'x selector0 =
  s0_T :: string
  s0_sb :: string
  s0_args :: "'x val list"
  s0_table :: string
  s0_where :: "'x dexpr list"

definition Selector0_From :: "string \<Rightarrow> 'x selector0 \<Rightarrow> 'x selector0" where
  "Selector0_From tbl s = s\<lparr>s0_table := tbl\<rparr>"

definition Selector0_Where :: "'x dexpr list \<Rightarrow> 'x selector0 \<Rightarrow> 'x selector0" where
  "Selector0_Where ps s = s\<lparr>s0_where := ps\<rparr>"

definition NewSelector0 :: "string \<Rightarrow> 'x selector0" where
  "NewSelector0 T = \<lparr>s0_T = T, s0_sb = [], s0_args = [], s0_table = [], s0_where = []\<rparr>"

text \<open>\<open>buildExpression\<close> of the selector.\<close>

fun S0_buildExpression :: "'x dexpr \<Rightarrow> 'x bm" where
  "S0_buildExpression DNil = ok"
| "S0_buildExpression (DColumn name) = do_all [emit ''`'', emit name, emit ''`'']"
| "S0_buildExpression (DValue v) = and_then (emit ''?'') (addArgs [v])"
| "S0_buildExpression (DPredicate l p r) = do_all
     [when_do (is_DPredicate l) (emit ''(''), S0_buildExpression l, when_do (is_DPredicate l) (emit '')''),
      emit '' '', emit p, emit '' '',
      when_do (is_DPredicate r) (emit ''(''), S0_buildExpression r, when_do (is_DPredicate r) (emit '')'')]"
| "S0_buildExpression DOther = fail ErrUnsupportedExpressionType"

definition buildSelect0 :: "'x selector0 \<Rightarrow> 'x bm" where
  "buildSelect0 s = do_all
     [emit ''SELECT * FROM '',
      if s0_table s = [] then do_all [emit ''`'', emit (s0_T s), emit ''`''] else emit (s0_table s),
      case s0_where s of [] \<Rightarrow> ok
      | p # ps \<Rightarrow> and_then (emit '' WHERE '') (S0_buildExpression (foldl D_And p ps)),
      emit '';'']"

definition Selector0_Build :: "'x heap \<Rightarrow> 'x selector0 \<Rightarrow> (orm_error, 'x query) result \<times> 'x selector0" where
  "Selector0_Build h s =
     (case buildSelect0 s \<lparr>sb = s0_sb s, b_args = s0_args s, heap = h\<rparr> of
        (r, t) \<Rightarrow> (case r of Inl e \<Rightarrow> Inl e | Inr _ \<Rightarrow> Inr (sb t, b_args t),
                   s\<lparr>s0_sb := sb t, s0_args := b_args t\<rparr>))"

subsection \<open>Reading a condition back\<close>

text \<open>
  A reader of conditions, which is no part of the code: an operand is a quoted column, a placeholder with
  its argument, a condition in parentheses, or nothing.
\<close>

fun read_operand :: "nat \<Rightarrow> string \<Rightarrow> 'x val list \<Rightarrow> ('x dexpr \<times> string \<times> 'x val list) option"
  and read_pred :: "nat \<Rightarrow> string \<Rightarrow> 'x val list \<Rightarrow> ('x dexpr \<times> string \<times> 'x val list) option" where
  "read_operand 0 s xs = None"
| "read_operand (Suc n) s xs =
     (case s of
        [] \<Rightarrow> Some (DNil, s, xs)
      | c # cs \<Rightarrow>
          if c = CHR ''`'' then
            (let name = takeWhile (\<lambda>c. c \<noteq> CHR ''`'') cs in
             Some (DColumn name, drop (length name + 1) cs, xs))
          else if c = CHR ''?'' then
            (case xs of [] \<Rightarrow> None | v # xs \<Rightarrow> Some (DValue v, cs, xs))
          else if c = CHR ''('' then
            (case read_pred n cs xs of
               Some (p, d # rest, xs) \<Rightarrow> if d = CHR '')'' then Some (p, rest, xs) else None
             | _ \<Rightarrow> None)
          else Some (DNil, s, xs))"
| "read_pred 0 s xs = None"
| "read_pred (Suc n) s xs =
     (case read_operand n s xs of
        Some (l, c # s1, xs1) \<Rightarrow>
          if c = CHR '' '' then
            (let p = takeWhile (\<lambda>c. c \<noteq> CHR '' '') s1 in
             case read_operand n (drop (length p + 1) s1) xs1 of
               Some (r, s2, xs2) \<Rightarrow> Some (DPredicate l p r, s2, xs2)
             | None \<Rightarrow> None)
          else None
      | _ \<Rightarrow> None)"

text \<open>What the builder writes for an operand, its arguments, and the conditions that can be read back.\<close>

fun operand_text :: "'x dexpr \<Rightarrow> string" and pred_text :: "'x dexpr \<Rightarrow> string" where
  "operand_text (DPredicate l p r) = ''('' @ pred_text (DPredicate l p r) @ '')''"
| "operand_text (DColumn name) = ''`'' @ name @ ''`''"
| "operand_text (DValue v) = ''?''"
| "operand_text _ = []"
| "pred_text (DPredicate l p r) = operand_text l @ '' '' @ p @ '' '' @ operand_text r"
| "pred_text _ = []"

fun expr_args :: "'x dexpr \<Rightarrow> 'x val list" where
  "expr_args (DValue v) = [v]"
| "expr_args (DPredicate l p r) = expr_args l @ expr_args r"
| "expr_args _ = []"

fun readable :: "'x dexpr \<Rightarrow> bool" where
  "readable DNil \<longleftrightarrow> True"
| "readable (DColumn name) \<longleftrightarrow> CHR ''`'' \<notin> set name"
| "readable (DValue v) \<longleftrightarrow> True"
| "readable (DPredicate l p r) \<longleftrightarrow> readable l \<and> CHR '' '' \<notin> set p \<and> readable r"
| "readable DOther \<longleftrightarrow> False"


fun depth :: "'x dexpr \<Rightarrow> nat" where
  "depth (DPredicate l p r) = 1 + max (depth l) (depth r)"
| "depth _ = 0"

subsection \<open>Lemmas\<close>

lemma S0_is_D: "S0_buildExpression e = D_buildExpression e"
  by (induction e) simp_all

lemma writes_D_buildExpression:
  "readable e \<Longrightarrow> writes (D_buildExpression e)
     (if is_DPredicate e then pred_text e else operand_text e) (expr_args e)"
proof (induction e)
  case (DPredicate l p r)
  then have "writes (D_buildExpression l) (if is_DPredicate l then pred_text l else operand_text l) (expr_args l)"
    "writes (D_buildExpression r) (if is_DPredicate r then pred_text r else operand_text r) (expr_args r)"
    by simp_all
  note steps = this [THEN writesD]
  show ?case
    by (cases l; cases r) (use steps in
      \<open>simp_all add: writes_def and_then_def emit_def ok_def addArgs_def when_do_def\<close>)
qed (simp_all add: writes_def and_then_def emit_def ok_def addArgs_def)

definition stop :: "string \<Rightarrow> bool" where
  "stop rest \<longleftrightarrow> (case rest of [] \<Rightarrow> True | c # _ \<Rightarrow> c \<notin> {CHR ''`'', CHR ''?'', CHR ''(''})"

lemma takeWhile_upto: "c \<notin> set a \<Longrightarrow> takeWhile (\<lambda>x. x \<noteq> c) (a @ c # b) = a"
  by (induction a) auto

lemma read_back:
  "readable e \<Longrightarrow> stop rest \<Longrightarrow> 2 * depth e < n \<Longrightarrow>
     read_operand n (operand_text e @ rest) (expr_args e @ xs) = Some (e, rest, xs)"
  "readable e \<Longrightarrow> is_DPredicate e \<Longrightarrow> stop rest \<Longrightarrow> 2 * depth e \<le> n \<Longrightarrow>
     read_pred n (pred_text e @ rest) (expr_args e @ xs) = Some (e, rest, xs)"
proof (induction e arbitrary: n rest xs)
  case (DPredicate l p r)
  have pred: "read_pred k (pred_text (DPredicate l p r) @ rest) (expr_args (DPredicate l p r) @ xs) =
      Some (DPredicate l p r, rest, xs)"
    if st: "stop rest" and d: "2 * depth (DPredicate l p r) \<le> k" and rd: "readable (DPredicate l p r)"
    for k rest xs
  proof -
    obtain j where k: "k = Suc j" "2 * depth l < j" "2 * depth r < j"
      using d by (cases k) auto
    have "read_operand j (operand_text l @ '' '' @ p @ '' '' @ operand_text r @ rest)
        (expr_args l @ expr_args r @ xs) = Some (l, '' '' @ p @ '' '' @ operand_text r @ rest, expr_args r @ xs)"
      using rd k by (intro DPredicate.IH(1)) (simp_all add: stop_def)
    moreover have "read_operand j (operand_text r @ rest) (expr_args r @ xs) = Some (r, rest, xs)"
      using st rd k by (intro DPredicate.IH(3)) simp_all
    ultimately show ?thesis
      using rd by (simp add: k takeWhile_upto)
  qed
  {
    case 1
    then obtain m where n: "n = Suc m" "2 * depth (DPredicate l p r) \<le> m" by (cases n) auto
    have "read_pred m (pred_text (DPredicate l p r) @ '')'' @ rest) (expr_args (DPredicate l p r) @ xs) =
        Some (DPredicate l p r, '')'' @ rest, xs)"
      using 1 n by (intro pred) (simp_all add: stop_def)
    then show ?case by (simp add: n)
  next
    case 2
    then show ?case by (intro pred) simp_all
  }
next
  case DNil
  {
    case 1
    then show ?case by (cases n) (auto simp: stop_def split: list.splits)
  }
  case 2
  then show ?case by simp
next
  case (DColumn name)
  {
    case 1
    then show ?case by (cases n) (simp_all add: takeWhile_upto)
  }
  case 2
  then show ?case by simp
next
  case (DValue v)
  {
    case 1
    then show ?case by (cases n) simp_all
  }
  case 2
  then show ?case by simp
qed simp_all

lemma readable_And:
  "\<forall>q \<in> set (p # ps). is_DPredicate q \<and> readable q \<Longrightarrow>
     is_DPredicate (foldl D_And p ps) \<and> readable (foldl D_And p ps)"
  by (induction ps arbitrary: p) (auto simp: D_And_def)

lemma writes_buildDelete:
  assumes "d_where d = p # ps" and "\<forall>q \<in> set (p # ps). is_DPredicate q \<and> readable q"
    and "d_table d \<noteq> []"
  shows "writes (buildDelete d) (''DELETE FROM '' @ d_table d @ '' WHERE '' @ pred_text (foldl D_And p ps) @ '';'')
    (expr_args (foldl D_And p ps))"
  using writesD [OF writes_D_buildExpression [of "foldl D_And p ps"]] readable_And [OF assms(2)] assms(1,3)
  by (simp add: writes_def buildDelete_def and_then_def emit_def ok_def)

text \<open>The selector writes the same condition; only the first words differ.\<close>

lemma writes_buildSelect0:
  assumes "s0_where s = p # ps" and "\<forall>q \<in> set (p # ps). is_DPredicate q \<and> readable q"
    and "s0_table s \<noteq> []"
  shows "writes (buildSelect0 s) (''SELECT * FROM '' @ s0_table s @ '' WHERE '' @ pred_text (foldl D_And p ps) @ '';'')
    (expr_args (foldl D_And p ps))"
  using writesD [OF writes_D_buildExpression [of "foldl D_And p ps"]] readable_And [OF assms(2)] assms(1,3)
  by (simp add: writes_def buildSelect0_def and_then_def emit_def ok_def S0_is_D)

subsection \<open>Properties\<close>

text \<open>
  Claim C39: the condition of a \<open>DELETE\<close> says what the predicates say. For a \<open>Deleter\<close> that was given its
  table and has not been built before, columns without a backquote and operators without a space, the text after \<open>WHERE\<close> together with the arguments reads back as the
  conjunction of the predicates, nested as they were: no parentheses are missing and no argument is out
  of place.
\<close>

theorem Deleter_Build_reads_back:
  assumes "d_where d = p # ps" and "\<forall>q \<in> set (p # ps). is_DPredicate q \<and> readable q"
    and "d_table d \<noteq> []" and "d_sb d = []" and "d_args d = []"
  shows "\<exists>w xs. fst (Deleter_Build h d) = Inr (''DELETE FROM '' @ d_table d @ '' WHERE '' @ w @ '';'', xs)
    \<and> read_pred (2 * depth (foldl D_And p ps)) (w @ '';'') xs = Some (foldl D_And p ps, '';'', [])"
proof (intro exI conjI)
  let ?e = "foldl D_And p ps"
  show "fst (Deleter_Build h d) =
      Inr (''DELETE FROM '' @ d_table d @ '' WHERE '' @ pred_text ?e @ '';'', expr_args ?e)"
    using writesD [OF writes_buildDelete [OF assms(1-3)]] assms(4,5) by (simp add: Deleter_Build_def)
  show "read_pred (2 * depth ?e) (pred_text ?e @ '';'') (expr_args ?e) = Some (?e, '';'', [])"
    using read_back(2) [of ?e "'';''" "2 * depth ?e" "[]"] readable_And [OF assms(2)]
    by (simp add: stop_def)
qed

definition young :: "nat dexpr" where
  "young = D_Or (D_EQ ''age'' (Inr (VAny 18))) (D_LT ''id'' (Inr (VAny 5)))"

definition not_first :: "nat dexpr" where
  "not_first = D_Not (D_GT ''id'' (Inr (VAny 1)))"

definition delete_users :: "nat deleter" where
  "delete_users = \<lparr>d_T = ''User'', d_sb = [], d_args = [], d_table = ''users'', d_where = [young, not_first]\<rparr>"

lemmas delete_demo = young_def not_first_def D_Or_def D_EQ_def D_LT_def D_GT_def D_Not_def D_And_def D_exprOf_def

lemma Deleter_Build_users:
  "fst (Deleter_Build h delete_users) =
     Inr (''DELETE FROM users WHERE ((`age` = ?) OR (`id` < ?)) AND ( NOT (`id` > ?));'', [VAny 18, VAny 5, VAny 1])"
  by (simp add: Deleter_Build_def buildDelete_def delete_users_def delete_demo and_then_def emit_def ok_def
      addArgs_def when_do_def)

theorem Deleter_Build_reads_back_witness:
  "read_pred 6 ''((`age` = ?) OR (`id` < ?)) AND ( NOT (`id` > ?));'' [VAny 18, VAny 5, VAny 1] =
     Some (D_And young not_first, '';'', [])"
proof -
  have "\<exists>w xs. fst (Deleter_Build (user_heap by_id) delete_users) =
        Inr (''DELETE FROM '' @ d_table delete_users @ '' WHERE '' @ w @ '';'', xs)
    \<and> read_pred (2 * depth (foldl D_And young [not_first])) (w @ '';'') xs =
        Some (foldl D_And young [not_first], '';'', [])"
    by (rule Deleter_Build_reads_back) (simp_all add: delete_users_def delete_demo)
  then obtain w xs where w: "fst (Deleter_Build (user_heap by_id) delete_users) =
        Inr (''DELETE FROM users WHERE '' @ w @ '';'', xs)"
    and r: "read_pred 6 (w @ '';'') xs = Some (D_And young not_first, '';'', [])"
    by (auto simp: delete_users_def delete_demo)
  from w have "w @ '';'' = ''((`age` = ?) OR (`id` < ?)) AND ( NOT (`id` > ?));''" "xs = [VAny 18, VAny 5, VAny 1]"
    unfolding Deleter_Build_users by simp_all
  with r show ?thesis by simp
qed

end
