(* ===== verification/Orm_Model1.thy ===== *)
theory Orm_Model1
  imports Orm_Model
begin

text \<open>
  The model registry of \<open>homework_select/model\<close>. It differs from that of \<open>homework_subquery/model\<close> in the
  model: a field has no index and a model no list of fields. \<open>m1_store\<close> holds the fields in the order
  they are made, and the maps, which share pointers to them, hold positions in it. \<open>parseTag\<close> and
  \<open>underscoreName\<close> have the same code in both packages.
\<close>

record Field1 =
  f1_ColName :: string
  f1_GoName :: string
  f1_Type :: nat
  f1_Offset :: nat

record Model1 =
  m1_TableName :: string
  m1_FieldMap :: "string \<Rightarrow> nat option"
  m1_ColumnMap :: "string \<Rightarrow> nat option"
  m1_store :: "Field1 list"

fun underscore_from1 :: "bool \<Rightarrow> string \<Rightarrow> string" where
  "underscore_from1 first [] = []"
| "underscore_from1 first (c # cs) =
     (if IsUpper c then (if first then [] else ''_'') @ ToLower c # underscore_from1 False cs
      else c # underscore_from1 False cs)"

definition underscoreName1 :: "string \<Rightarrow> string" where
  "underscoreName1 tableName = underscore_from1 True tableName"

fun parse_pairs1 :: "string list \<Rightarrow> (string \<Rightarrow> string option) \<Rightarrow> (orm_error, string \<Rightarrow> string option) result" where
  "parse_pairs1 [] res = Inr res"
| "parse_pairs1 (pair # pairs) res =
     (case split_on (CHR ''='') pair of
        [k, v] \<Rightarrow> parse_pairs1 pairs (res(k \<mapsto> v))
      | _ \<Rightarrow> Inl (ErrInvalidTagContent pair))"

definition parseTag1 :: "string \<Rightarrow> (orm_error, string \<Rightarrow> string option) result" where
  "parseTag1 ormTag =
     (if ormTag = [] then Inr Map.empty else parse_pairs1 (split_on (CHR '','') ormTag) Map.empty)"

text \<open>A missing key of the tag map reads as the empty string.\<close>

definition column_name1 :: "string \<Rightarrow> (string \<Rightarrow> string option) \<Rightarrow> string" where
  "column_name1 name tags =
     (let colName = (case tags ''column'' of None \<Rightarrow> [] | Some c \<Rightarrow> c)
      in if colName = [] then underscoreName1 name else colName)"

fun parse_fields1 :: "struct_field list \<Rightarrow> Model1 \<Rightarrow> (orm_error, Model1) result" where
  "parse_fields1 [] m = Inr m"
| "parse_fields1 (fd # fds) m =
     bind_result (parseTag1 (sf_Tag fd)) (\<lambda>tags.
     let colName = column_name1 (sf_Name fd) tags;
         f = \<lparr>f1_ColName = colName, f1_GoName = sf_Name fd, f1_Type = sf_Type fd, f1_Offset = sf_Offset fd\<rparr>;
         p = length (m1_store m)
     in parse_fields1 fds
          (m\<lparr>m1_store := m1_store m @ [f], m1_FieldMap := (m1_FieldMap m)(sf_Name fd \<mapsto> p),
             m1_ColumnMap := (m1_ColumnMap m)(colName \<mapsto> p)\<rparr>))"

definition parseModel1 :: "(nat \<Rightarrow> go_type) \<Rightarrow> go_val \<Rightarrow> (orm_error, Model1) result" where
  "parseModel1 types val =
     (case types (v_type val) of
        NotStructPtr \<Rightarrow> Inl ErrPointerOnly
      | StructPtr name fds \<Rightarrow>
          bind_result
            (parse_fields1 fds \<lparr>m1_TableName = [], m1_FieldMap = Map.empty, m1_ColumnMap = Map.empty, m1_store = []\<rparr>)
            (\<lambda>m. let tableName = (case v_TableName val of None \<Rightarrow> [] | Some t \<Rightarrow> t) in
               Inr (m\<lparr>m1_TableName := (if tableName = [] then underscoreName1 name else tableName)\<rparr>)))"

type_synonym model_option1 = "Model1 \<Rightarrow> (orm_error, Model1) result"

definition WithTableName1 :: "string \<Rightarrow> model_option1" where
  "WithTableName1 tableName m = Inr (m\<lparr>m1_TableName := tableName\<rparr>)"

definition WithColumnName1 :: "string \<Rightarrow> string \<Rightarrow> model_option1" where
  "WithColumnName1 fd columnName m =
     (case m1_FieldMap m fd of
        None \<Rightarrow> Inl (ErrUnknownField fd)
      | Some p \<Rightarrow> Inr (m\<lparr>m1_store := (m1_store m)[p := (m1_store m ! p)\<lparr>f1_ColName := columnName\<rparr>]\<rparr>))"

fun apply_options1 :: "model_option1 list \<Rightarrow> Model1 \<Rightarrow> (orm_error, Model1) result" where
  "apply_options1 [] m = Inr m"
| "apply_options1 (opt # opts) m = bind_result (opt m) (apply_options1 opts)"

type_synonym registry1 = "nat \<Rightarrow> Model1 option"

definition NewRegistry1 :: registry1 where
  "NewRegistry1 = Map.empty"

definition Register1 :: "(nat \<Rightarrow> go_type) \<Rightarrow> go_val \<Rightarrow> model_option1 list \<Rightarrow> registry1
    \<Rightarrow> (orm_error, Model1) result \<times> registry1" where
  "Register1 types val opts r =
     (case bind_result (parseModel1 types val) (apply_options1 opts) of
        Inl e \<Rightarrow> (Inl e, r)
      | Inr m \<Rightarrow> (Inr m, r(v_type val \<mapsto> m)))"

definition registry1_Get :: "(nat \<Rightarrow> go_type) \<Rightarrow> go_val \<Rightarrow> registry1 \<Rightarrow> (orm_error, Model1) result \<times> registry1" where
  "registry1_Get types val r =
     (case r (v_type val) of Some m \<Rightarrow> (Inr m, r) | None \<Rightarrow> Register1 types val [] r)"

subsection \<open>Both registries make the same model\<close>

definition forget_field :: "Field \<Rightarrow> Field1" where
  "forget_field f = \<lparr>f1_ColName = ColName f, f1_GoName = GoName f, f1_Type = Type f, f1_Offset = Offset f\<rparr>"

definition forget :: "Model \<Rightarrow> Model1" where
  "forget m = \<lparr>m1_TableName = TableName m, m1_FieldMap = FieldMap m, m1_ColumnMap = ColumnMap m,
     m1_store = map forget_field (Fields m)\<rparr>"

lemma underscoreName1_eq: "underscoreName1 s = underscoreName s"
proof -
  have "underscore_from1 first s = underscore_from first s" for first
    by (induction s arbitrary: first) simp_all
  then show ?thesis by (simp add: underscoreName1_def underscoreName_def)
qed

lemma parseTag1_eq: "parseTag1 t = parseTag t"
proof -
  have "parse_pairs1 ps res = parse_pairs ps res" for ps res
    by (induction ps arbitrary: res) (simp_all split: list.split)
  then show ?thesis by (simp add: parseTag1_def parseTag_def)
qed

lemma column_name1_eq: "column_name1 name tags = column_name name tags"
  by (simp add: column_name1_def column_name_def underscoreName1_eq split: option.split)

lemmas same_names = underscoreName1_eq parseTag1_eq column_name1_eq

lemma parse_fields_forget:
  "i = length (Fields m) \<Longrightarrow> parse_fields1 fds (forget m) = map_sum id forget (parse_fields i fds m)"
proof (induction fds arbitrary: i m)
  case (Cons fd fds)
  show ?case
  proof (cases "parseTag (sf_Tag fd)")
    case (Inr tags)
    let ?c = "column_name (sf_Name fd) tags"
    let ?m = "m\<lparr>FieldMap := (FieldMap m)(sf_Name fd \<mapsto> i), Fields := Fields m @
        [\<lparr>ColName = ?c, GoName = sf_Name fd, Type = sf_Type fd, Index = i, Offset = sf_Offset fd\<rparr>],
      ColumnMap := (ColumnMap m)(?c \<mapsto> i)\<rparr>"
    have "parse_fields1 (fd # fds) (forget m) = parse_fields1 fds (forget ?m)"
      using Cons.prems Inr by (simp add: Let_def forget_def forget_field_def same_names)
    also have "\<dots> = map_sum id forget (parse_fields (i + 1) fds ?m)"
      using Cons.prems by (intro Cons.IH) simp
    also have "\<dots> = map_sum id forget (parse_fields i (fd # fds) m)"
      using Inr by (simp add: Let_def)
    finally show ?thesis .
  qed (simp add: same_names)
qed simp

lemma parseModel_forget: "parseModel1 types val = map_sum id forget (parseModel types val)"
proof (cases "types (v_type val)")
  case (StructPtr name fds)
  let ?m0 = "\<lparr>TableName = [], Fields = [], FieldMap = Map.empty, ColumnMap = Map.empty\<rparr>"
  have "\<lparr>m1_TableName = [], m1_FieldMap = Map.empty, m1_ColumnMap = Map.empty, m1_store = []\<rparr> = forget ?m0"
    by (simp add: forget_def)
  then show ?thesis
    using parse_fields_forget [of 0 ?m0 fds]
    by (cases "parse_fields 0 fds ?m0") (simp_all add: parseModel1_def parseModel_def StructPtr Let_def forget_def same_names)
qed (simp add: parseModel1_def parseModel_def)

lemma WithTableName_forget: "WithTableName1 t (forget m) = map_sum id forget (WithTableName t m)"
  by (simp add: WithTableName1_def WithTableName_def forget_def)

lemma WithColumnName_forget:
  "fields_found m \<Longrightarrow> WithColumnName1 fd c (forget m) = map_sum id forget (WithColumnName fd c m)"
proof (cases "FieldMap m fd")
  case (Some i)
  moreover assume "fields_found m"
  ultimately have "i < length (Fields m)" by (simp add: fields_found_def)
  with Some show ?thesis
    by (simp add: WithColumnName1_def WithColumnName_def forget_def forget_field_def map_update)
qed (simp add: WithColumnName1_def WithColumnName_def forget_def)

text \<open>\<open>Get\<close> answers alike from registries that hold the same models.\<close>

theorem registries_agree:
  assumes "\<And>t. r1 t = map_option forget (models r t)"
  shows "fst (registry1_Get types val r1) = map_sum id forget (fst (registry_Get types val r))
    \<and> (\<forall>t. snd (registry1_Get types val r1) t = map_option forget (models (snd (registry_Get types val r)) t))"
  using assms parseModel_forget [of types val]
  by (cases "models r (v_type val)"; cases "parseModel types val")
    (auto simp: registry1_Get_def registry_Get_def Register1_def Register_def)

end
