(* ===== verification/Orm_Select1.thy ===== *)
theory Orm_Select1
  imports Orm_Delete
begin

text \<open>
  The builder of \<open>homework_select\<close> (\<open>select.go\<close>, \<open>column.go\<close>, \<open>aggregate.go\<close>, \<open>predicate.go\<close>,
  \<open>expression.go\<close>): one table, no joins and no subqueries, with \<open>ORDER BY\<close>; and that it agrees with the
  builder of \<open>homework_subquery\<close> on what both can say.

  \<open>XNil\<close> is the nil expression, \<open>XOther\<close> one of a type that the builder does not know. The model of a type
  is that of \<open>Orm_Model\<close>.
\<close>

subsection \<open>Expressions\<close>

datatype 'x expr1 = XNil | XColumn string string | XAggregate string string string | XValue "'x val"
  | XRaw string "'x val list" | XPredicate "'x expr1" string "'x expr1" | XOther

datatype 'x selectable1 = LColumn string string | LAggregate string string string | LRaw string "'x val list"

definition X_exprOf :: "'x expr1 + 'x val \<Rightarrow> 'x expr1" where
  "X_exprOf e = (case e of Inl x \<Rightarrow> x | Inr v \<Rightarrow> XValue v)"

definition X_C :: "string \<Rightarrow> string \<times> string" where
  "X_C name = (name, [])"

definition X_As :: "string \<times> string \<Rightarrow> string \<Rightarrow> string \<times> string" where
  "X_As c alias = (fst c, alias)"

definition X_EQ :: "string \<times> string \<Rightarrow> 'x expr1 + 'x val \<Rightarrow> 'x expr1" where
  "X_EQ c arg = XPredicate (XColumn (fst c) (snd c)) ''='' (X_exprOf arg)"

definition X_LT :: "string \<times> string \<Rightarrow> 'x expr1 + 'x val \<Rightarrow> 'x expr1" where
  "X_LT c arg = XPredicate (XColumn (fst c) (snd c)) ''<'' (X_exprOf arg)"

definition X_GT :: "string \<times> string \<Rightarrow> 'x expr1 + 'x val \<Rightarrow> 'x expr1" where
  "X_GT c arg = XPredicate (XColumn (fst c) (snd c)) ''>'' (X_exprOf arg)"

definition X_Not :: "'x expr1 \<Rightarrow> 'x expr1" where
  "X_Not p = XPredicate XNil ''NOT'' p"

definition X_And :: "'x expr1 \<Rightarrow> 'x expr1 \<Rightarrow> 'x expr1" where
  "X_And p r = XPredicate p ''AND'' r"

definition X_Or :: "'x expr1 \<Rightarrow> 'x expr1 \<Rightarrow> 'x expr1" where
  "X_Or p r = XPredicate p ''OR'' r"

text \<open>An aggregate is its function, its argument and its alias.\<close>

definition X_Aggregate_As :: "string \<times> string \<times> string \<Rightarrow> string \<Rightarrow> string \<times> string \<times> string" where
  "X_Aggregate_As a alias = (fst a, fst (snd a), alias)"

definition X_Aggregate_EQ :: "string \<times> string \<times> string \<Rightarrow> 'x expr1 + 'x val \<Rightarrow> 'x expr1" where
  "X_Aggregate_EQ a arg = XPredicate (case a of (f, c, al) \<Rightarrow> XAggregate f c al) ''='' (X_exprOf arg)"

definition X_Aggregate_LT :: "string \<times> string \<times> string \<Rightarrow> 'x expr1 + 'x val \<Rightarrow> 'x expr1" where
  "X_Aggregate_LT a arg = XPredicate (case a of (f, c, al) \<Rightarrow> XAggregate f c al) ''<'' (X_exprOf arg)"

definition X_Aggregate_GT :: "string \<times> string \<times> string \<Rightarrow> 'x expr1 + 'x val \<Rightarrow> 'x expr1" where
  "X_Aggregate_GT a arg = XPredicate (case a of (f, c, al) \<Rightarrow> XAggregate f c al) ''>'' (X_exprOf arg)"

definition X_Avg :: "string \<Rightarrow> string \<times> string \<times> string" where "X_Avg c = (''AVG'', c, [])"
definition X_Max :: "string \<Rightarrow> string \<times> string \<times> string" where "X_Max c = (''MAX'', c, [])"
definition X_Min :: "string \<Rightarrow> string \<times> string \<times> string" where "X_Min c = (''MIN'', c, [])"
definition X_Count :: "string \<Rightarrow> string \<times> string \<times> string" where "X_Count c = (''COUNT'', c, [])"
definition X_Sum :: "string \<Rightarrow> string \<times> string \<times> string" where "X_Sum c = (''SUM'', c, [])"

definition X_Raw :: "string \<Rightarrow> 'x val list \<Rightarrow> 'x expr1" where
  "X_Raw expr args = XRaw expr args"

definition X_AsPredicate :: "'x expr1 \<Rightarrow> 'x expr1" where
  "X_AsPredicate r = XPredicate r [] XNil"

fun is_XPredicate :: "'x expr1 \<Rightarrow> bool" where
  "is_XPredicate (XPredicate _ _ _) = True"
| "is_XPredicate _ = False"

subsection \<open>Build\<close>

text \<open>An order is its column and its direction, as \<open>Asc\<close> and \<open>Desc\<close> make it.\<close>

definition Asc :: "string \<Rightarrow> string \<times> string" where "Asc col = (col, ''ASC'')"
definition Desc :: "string \<Rightarrow> string \<times> string" where "Desc col = (col, ''DESC'')"

record 'x selector1 =
  s1_r :: "go_val \<Rightarrow> (orm_error, Model) result"
  s1_entity :: go_val
  s1_columns :: "'x selectable1 list"
  s1_table :: string
  s1_where :: "'x expr1 list"
  s1_having :: "'x expr1 list"
  s1_orderby :: "(string \<times> string) list"
  s1_groupBy :: "(string \<times> string) list"
  s1_offset :: int
  s1_limit :: int
  s1_sb :: string
  s1_args :: "'x val list"

definition NewSelector1 :: "(go_val \<Rightarrow> (orm_error, Model) result) \<Rightarrow> go_val \<Rightarrow> 'x selector1" where
  "NewSelector1 r entity = \<lparr>s1_r = r, s1_entity = entity, s1_columns = [], s1_table = [], s1_where = [],
     s1_having = [], s1_orderby = [], s1_groupBy = [], s1_offset = 0, s1_limit = 0, s1_sb = [], s1_args = []\<rparr>"

definition Select1 :: "'x selectable1 list \<Rightarrow> 'x selector1 \<Rightarrow> 'x selector1" where
  "Select1 cols s = s\<lparr>s1_columns := cols\<rparr>"

definition From1 :: "string \<Rightarrow> 'x selector1 \<Rightarrow> 'x selector1" where
  "From1 tbl s = s\<lparr>s1_table := tbl\<rparr>"

definition Where1 :: "'x expr1 list \<Rightarrow> 'x selector1 \<Rightarrow> 'x selector1" where
  "Where1 ps s = s\<lparr>s1_where := ps\<rparr>"

definition GroupBy1 :: "(string \<times> string) list \<Rightarrow> 'x selector1 \<Rightarrow> 'x selector1" where
  "GroupBy1 cols s = s\<lparr>s1_groupBy := cols\<rparr>"

definition Having1 :: "'x expr1 list \<Rightarrow> 'x selector1 \<Rightarrow> 'x selector1" where
  "Having1 ps s = s\<lparr>s1_having := ps\<rparr>"

definition Offset1 :: "int \<Rightarrow> 'x selector1 \<Rightarrow> 'x selector1" where
  "Offset1 n s = s\<lparr>s1_offset := n\<rparr>"

definition Limit1 :: "int \<Rightarrow> 'x selector1 \<Rightarrow> 'x selector1" where
  "Limit1 n s = s\<lparr>s1_limit := n\<rparr>"

definition OrderBy1 :: "(string \<times> string) list \<Rightarrow> 'x selector1 \<Rightarrow> 'x selector1" where
  "OrderBy1 os s = s\<lparr>s1_orderby := os\<rparr>"

definition alias1 :: "string \<Rightarrow> 'x bm" where
  "alias1 al = (if al \<noteq> [] then do_all [emit '' AS `'', emit al, emit ''`''] else ok)"

definition buildColumn1 :: "Model \<Rightarrow> string \<Rightarrow> string \<Rightarrow> 'x bm" where
  "buildColumn1 m name al = do_all
     [emit ''`'',
      case FieldMap m name of None \<Rightarrow> fail (ErrUnknownField name) | Some i \<Rightarrow> emit (ColName (Fields m ! i)),
      emit ''`'', alias1 al]"

definition addArg1 :: "'x val list \<Rightarrow> 'x bm" where
  "addArg1 vals = (if vals = [] then ok else addArgs vals)"

definition buildAggregate1 :: "Model \<Rightarrow> string \<Rightarrow> string \<Rightarrow> string \<Rightarrow> 'x bm" where
  "buildAggregate1 m f arg al = do_all [emit f, emit ''('', buildColumn1 m arg [], emit '')'', alias1 al]"

fun buildExpression1 :: "Model \<Rightarrow> 'x expr1 \<Rightarrow> 'x bm" where
  "buildExpression1 m XNil = ok"
| "buildExpression1 m (XPredicate l p r) = do_all
     [when_do (is_XPredicate l) (emit ''(''), buildExpression1 m l, when_do (is_XPredicate l) (emit '')''),
      if p \<noteq> [] then do_all [emit '' '', emit p, emit '' ''] else ok,
      when_do (is_XPredicate r) (emit ''(''), buildExpression1 m r, when_do (is_XPredicate r) (emit '')'')]"
| "buildExpression1 m (XColumn name _) = buildColumn1 m name []"
| "buildExpression1 m (XValue v) = and_then (emit ''?'') (addArg1 [v])"
| "buildExpression1 m (XRaw r xs) = do_all [emit ''('', emit r, addArg1 xs, emit '')'']"
| "buildExpression1 m (XAggregate f arg al) = buildAggregate1 m f arg al"
| "buildExpression1 m XOther = fail ErrUnsupportedExpressionType"

fun buildSelectable1 :: "Model \<Rightarrow> 'x selectable1 \<Rightarrow> 'x bm" where
  "buildSelectable1 m (LColumn name al) = buildColumn1 m name al"
| "buildSelectable1 m (LAggregate f arg al) = buildAggregate1 m f arg al"
| "buildSelectable1 m (LRaw r xs) = and_then (emit r) (addArg1 xs)"

definition buildColumns1 :: "Model \<Rightarrow> 'x selectable1 list \<Rightarrow> 'x bm" where
  "buildColumns1 m cols = (if cols = [] then emit ''*'' else commas (buildSelectable1 m) cols)"

definition buildWhere1 :: "Model \<Rightarrow> string \<Rightarrow> 'x expr1 list \<Rightarrow> 'x bm" where
  "buildWhere1 m kw ps =
     (case ps of [] \<Rightarrow> ok | p # ps \<Rightarrow> and_then (emit kw) (buildExpression1 m (foldl X_And p ps)))"

definition buildBound1 :: "string \<Rightarrow> int \<Rightarrow> 'x bm" where
  "buildBound1 kw n = (if n > 0 then and_then (emit kw) (addArg1 [VInt n]) else ok)"

definition buildSelect1 :: "Model \<Rightarrow> 'x selector1 \<Rightarrow> 'x bm" where
  "buildSelect1 m s = do_all
     [emit ''SELECT '', buildColumns1 m (s1_columns s), emit '' FROM '',
      if s1_table s = [] then do_all [emit ''`'', emit (TableName m), emit ''`''] else emit (s1_table s),
      buildWhere1 m '' WHERE '' (s1_where s),
      if s1_groupBy s = [] then ok
      else and_then (emit '' GROUP BY '') (commas (\<lambda>(name, al). buildColumn1 m name al) (s1_groupBy s)),
      buildWhere1 m '' HAVING '' (s1_having s),
      if s1_orderby s = [] then ok
      else and_then (emit '' ORDER BY '')
        (commas (\<lambda>(col, order). and_then (buildColumn1 m col []) (emit ('' '' @ order))) (s1_orderby s)),
      buildBound1 '' LIMIT ?'' (s1_limit s),
      buildBound1 '' OFFSET ?'' (s1_offset s),
      emit '';'']"

definition Build1 :: "'x heap \<Rightarrow> 'x selector1 \<Rightarrow> (orm_error, 'x query) result \<times> 'x selector1" where
  "Build1 h s =
     (case s1_r s (s1_entity s) of
        Inl e \<Rightarrow> (Inl e, s)
      | Inr m \<Rightarrow>
          (case buildSelect1 m s \<lparr>sb = s1_sb s, b_args = s1_args s, heap = h\<rparr> of
             (r, t) \<Rightarrow> (case r of Inl e \<Rightarrow> Inl e | Inr _ \<Rightarrow> Inr (sb t, b_args t),
                        s\<lparr>s1_sb := sb t, s1_args := b_args t\<rparr>)))"

subsection \<open>What both builders can say\<close>

fun to_expr :: "'x expr1 \<Rightarrow> 'x expr option" where
  "to_expr XNil = None"
| "to_expr (XColumn name al) = Some (EColumn (Column None name al))"
| "to_expr (XAggregate f arg al) = Some (EAggregate (Aggregate None f arg al))"
| "to_expr (XValue v) = Some (EValue v)"
| "to_expr (XRaw r xs) = Some (ERaw r xs)"
| "to_expr (XPredicate l p r) = Some (EPredicate (to_expr l) p (to_expr r))"
| "to_expr XOther = None"

fun to_selectable :: "'x selectable1 \<Rightarrow> 'x selectable" where
  "to_selectable (LColumn name al) = SColumn (Column None name al)"
| "to_selectable (LAggregate f arg al) = SAggregate (Aggregate None f arg al)"
| "to_selectable (LRaw r xs) = SRaw r xs"

definition to_selector :: "'x selector1 \<Rightarrow> 'x selector" where
  "to_selector s = \<lparr>sel_r = s1_r s, sel_quoter = CHR ''`'', sel_entity = s1_entity s, sel_table = None,
     sel_where = map (the \<circ> to_expr) (s1_where s), sel_having = map (the \<circ> to_expr) (s1_having s),
     sel_columns = map to_selectable (s1_columns s),
     sel_groupBy = map (\<lambda>(name, al). Column None name al) (s1_groupBy s),
     sel_offset = s1_offset s, sel_limit = s1_limit s, sel_sb = s1_sb s, sel_args = s1_args s\<rparr>"

text \<open>
  Conditions without raw expressions and aliased aggregates, whose predicates have an operator and a
  right side.
\<close>

fun common :: "'x expr1 \<Rightarrow> bool" where
  "common (XColumn _ _) \<longleftrightarrow> True"
| "common (XAggregate _ _ al) \<longleftrightarrow> al = []"
| "common (XValue _) \<longleftrightarrow> True"
| "common (XPredicate l p r) \<longleftrightarrow> (l = XNil \<or> common l) \<and> p \<noteq> [] \<and> common r"
| "common _ \<longleftrightarrow> False"

definition common_selector :: "'x selector1 \<Rightarrow> bool" where
  "common_selector s \<longleftrightarrow> s1_table s = [] \<and> s1_orderby s = [] \<and> (\<forall>c \<in> set (s1_groupBy s). snd c = [])
     \<and> (\<forall>p \<in> set (s1_where s). common p \<and> is_XPredicate p) \<and> (\<forall>p \<in> set (s1_having s). common p \<and> is_XPredicate p)"

subsection \<open>Operations that agree\<close>

text \<open>The same error, or success with the same state.\<close>

definition agree :: "'x bm \<Rightarrow> 'x bm \<Rightarrow> bool" where
  "agree m1 m2 \<longleftrightarrow> (\<forall>s. fst (m1 s) = fst (m2 s) \<and> (fst (m1 s) = Inr () \<longrightarrow> m1 s = m2 s))"

lemma agree_refl: "agree m m"
  by (simp add: agree_def)

lemma agreeD:
  "agree m m' \<Longrightarrow> m s = (r, t) \<Longrightarrow> m' s = (r', t') \<Longrightarrow> r' = r \<and> (r = Inr () \<longrightarrow> t' = t)"
  unfolding agree_def by (metis fst_conv prod.inject)

lemma agree_and_then:
  assumes "agree m1 m1'" and "agree m2 m2'"
  shows "agree (and_then m1 m2) (and_then m1' m2')"
  unfolding agree_def
proof
  fix s
  obtain r t where 1: "m1 s = (r, t)" by fastforce
  obtain r' t' where p: "m1' s = (r', t')" by fastforce
  note eq = agreeD [OF assms(1) 1 p]
  show "fst (and_then m1 m2 s) = fst (and_then m1' m2' s) \<and>
      (fst (and_then m1 m2 s) = Inr () \<longrightarrow> and_then m1 m2 s = and_then m1' m2' s)"
  proof (cases r)
    case (Inl e)
    with eq show ?thesis by (simp add: and_then_def 1 p)
  next
    case (Inr u)
    with eq have "r' = Inr ()" "t' = t" by simp_all
    with Inr have "and_then m1 m2 s = m2 t" "and_then m1' m2' s = m2' t"
      by (simp_all add: and_then_def 1 p)
    with assms(2) show ?thesis unfolding agree_def by metis
  qed
qed

lemma agree_do_all: "list_all2 agree ms ms' \<Longrightarrow> agree (do_all ms) (do_all ms')"
  by (induction ms ms' rule: list_all2_induct) (auto intro: agree_refl agree_and_then)

lemma agree_commas:
  assumes "list_all2 (\<lambda>x y. agree (f x) (g y)) xs ys"
  shows "agree (commas f xs) (commas g ys)"
proof -
  have "list_all2 agree (map (\<lambda>(i, x). and_then (comma i) (f x)) (enumerate 0 xs))
      (map (\<lambda>(i, y). and_then (comma i) (g y)) (enumerate 0 ys))"
    using assms by (auto simp: list_all2_conv_all_nth nth_enumerate_eq intro: agree_and_then agree_refl)
  then show ?thesis unfolding commas_def by (rule agree_do_all)
qed

lemma addArg1_is_addArgs: "addArg1 xs = addArgs xs"
  by (rule ext) (simp add: addArg1_def addArgs_def ok_def)

lemma alias1_is_buildAs: "quoter E = CHR ''`'' \<Longrightarrow> alias1 al = buildAs E al"
  by (rule ext) (simp add: alias1_def buildAs_def and_then_def emit_def quote_def ok_def)

lemma agree_buildColumn:
  assumes "quoter E = CHR ''`''" and "b_model E = m"
  shows "agree (buildColumn1 m name []) (buildColumn E None name)"
  using assms
  by (auto simp: agree_def buildColumn1_def alias1_def buildColumn_def colName_def field_column_def quote_def
      and_then_def emit_def ok_def fail_def split: option.split)

lemma buildColumn1_alias: "buildColumn1 m name al = and_then (buildColumn1 m name []) (alias1 al)"
  by (rule ext)
    (simp add: buildColumn1_def and_then_def emit_def ok_def fail_def alias1_def split: option.split prod.split)

lemma agree_buildSelColumn:
  assumes "quoter E = CHR ''`''" and "b_model E = m"
  shows "agree (buildColumn1 m name al) (buildSelColumn E (Column None name al) True)"
proof -
  have "agree (and_then (buildColumn1 m name []) (alias1 al)) (and_then (buildColumn E None name) (buildAs E al))"
    using assms by (intro agree_and_then agree_buildColumn) (simp_all add: alias1_is_buildAs agree_refl)
  then show ?thesis by (simp add: buildSelColumn_def buildColumn1_alias [of m name al])
qed

lemma emit_append: "emit (u @ w) = and_then (emit u) (emit w)"
  by (rule ext) (simp add: and_then_def emit_def)

lemma emit_space: "p \<noteq> [] \<Longrightarrow> emit (CHR '' '' # p) = and_then (emit '' '') (emit p)"
  using emit_append [of "'' ''" p] by simp

lemma and_then_assoc: "and_then (and_then a b) c = and_then a (and_then b c)"
  by (rule ext) (simp add: and_then_def split: prod.split sum.split)

lemma and_then_ok [simp]: "and_then m ok = m" "and_then ok m = m"
  by (rule ext, simp add: and_then_def ok_def split: prod.split sum.split)+

lemma agree_buildAggregate:
  assumes "quoter E = CHR ''`''" and "b_model E = m"
  shows "agree (buildAggregate1 m f arg al) (buildAggregate E (Aggregate None f arg al) True)"
    and "agree (buildAggregate1 m f arg []) (buildAggregate E (Aggregate None f arg al) False)"
  using assms unfolding buildAggregate1_def buildAggregate_def
  by (auto simp: emit_append and_then_assoc alias1_is_buildAs alias1_def [of "[]"]
      intro!: agree_and_then agree_refl agree_buildColumn)


definition operand1 :: "Model \<Rightarrow> 'x expr1 \<Rightarrow> 'x bm" where
  "operand1 m e = and_then (when_do (is_XPredicate e) (emit ''(''))
     (and_then (buildExpression1 m e) (when_do (is_XPredicate e) (emit '')'')))"

lemma buildExpression1_predicate:
  "p \<noteq> [] \<Longrightarrow> buildExpression1 m (XPredicate l p r) =
     and_then (operand1 m l) (and_then (emit '' '') (and_then (emit p) (and_then (emit '' '') (operand1 m r))))"
  by (simp add: operand1_def and_then_assoc)

lemma buildExpression_predicate:
  "p \<noteq> [] \<Longrightarrow> buildExpression E bq (EPredicate l p (Some r)) =
     and_then (buildSide E bq l) (and_then (emit '' '') (and_then (emit p) (and_then (emit '' '') (buildSubExpr E bq r))))"
  by (simp add: buildBinary_def and_then_assoc emit_space)

lemma common_to_expr: "common e \<Longrightarrow> \<exists>e'. to_expr e = Some e'"
  by (cases e) simp_all

lemma agree_operand:
  assumes "quoter E = CHR ''`''" and "b_model E = m" and "common e" and "to_expr e = Some e'"
    and "agree (buildExpression1 m e) (buildExpression E bq e')"
  shows "agree (operand1 m e) (buildSubExpr E bq e')"
proof (cases "is_XPredicate e")
  case True
  then obtain l p r where "e' = EPredicate l p r" using assms(4) by (cases e) auto
  then have "buildSubExpr E bq e' = in_parens (buildExpression E bq e')" by simp
  moreover have "agree (operand1 m e) (in_parens (buildExpression E bq e'))"
    using True assms(5) by (auto simp: operand1_def in_parens_def when_do_def intro!: agree_and_then agree_refl)
  ultimately show ?thesis by simp
next
  case False
  then have "buildSubExpr E bq e' = buildExpression E bq e'"
    using assms(3,4) by (cases e) auto
  with False assms(5) show ?thesis by (simp add: operand1_def when_do_def)
qed

lemma agree_buildExpression:
  assumes "quoter E = CHR ''`''" and "b_model E = m"
  shows "common e \<Longrightarrow> to_expr e = Some e' \<Longrightarrow> agree (buildExpression1 m e) (buildExpression E bq e')"
proof (induction e arbitrary: e')
  case (XColumn name al)
  then show ?case using agree_buildColumn [OF assms] by auto
next
  case (XAggregate f arg al)
  then show ?case using agree_buildAggregate(2) [OF assms] by auto
next
  case (XValue v)
  then show ?case by (auto simp: addArg1_is_addArgs agree_refl)
next
  case (XPredicate l p r)
  then obtain r' where r': "to_expr r = Some r'" and e': "e' = EPredicate (to_expr l) p (Some r')"
    using common_to_expr [of r] by auto
  have r: "agree (operand1 m r) (buildSubExpr E bq r')"
    using XPredicate r' assms by (intro agree_operand) auto
  have l: "agree (operand1 m l) (buildSide E bq (to_expr l))"
  proof (cases "l = XNil")
    case True
    then show ?thesis by (simp add: operand1_def when_do_def agree_refl)
  next
    case False
    with XPredicate.prems obtain l' where "to_expr l = Some l'" "common l" using common_to_expr [of l] by auto
    with XPredicate.IH(1) assms show ?thesis by (auto intro!: agree_operand)
  qed
  have p: "p \<noteq> []" using XPredicate.prems by simp
  show ?case
    unfolding e' buildExpression1_predicate [OF p] buildExpression_predicate [OF p]
    by (intro agree_and_then agree_refl l r)
qed simp_all

lemma to_expr_And:
  assumes "\<forall>q \<in> set (p # ps). common q"
  shows "to_expr (foldl X_And p ps) = Some (foldl And (the (to_expr p)) (map (the \<circ> to_expr) ps))
    \<and> common (foldl X_And p ps)"
  using assms
proof (induction ps arbitrary: p)
  case Nil
  then show ?case using common_to_expr [of p] by auto
next
  case (Cons q qs)
  then have "to_expr (X_And p q) = Some (And (the (to_expr p)) (the (to_expr q)))" "common (X_And p q)"
    using common_to_expr [of p] common_to_expr [of q] by (auto simp: X_And_def And_def)
  with Cons show ?case by auto
qed

lemma agree_buildWhere:
  assumes "quoter E = CHR ''`''" and "b_model E = m" and "\<forall>q \<in> set ps. common q"
  shows "agree (buildWhere1 m kw ps) (buildWhere E bq kw (map (the \<circ> to_expr) ps))"
proof (cases ps)
  case (Cons p qs)
  with assms(3) to_expr_And [of p qs] show ?thesis
    by (auto simp: buildWhere1_def buildWhere_def buildPredicates_def
        intro!: agree_and_then agree_refl agree_buildExpression assms(1,2))
qed (simp add: buildWhere1_def buildWhere_def agree_refl)

lemma agree_buildSelectable:
  assumes "quoter E = CHR ''`''" and "b_model E = m"
  shows "agree (buildSelectable1 m c) (buildSelectable E (to_selectable c))"
  using agree_buildSelColumn [OF assms] agree_buildAggregate(1) [OF assms]
  by (cases c) (auto simp: raw_def addArg1_is_addArgs agree_refl)

lemma agree_buildColumns:
  assumes "quoter E = CHR ''`''" and "b_model E = m"
  shows "agree (buildColumns1 m cols) (buildColumns E (map to_selectable cols))"
  using agree_buildSelectable [OF assms]
  by (auto simp: buildColumns1_def buildColumns_def agree_refl list_all2_conv_all_nth intro!: agree_commas)

lemma agree_buildGroupBy:
  assumes "quoter E = CHR ''`''" and "b_model E = m" and "\<forall>c \<in> set cols. snd c = []"
  shows "agree (if cols = [] then ok
      else and_then (emit '' GROUP BY '') (commas (\<lambda>(name, al). buildColumn1 m name al) cols))
    (buildGroupBy E (map (\<lambda>(name, al). Column None name al) cols))"
proof -
  have "agree (buildColumn1 m (fst c) (snd c)) (buildSelColumn E (Column None (fst c) (snd c)) False)"
    if "c \<in> set cols" for c
    using agree_buildColumn [OF assms(1,2)] assms(3) that by (simp add: buildSelColumn_def)
  from this [OF nth_mem] have "agree (buildColumn1 m (fst (cols ! i)) (snd (cols ! i)))
      (buildSelColumn E (Column None (fst (cols ! i)) (snd (cols ! i))) False)" if "i < length cols" for i
    using that by blast
  then have "agree (commas (\<lambda>(name, al). buildColumn1 m name al) cols)
      (commas (\<lambda>c. buildSelColumn E c False) (map (\<lambda>(name, al). Column None name al) cols))"
    by (intro agree_commas) (auto simp: list_all2_conv_all_nth case_prod_unfold)
  then show ?thesis by (auto simp: buildGroupBy_def intro!: agree_and_then agree_refl)
qed

lemma agree_buildSelect:
  assumes "quoter E = CHR ''`''" and "b_model E = m" and "common_selector s"
  shows "agree (buildSelect1 m s) (buildSelect E bq (to_selector s))"
proof -
  have table: "do_all [emit ''`'', emit (TableName m), emit ''`''] = buildTable E bq None"
    by (rule ext) (simp add: assms(1,2) quote_def and_then_def emit_def ok_def)
  have bound: "buildBound1 kw n = buildBound kw n" for kw and n :: int
    by (simp add: buildBound1_def buildBound_def addArg1_is_addArgs)
  have "buildSelect1 m s = do_all
     [emit ''SELECT '', buildColumns1 m (s1_columns s), emit '' FROM '', buildTable E bq None,
      buildWhere1 m '' WHERE '' (s1_where s),
      if s1_groupBy s = [] then ok
      else and_then (emit '' GROUP BY '') (commas (\<lambda>(name, al). buildColumn1 m name al) (s1_groupBy s)),
      buildWhere1 m '' HAVING '' (s1_having s), buildBound1 '' LIMIT ?'' (s1_limit s),
      buildBound1 '' OFFSET ?'' (s1_offset s), emit '';'']"
    using assms(3) unfolding buildSelect1_def common_selector_def table [symmetric] by simp
  then show ?thesis
    unfolding buildSelect_def
    using assms(3)
    by (simp only:) (intro agree_do_all,
      simp add: to_selector_def common_selector_def agree_refl bound agree_buildColumns [OF assms(1,2)]
        agree_buildWhere [OF assms(1,2)] agree_buildGroupBy [OF assms(1,2)] del: buildTable.simps)
qed


subsection \<open>Properties\<close>

text \<open>
  Claim C40: the later builder keeps the meaning of the earlier one. A selector of \<open>homework_select\<close> over
  its model's table, without \<open>ORDER BY\<close>, whose conditions use no raw expression and no aliased
  aggregate and whose \<open>GROUP BY\<close> columns have no alias, builds the same SQL with the same arguments, or the same error, as the selector of
  \<open>homework_subquery\<close> with the same clauses.
\<close>

theorem selectors_agree:
  assumes "common_selector s" and "selectors h sid = to_selector s"
  shows "fst (Build1 h s) = fst (Build (Suc n) sid h)"
proof (cases "s1_r s (s1_entity s)")
  case (Inl e)
  then show ?thesis using assms(2) by (simp add: Build1_def Build.simps to_selector_def Let_def)
next
  case (Inr m)
  let ?E = "\<lparr>reg = s1_r s, quoter = CHR ''`'', b_model = m\<rparr>"
  let ?st = "\<lparr>sb = s1_sb s, b_args = s1_args s, heap = h\<rparr>"
  have a: "agree (buildSelect1 m s) (buildSelect ?E (Build n) (to_selector s))"
    by (rule agree_buildSelect) (simp_all add: assms(1))
  obtain r t where 1: "buildSelect1 m s ?st = (r, t)" by fastforce
  obtain r' t' where 2: "buildSelect ?E (Build n) (to_selector s) ?st = (r', t')" by fastforce
  note eq = agreeD [OF a 1 2]
  have "fst (Build1 h s) = (case r of Inl e \<Rightarrow> Inl e | Inr _ \<Rightarrow> Inr (sb t, b_args t))"
    by (simp add: Build1_def Inr 1)
  moreover have "fst (Build (Suc n) sid h) = (case r' of Inl e \<Rightarrow> Inl e | Inr _ \<Rightarrow> Inr (sb t', b_args t'))"
    using 2 Inr by (simp add: Build.simps Let_def assms(2)) (simp add: to_selector_def)
  ultimately show ?thesis using eq by (auto split: sum.split)
qed

definition old_by_id :: "nat selector1" where
  "old_by_id = Limit1 3 (Where1 [X_EQ (X_C ''Id'') (Inr (VAny 7)), X_Not (X_GT (X_C ''FirstName'') (Inr (VAny 1)))]
     (Select1 [LAggregate ''MAX'' ''Id'' ''top''] (NewSelector1 user_reg user_val)))"

theorem selectors_agree_witness:
  "fst (Build 1 0 (user_heap (to_selector old_by_id))) =
     Inr (''SELECT MAX(`id`) AS `top` FROM `user` WHERE (`id` = ?) AND ( NOT (`first` > ?)) LIMIT ?;'',
          [VAny 7, VAny 1, VInt 3])"
proof -
  note demo = old_by_id_def Limit1_def Where1_def Select1_def NewSelector1_def X_EQ_def X_GT_def X_Not_def
    X_C_def X_exprOf_def
  have "common_selector old_by_id" by (simp add: common_selector_def demo)
  then have "fst (Build1 (user_heap (to_selector old_by_id)) old_by_id) =
      fst (Build (Suc 0) 0 (user_heap (to_selector old_by_id)))"
    by (rule selectors_agree) (simp add: user_heap_def)
  moreover have "fst (Build1 h old_by_id) =
     Inr (''SELECT MAX(`id`) AS `top` FROM `user` WHERE (`id` = ?) AND ( NOT (`first` > ?)) LIMIT ?;'',
          [VAny 7, VAny 1, VInt 3])" for h
    by (simp add: Build1_def demo user_reg_def user_val_def user_model_def buildSelect1_def buildColumns1_def
        commas_def comma_def buildAggregate1_def buildColumn1_def alias1_def buildWhere1_def X_And_def
        buildBound1_def addArg1_def and_then_def emit_def ok_def addArgs_def when_do_def)
  ultimately show ?thesis by simp
qed

end
