(* ===== verification/Orm_Value1.thy ===== *)
theory Orm_Value1
  imports Orm_Value Orm_Model1
begin

text \<open>
  The valuers of \<open>homework_select/internal/valuer\<close>, which only store rows, and the options of
  \<open>homework_select/db.go\<close>. Structs and rows are those of \<open>Orm_Value\<close>, models those of \<open>Orm_Model1\<close>.
\<close>

subsection \<open>Valuers\<close>

fun column_fields1 :: "Model1 \<Rightarrow> string list \<Rightarrow> (orm_error, Field1 list) result" where
  "column_fields1 m [] = Inr []"
| "column_fields1 m (c # cs) =
     (case m1_ColumnMap m c of
        None \<Rightarrow> Inl (ErrUnknownColumn c)
      | Some p \<Rightarrow> bind_result (column_fields1 m cs) (\<lambda>fds. Inr (m1_store m ! p # fds)))"

definition unsafe1_SetColumns ::
  "Model1 \<Rightarrow> 'v rows \<Rightarrow> 'v struct_mem \<Rightarrow> (orm_error, unit) result \<times> 'v struct_mem" where
  "unsafe1_SetColumns m rows mem =
     (case r_columns rows of
        Inl e \<Rightarrow> (Inl e, mem)
      | Inr cs \<Rightarrow>
          if length cs > card (dom (m1_ColumnMap m)) then (Inl ErrTooManyReturnedColumns, mem)
          else (case column_fields1 m cs of
            Inl e \<Rightarrow> (Inl e, mem)
          | Inr fds \<Rightarrow> Scan rows (map (\<lambda>fd. (f1_Offset fd, f1_Type fd)) fds) mem))"

fun set_fields1 :: "struct_field list \<Rightarrow> 'v struct_mem \<Rightarrow> nat \<Rightarrow> Field1 list \<Rightarrow> 'v struct_mem
    \<Rightarrow> (orm_error, unit) result \<times> 'v struct_mem" where
  "set_fields1 sfs vals i [] mem = (Inr (), mem)"
| "set_fields1 sfs vals i (fd # fds) mem =
     (case FieldByName sfs (f1_GoName fd) of
        None \<Rightarrow> (Inl PanicUnexported, mem)
      | Some sf \<Rightarrow>
          if exported sf then set_fields1 sfs vals (i + 1) fds (mem(sf_Offset sf := vals i))
          else (Inl PanicUnexported, mem))"

definition reflect1_SetColumns :: "(nat \<Rightarrow> 'v) \<Rightarrow> struct_field list \<Rightarrow> Model1 \<Rightarrow> 'v rows \<Rightarrow> 'v struct_mem
    \<Rightarrow> (orm_error, unit) result \<times> 'v struct_mem" where
  "reflect1_SetColumns zero sfs m rows mem =
     (case r_columns rows of
        Inl e \<Rightarrow> (Inl e, mem)
      | Inr cs \<Rightarrow>
          if length cs > card (dom (m1_FieldMap m)) then (Inl ErrTooManyReturnedColumns, mem)
          else (case column_fields1 m cs of
            Inl e \<Rightarrow> (Inl e, mem)
          | Inr fds \<Rightarrow>
              (case Scan rows (enumerate 0 (map f1_Type fds)) (\<lambda>i. zero (f1_Type (fds ! i))) of
                 (Inl e, _) \<Rightarrow> (Inl e, mem)
               | (Inr _, vals) \<Rightarrow> set_fields1 sfs vals 0 fds mem)))"

subsection \<open>Databases\<close>

text \<open>
  A database is its registry and the creator of its valuers, which is here what \<open>SetColumns\<close> of a value
  does, given the struct's fields.
\<close>

record 'v DB1 =
  db1_r :: "go_val \<Rightarrow> (orm_error, Model1) result"
  db1_valCreator :: "struct_field list \<Rightarrow> Model1 \<Rightarrow> 'v rows \<Rightarrow> 'v struct_mem
    \<Rightarrow> (orm_error, unit) result \<times> 'v struct_mem"

type_synonym 'v DBOption1 = "'v DB1 \<Rightarrow> 'v DB1"

definition OpenDB1 :: "(nat \<Rightarrow> go_type) \<Rightarrow> 'v DBOption1 list \<Rightarrow> 'v DB1" where
  "OpenDB1 types opts = fold (\<lambda>opt res. opt res) opts
     \<lparr>db1_r = (\<lambda>v. fst (registry1_Get types v NewRegistry1)),
      db1_valCreator = (\<lambda>sfs. unsafe1_SetColumns)\<rparr>"

definition DBWithRegistry1 :: "(go_val \<Rightarrow> (orm_error, Model1) result) \<Rightarrow> 'v DBOption1" where
  "DBWithRegistry1 r db = db\<lparr>db1_r := r\<rparr>"

definition DBUseReflectValuer1 :: "(nat \<Rightarrow> 'v) \<Rightarrow> 'v DBOption1" where
  "DBUseReflectValuer1 zero db = db\<lparr>db1_valCreator := reflect1_SetColumns zero\<rparr>"

subsection \<open>Both versions store alike\<close>

lemma forget_sel [simp]:
  "m1_ColumnMap (forget m) = ColumnMap m" "m1_FieldMap (forget m) = FieldMap m"
  "m1_store (forget m) = map forget_field (Fields m)"
  by (simp_all add: forget_def)

lemma forget_field_sel [simp]:
  "f1_Offset (forget_field f) = Offset f" "f1_Type (forget_field f) = Type f" "f1_GoName (forget_field f) = GoName f"
  by (simp_all add: forget_field_def)

lemma column_fields_forget:
  "columns_found m \<Longrightarrow> column_fields1 (forget m) cs = map_sum id (map forget_field) (column_fields m cs)"
proof (induction cs)
  case (Cons c cs)
  show ?case
  proof (cases "ColumnMap m c")
    case (Some i)
    with Cons.prems have "i < length (Fields m)" by (auto simp: columns_found_def)
    with Some Cons show ?thesis by (cases "column_fields m cs") simp_all
  qed simp
qed simp

lemma set_fields_forget: "set_fields1 sfs vals i (map forget_field fds) mem = set_fields sfs vals i fds mem"
  by (induction fds arbitrary: i mem) (simp_all split: option.split)

lemma unsafe_forget:
  "columns_found m \<Longrightarrow> unsafe1_SetColumns (forget m) rows mem = unsafe_SetColumns m rows mem"
  by (simp add: unsafe1_SetColumns_def unsafe_SetColumns_def column_fields_forget comp_def split: sum.split)

text \<open>A scan reads the variables of its columns, and only those are read afterwards.\<close>

lemma scan_from_fresh:
  assumes "scan_from conv i (enumerate i ts) v = (r, w)" and "scan_from conv i (enumerate i ts) v' = (r', w')"
    and "\<forall>j < i + length ts. v j = v' j"
  shows "r = r' \<and> (\<forall>j < i + length ts. w j = w' j)"
  using assms
proof (induction ts arbitrary: i v v')
  case (Cons t ts)
  obtain x a where c: "conv i t (v i) = (x, a)" by fastforce
  with Cons.prems(3) have c': "conv i t (v' i) = (x, a)" by simp
  show ?case
  proof (cases x)
    case (Inr u)
    have "scan_from conv (i + 1) (enumerate (i + 1) ts) (v(i := a)) = (r, w)"
      "scan_from conv (i + 1) (enumerate (i + 1) ts) (v'(i := a)) = (r', w')"
      using Cons.prems(1,2) Inr c c' by simp_all
    moreover have "\<forall>j < (i + 1) + length ts. (v(i := a)) j = (v'(i := a)) j" using Cons.prems(3) by simp
    ultimately have "r = r' \<and> (\<forall>j < (i + 1) + length ts. w j = w' j)" by (rule Cons.IH)
    then show ?thesis by simp
  qed (use Cons.prems c c' in auto)
qed auto

lemma set_fields_cong:
  "\<forall>j < i + length fds. i \<le> j \<longrightarrow> v j = v' j \<Longrightarrow> set_fields sfs v i fds mem = set_fields sfs v' i fds mem"
proof (induction fds arbitrary: i mem)
  case (Cons fd fds)
  have "v i = v' i" "\<forall>j < (i + 1) + length fds. i + 1 \<le> j \<longrightarrow> v j = v' j" using Cons.prems by simp_all
  then show ?case using Cons.IH [of "i + 1"] by (simp split: option.split)
qed simp

lemma reflect_forget:
  assumes "columns_found m"
  shows "reflect1_SetColumns zero sfs (forget m) rows mem = reflect_SetColumns zero sfs m rows mem"
proof (cases "\<exists>cs fds. r_columns rows = Inr cs \<and> \<not> length cs > card (dom (FieldMap m))
    \<and> column_fields m cs = Inr fds \<and> r_scan_error rows = None")
  case False
  then show ?thesis
    by (auto simp: reflect1_SetColumns_def reflect_SetColumns_def column_fields_forget [OF assms] Scan_def
        split: sum.split option.split)
next
  case True
  then obtain cs fds where *: "r_columns rows = Inr cs" "\<not> length cs > card (dom (FieldMap m))"
    "column_fields m cs = Inr fds" "r_scan_error rows = None" by blast
  let ?scan = "\<lambda>v. scan_from (r_value rows) 0 (enumerate 0 (map Type fds)) v"
  let ?v = "\<lambda>i. zero (f1_Type (map forget_field fds ! i))" and ?v' = "\<lambda>i. zero (Type (fds ! i))"
  obtain r w r' w' where 1: "?scan ?v = (r, w)" and 2: "?scan ?v' = (r', w')" by fastforce
  from scan_from_fresh [OF 1 2]
  have eq: "r = r'" "r = Inr () \<Longrightarrow> set_fields sfs w 0 fds mem = set_fields sfs w' 0 fds mem"
    by (auto intro!: set_fields_cong)
  have "reflect1_SetColumns zero sfs (forget m) rows mem =
      (case r of Inl e \<Rightarrow> (Inl e, mem) | Inr _ \<Rightarrow> set_fields sfs w 0 fds mem)"
    using 1 * by (simp add: reflect1_SetColumns_def column_fields_forget [OF assms] Scan_def comp_def
        set_fields_forget split: sum.split)
  also have "\<dots> = reflect_SetColumns zero sfs m rows mem"
    using 2 * eq by (auto simp: reflect_SetColumns_def Scan_def split: sum.split)
  finally show ?thesis .
qed

text \<open>So what \<open>Orm_Value\<close> shows of its valuers holds of these.\<close>

lemma valuers1_agree:
  assumes "model_of sfs m" and "\<forall>sf \<in> set sfs. exported sf"
    and "card (dom (ColumnMap m)) = card (dom (FieldMap m))"
    and "blind zero (r_value rows) \<or> fresh_struct zero m rows mem"
  shows "fst (reflect1_SetColumns zero sfs (forget m) rows mem) = fst (unsafe1_SetColumns (forget m) rows mem)
    \<and> (fst (unsafe1_SetColumns (forget m) rows mem) = Inr () \<longrightarrow>
         snd (reflect1_SetColumns zero sfs (forget m) rows mem) = snd (unsafe1_SetColumns (forget m) rows mem))"
proof -
  have "columns_found m" using assms(1) by (simp add: model_of_def)
  then show ?thesis
    using SetColumns_agree [OF assms] by (simp add: reflect_forget unsafe_forget)
qed

end
