(* ===== verification/Mem_Trace.thy ===== *)
theory Mem_Trace
  imports Mem_Cache
begin

text \<open>
  Histories of a \<open>MemoryMapCache\<close>: the calls of many goroutines in the order in which they take the lock,
  with the ticks of the sweeper between them, and that every history answers as an ideal store that
  never sweeps and only hides what has expired.

  A \<open>Get\<close> that finds an expired entry takes the lock a second time; that part, \<open>CGetLate\<close>, is a step of its
  own, which still uses the time read between the two locks. A tick of the sweeper carries the time the
  ticker sent, which is no later than the time of the step.
\<close>

subsection \<open>Histories\<close>

datatype cmd = CSet string bytes int | CGet string | CGetLate string int | CDelete string
  | CLoadAndDelete string | CSweep int "string list"

datatype reply = RUnit | RVal "(cache_error, bytes) result"

definition returning :: "(fault, 'c mcache) result \<Rightarrow> (fault, reply \<times> 'c mcache) result" where
  "returning r = bind_result r (\<lambda>c. Inr (RUnit, c))"

definition answering ::
  "(fault, (cache_error, bytes) result \<times> 'c mcache) result \<Rightarrow> (fault, reply \<times> 'c mcache) result" where
  "answering r = bind_result r (\<lambda>(v, c). Inr (RVal v, c))"

text \<open>A \<open>Get\<close> that is to go on under the write lock has answered nothing yet.\<close>

fun run_cmd :: "int \<Rightarrow> cmd \<Rightarrow> 'c mcache \<Rightarrow> (fault, reply \<times> 'c mcache) result" where
  "run_cmd now (CSet k v ex) c = Inr (RUnit, Set now k v ex c)"
| "run_cmd now (CGet k) c =
     Inr (case get_read now k c of GetDone r \<Rightarrow> RVal r | GetExpired \<Rightarrow> RUnit, c)"
| "run_cmd now (CGetLate k n) c = answering (get_expired n k c)"
| "run_cmd now (CDelete k) c = returning (Delete k c)"
| "run_cmd now (CLoadAndDelete k) c = answering (LoadAndDelete k c)"
| "run_cmd now (CSweep t ks) c = returning (sweep t ks c)"

fun run_cmds :: "(int \<times> cmd) list \<Rightarrow> 'c mcache \<Rightarrow> (fault, reply list \<times> 'c mcache) result" where
  "run_cmds [] c = Inr ([], c)"
| "run_cmds ((now, x) # xs) c =
     bind_result (run_cmd now x c) (\<lambda>(r, c). bind_result (run_cmds xs c) (\<lambda>(rs, c). Inr (r # rs, c)))"

text \<open>Steps in the order of their times, each with a reading of the clock that is not later.\<close>

definition cmd_time :: "int \<Rightarrow> cmd \<Rightarrow> bool" where
  "cmd_time now x \<longleftrightarrow> (case x of CGetLate _ n \<Rightarrow> n \<le> now | CSweep t _ \<Rightarrow> t \<le> now | _ \<Rightarrow> True)"

fun timed :: "int \<Rightarrow> (int \<times> cmd) list \<Rightarrow> bool" where
  "timed t [] \<longleftrightarrow> True"
| "timed t ((now, x) # xs) \<longleftrightarrow> t \<le> now \<and> cmd_time now x \<and> timed now xs"

subsection \<open>The ideal store\<close>

type_synonym store = "string \<Rightarrow> item option"

definition fresh :: "int \<Rightarrow> store \<Rightarrow> string \<Rightarrow> bytes option" where
  "fresh now st k = (case st k of None \<Rightarrow> None | Some i \<Rightarrow> if deadlineBefore i now then None else Some (it_val i))"

fun ideal_next :: "int \<Rightarrow> cmd \<Rightarrow> store \<Rightarrow> store" where
  "ideal_next now (CSet k v ex) st =
     st(k \<mapsto> \<lparr>it_val = v, it_deadline = (if ex > 0 then Some (now + ex) else None)\<rparr>)"
| "ideal_next now (CDelete k) st = st(k := None)"
| "ideal_next now (CLoadAndDelete k) st = st(k := None)"
| "ideal_next now _ st = st"

definition found :: "string \<Rightarrow> bytes option \<Rightarrow> reply" where
  "found k r = RVal (case r of None \<Rightarrow> Inl (KeyNotFound k) | Some v \<Rightarrow> Inr v)"

text \<open>
  What a step may answer. A value that has expired may be handed out by \<open>LoadAndDelete\<close> or missing; a
  late \<open>Get\<close> answers for its own time or for now.
\<close>

fun allowed :: "int \<Rightarrow> cmd \<Rightarrow> store \<Rightarrow> reply \<Rightarrow> bool" where
  "allowed now (CGet k) st r \<longleftrightarrow> r = found k (fresh now st k) \<or> r = RUnit \<and> st k \<noteq> None \<and> fresh now st k = None"
| "allowed now (CGetLate k n) st r \<longleftrightarrow> r = found k (fresh n st k) \<or> r = found k (fresh now st k)"
| "allowed now (CLoadAndDelete k) st r \<longleftrightarrow>
     (\<exists>i. st k = Some i \<and> r = RVal (Inr (it_val i))) \<or> fresh now st k = None \<and> r = RVal (Inl errKeyNotFound)"
| "allowed now _ st r \<longleftrightarrow> r = RUnit"

fun ideal_final :: "(int \<times> cmd) list \<Rightarrow> store \<Rightarrow> store" where
  "ideal_final [] st = st"
| "ideal_final ((now, x) # xs) st = ideal_final xs (ideal_next now x st)"

fun all_allowed :: "(int \<times> cmd) list \<Rightarrow> store \<Rightarrow> reply list \<Rightarrow> bool" where
  "all_allowed [] st rs \<longleftrightarrow> rs = []"
| "all_allowed ((now, x) # xs) st rs \<longleftrightarrow>
     (\<exists>r rs'. rs = r # rs' \<and> allowed now x st r \<and> all_allowed xs (ideal_next now x st) rs')"

subsection \<open>Simulation\<close>

text \<open>The cache holds the ideal store except for entries that have expired.\<close>

definition sim :: "int \<Rightarrow> 'c mcache \<Rightarrow> store \<Rightarrow> bool" where
  "sim now c st \<longleftrightarrow> total_callback c
     \<and> (\<forall>k. data c k = st k \<or> data c k = None \<and> (\<exists>i. st k = Some i \<and> deadlineBefore i now))"

lemma simI:
  assumes "total_callback c"
    and "\<And>k. data c k = st k \<or> data c k = None \<and> (\<exists>i. st k = Some i \<and> deadlineBefore i now)"
  shows "sim now c st"
  using assms unfolding sim_def by blast

lemma simD:
  "sim now c st \<Longrightarrow> data c k = st k \<or> data c k = None \<and> (\<exists>i. st k = Some i \<and> deadlineBefore i now)"
  unfolding sim_def by blast

lemma sim_callback: "sim now c st \<Longrightarrow> total_callback c"
  unfolding sim_def by blast

lemma sim_later:
  assumes "sim t c st" and "t \<le> now"
  shows "sim now c st"
proof (rule simI)
  show "total_callback c" using assms(1) by (rule sim_callback)
  show "data c k = st k \<or> data c k = None \<and> (\<exists>i. st k = Some i \<and> deadlineBefore i now)" for k
    using simD [OF assms(1), of k] deadlineBefore_mono [OF _ assms(2)] by blast
qed

lemma sim_live: "sim now c st \<Longrightarrow> now \<le> t \<Longrightarrow> live t c = fresh t st"
proof
  fix k
  assume "sim now c st" and "now \<le> t"
  then have "sim t c st" by (rule sim_later)
  then have "data c k = st k \<or> data c k = None \<and> (\<exists>i. st k = Some i \<and> deadlineBefore i t)"
    by (rule simD)
  then show "live t c k = fresh t st k" by (auto simp: live_def fresh_def)
qed

lemma sim_entry: "sim now c st \<Longrightarrow> data c k = Some i \<Longrightarrow> st k = Some i"
  using simD [of now c st k] by simp

lemma sim_missing: "sim now c st \<Longrightarrow> data c k = None \<Longrightarrow> fresh now st k = None"
  using simD [of now c st k] by (auto simp: fresh_def)

text \<open>Removing an entry that has expired, or one that the store removes too.\<close>

lemma sim_delete_expired:
  assumes "sim now c st" and "data c k = Some i" and "deadlineBefore i now"
  shows "\<exists>c'. delete k c = Inr c' \<and> sim now c' st"
proof -
  obtain c' where c': "delete k c = Inr c'" "total_callback c'" "data c' = (data c)(k := None)"
    using live_delete [OF sim_callback [OF assms(1)]] by blast
  moreover have "sim now c' st"
    using simD [OF assms(1)] assms(3) c'(3) sim_entry [OF assms(1,2)] by (intro simI c'(2)) simp
  ultimately show ?thesis by blast
qed

lemma sim_delete:
  assumes "sim now c st"
  shows "\<exists>c'. delete k c = Inr c' \<and> sim now c' (st(k := None))"
proof -
  obtain c' where c': "delete k c = Inr c'" "total_callback c'" "data c' = (data c)(k := None)"
    using live_delete [OF sim_callback [OF assms]] by blast
  moreover have "sim now c' (st(k := None))"
    using simD [OF assms] c'(3) by (intro simI c'(2)) simp
  ultimately show ?thesis by blast
qed

lemma sim_sweep_loop: "sim now c st \<Longrightarrow> t \<le> now \<Longrightarrow> \<exists>c'. sweep_loop i t ks c = Inr c' \<and> sim now c' st"
proof (induction ks arbitrary: i c)
  case (Cons k ks)
  show ?case
  proof (cases "data c k")
    case None
    then show ?thesis using Cons by simp
  next
    case (Some v)
    show ?thesis
    proof (cases "deadlineBefore v t")
      case True
      then have "deadlineBefore v now" using Cons.prems(2) deadlineBefore_mono by blast
      then obtain c' where "delete k c = Inr c'" "sim now c' st"
        using sim_delete_expired [OF Cons.prems(1) Some] by blast
      then show ?thesis using Cons Some True by simp
    next
      case False
      then show ?thesis using Cons Some by simp
    qed
  qed
qed simp

lemma sim_get_expired:
  assumes "sim now c st" and "n \<le> now"
  shows "\<exists>r c'. get_expired n k c = Inr (r, c') \<and> sim now c' st
    \<and> (RVal r = found k (fresh n st k) \<or> RVal r = found k (fresh now st k))"
proof (cases "data c k")
  case None
  then show ?thesis using assms sim_missing [OF assms(1) None] by (simp add: get_expired_def found_def)
next
  case (Some i)
  note st = sim_entry [OF assms(1) Some]
  show ?thesis
  proof (cases "deadlineBefore i n")
    case True
    then have "deadlineBefore i now" using assms(2) deadlineBefore_mono by blast
    then obtain c' where "delete k c = Inr c'" "sim now c' st"
      using sim_delete_expired [OF assms(1) Some] by blast
    then show ?thesis using True Some st by (simp add: get_expired_def found_def fresh_def)
  next
    case False
    then show ?thesis using assms(1) Some st by (simp add: get_expired_def found_def fresh_def)
  qed
qed

lemma sim_get_read:
  assumes "sim now c st"
  shows "allowed now (CGet k) st (case get_read now k c of GetDone r \<Rightarrow> RVal r | GetExpired \<Rightarrow> RUnit)"
proof (cases "data c k")
  case None
  then show ?thesis using sim_missing [OF assms None] by (simp add: get_read_def found_def)
next
  case (Some i)
  then show ?thesis using sim_entry [OF assms Some] by (simp add: get_read_def found_def fresh_def)
qed

lemma sim_LoadAndDelete:
  assumes "sim now c st"
  shows "\<exists>r c'. LoadAndDelete k c = Inr (r, c') \<and> sim now c' (st(k := None)) \<and> allowed now (CLoadAndDelete k) st (RVal r)"
proof (cases "data c k")
  case None
  with simD [OF assms] have "sim now c (st(k := None))" by (intro simI sim_callback [OF assms]) simp
  then show ?thesis using sim_missing [OF assms None] None by (simp add: LoadAndDelete_def)
next
  case (Some i)
  obtain c' where "delete k c = Inr c'" "sim now c' (st(k := None))" using sim_delete [OF assms] by blast
  then show ?thesis using Some sim_entry [OF assms Some] by (simp add: LoadAndDelete_def)
qed

lemma sim_step:
  assumes "sim now c st" and "cmd_time now x"
  shows "\<exists>r c'. run_cmd now x c = Inr (r, c') \<and> sim now c' (ideal_next now x st) \<and> allowed now x st r"
proof (cases x)
  case (CSet k v ex)
  have "sim now (Set now k v ex c) (ideal_next now x st)"
    using simD [OF assms(1)] sim_callback [OF assms(1)]
    by (intro simI) (simp_all add: CSet Set_def total_callback_def)
  then show ?thesis by (simp add: CSet)
next
  case (CGet k)
  then show ?thesis using assms(1) sim_get_read [OF assms(1)] by simp
next
  case (CGetLate k n)
  then show ?thesis
    using assms(2) sim_get_expired [OF assms(1), of n k] by (auto simp: cmd_time_def answering_def)
next
  case (CDelete k)
  then show ?thesis using sim_delete [OF assms(1), of k] by (auto simp: returning_def Delete_def)
next
  case (CLoadAndDelete k)
  then show ?thesis using sim_LoadAndDelete [OF assms(1), of k] by (auto simp: answering_def simp del: allowed.simps)
next
  case (CSweep t ks)
  then show ?thesis
    using assms(2) sim_sweep_loop [OF assms(1), of t 0 ks] by (auto simp: returning_def sweep_def cmd_time_def)
qed

lemma sim_steps:
  "sim t c st \<Longrightarrow> timed t xs \<Longrightarrow> (\<forall>(now, x) \<in> set xs. now \<le> fin) \<Longrightarrow> t \<le> fin \<Longrightarrow>
    \<exists>rs c'. run_cmds xs c = Inr (rs, c') \<and> all_allowed xs st rs \<and> sim fin c' (ideal_final xs st)"
proof (induction xs arbitrary: t c st)
  case Nil
  then show ?case using sim_later by auto
next
  case (Cons a xs)
  obtain now x where a: "a = (now, x)" by fastforce
  with Cons.prems have "sim now c st" "cmd_time now x" "timed now xs" "now \<le> fin"
    using sim_later by auto
  then obtain r c1 where 1: "run_cmd now x c = Inr (r, c1)" "sim now c1 (ideal_next now x st)" "allowed now x st r"
    using sim_step by blast
  from Cons.IH [OF 1(2) \<open>timed now xs\<close> _ \<open>now \<le> fin\<close>] Cons.prems(3)
  obtain rs c' where "run_cmds xs c1 = Inr (rs, c')" "all_allowed xs (ideal_next now x st) rs"
    "sim fin c' (ideal_final xs (ideal_next now x st))" by auto
  with 1 a show ?case by simp
qed

subsection \<open>Properties\<close>

text \<open>
  Claim C19: every history of a cache with a callback that returns refines the ideal store. Whatever calls are made
  at whatever times, with ticks of the sweeper anywhere between them, no call panics, each answers
  what the store allows, and at the end the values alive in the cache, now and at every later time, are
  those of the store: the sweeper and the removals by \<open>Get\<close> are invisible.
\<close>

theorem cache_refines_store:
  assumes "\<forall>k v e. \<exists>e'. f k v e = Inr e'" and "timed t xs" and "\<forall>(now, x) \<in> set xs. now \<le> fin" and "t \<le> fin"
  shows "\<exists>rs c. run_cmds xs (NewMemoryMapCache e [WithEvictedCallback f]) = Inr (rs, c)
    \<and> all_allowed xs Map.empty rs
    \<and> (\<forall>t' \<ge> fin. live t' c = fresh t' (ideal_final xs Map.empty))"
proof -
  have "sim t (NewMemoryMapCache e [WithEvictedCallback f]) Map.empty"
    using assms(1) by (intro simI) (simp_all add: NewMemoryMapCache_def WithEvictedCallback_def total_callback_def)
  then show ?thesis using sim_steps [OF _ assms(2-4)] sim_live by blast
qed

text \<open>A value is set, swept, set again while a late \<open>Get\<close> waits for the lock, and read.\<close>

definition busy_history :: "(int \<times> cmd) list" where
  "busy_history = [(0, CSet ''a'' [1] 5), (6, CGet ''a''), (7, CSweep 6 [''a'']), (8, CSet ''a'' [2] 0),
     (9, CGetLate ''a'' 6), (9, CLoadAndDelete ''a''), (10, CGet ''a'')]"

theorem cache_refines_store_witness:
  "\<exists>rs c. run_cmds busy_history (NewMemoryMapCache [] [WithEvictedCallback logging]) = Inr (rs, c)
    \<and> rs = [RUnit, RUnit, RUnit, RUnit, RVal (Inr [2]), RVal (Inr [2]), RVal (Inl (KeyNotFound ''a''))]
    \<and> live 10 c = (\<lambda>_. None)"
proof -
  have "\<exists>rs c. run_cmds busy_history (NewMemoryMapCache [] [WithEvictedCallback logging]) = Inr (rs, c)
    \<and> all_allowed busy_history Map.empty rs
    \<and> (\<forall>t' \<ge> 10. live t' c = fresh t' (ideal_final busy_history Map.empty))"
    by (rule cache_refines_store [where t = 0]) (auto simp: logging_def busy_history_def cmd_time_def)
  moreover have "\<exists>c. run_cmds busy_history (NewMemoryMapCache [] [WithEvictedCallback logging]) =
      Inr ([RUnit, RUnit, RUnit, RUnit, RVal (Inr [2]), RVal (Inr [2]), RVal (Inl (KeyNotFound ''a''))], c)"
    by (simp add: busy_history_def NewMemoryMapCache_def WithEvictedCallback_def Set_def get_read_def
        deadlineBefore_def returning_def answering_def sweep_def delete_def logging_def get_expired_def
        LoadAndDelete_def Let_def)
  moreover have "fresh 10 (ideal_final busy_history Map.empty) = (\<lambda>_. None)"
    by (auto simp: busy_history_def fresh_def)
  ultimately show ?thesis by auto
qed

end
