(* ===== verification/Max_Drift.thy ===== *)
theory Max_Drift
  imports Max_Cache
begin

text \<open>
  How far the size counter of a \<open>MaxMemoryCache\<close> can drift from what is stored. A \<open>Set\<close> that evicts does
  not count its own value, and once \<open>used\<close> is below the truth the evictions take off what was never
  added: the stored values outgrow every multiple of the bound.
\<close>

subsection \<open>A cache of values of one size\<close>

text \<open>
  All values have length \<open>n\<close>, which is also the bound, and no deadline; the counter stands at \<open>u\<close>, whatever
  is stored.
\<close>

definition drifted :: "'l list_ops \<Rightarrow> ('l \<Rightarrow> string list) \<Rightarrow> nat \<Rightarrow> int \<Rightarrow> 'l max_cache \<Rightarrow> bool" where
  "drifted L elems n u c \<longleftrightarrow> onEvicted c = Some (evicted L) \<and> \<not> lock (env c) \<and> distinct (keys_of elems c)
     \<and> set (keys_of elems c) = dom (data c) \<and> used (env c) = u \<and> max_size (env c) = int n
     \<and> (\<forall>k i. data c k = Some i \<longrightarrow> length (it_val i) = n \<and> it_deadline i = None)"

lemma drifted_Get:
  "drifted L elems n u c \<Longrightarrow> Get now k (set_lock b c) =
     Inr ((case data c k of None \<Rightarrow> Inl (KeyNotFound k) | Some i \<Rightarrow> Inr (it_val i)), set_lock b c)"
  using Get_alive [of now "set_lock b c" k]
  by (auto simp: drifted_def expired_in_def deadlineBefore_def split: option.splits)

lemma drifted_stored:
  assumes "drifted L elems n u c"
  shows "stored_size (data c) (keys_of elems c) = int (length (keys_of elems c) * n)"
proof -
  have "int (length (it_val (the (data c k)))) = int n" if "k \<in> set (keys_of elems c)" for k
  proof -
    from that assms obtain i where "data c k = Some i" by (auto simp: drifted_def)
    with assms show ?thesis by (simp add: drifted_def)
  qed
  then have "stored_size (data c) (keys_of elems c) = sum_list (map (\<lambda>_. int n) (keys_of elems c))"
    unfolding stored_size_def by (metis (no_types, lifting) map_cong)
  then show ?thesis by (simp add: sum_list_triv)
qed

text \<open>The new key is put at the head, and its value is stored.\<close>

lemma drifted_insert:
  assumes "drifted L elems n u c" and "data c key = None" and "elems l = key # keys_of elems c" and "length val = n"
  shows "drifted L elems n u (Set now key val 0 (c\<lparr>env := (env c)\<lparr>lst := l\<rparr>\<rparr>))"
  using assms unfolding drifted_def by (auto simp: Set_def keys_of_def domIff)

lemma drifted_fits:
  assumes ok: "list_ops_ok L elems" and d: "drifted L elems n u c" and new: "data c key = None"
    and "length val = n" and "u \<le> 0"
  shows "\<exists>c'. max_Set L now key val 0 c = Inr (Inr (), c') \<and> drifted L elems n (u + int n) c'
    \<and> keys_of elems c' = key # keys_of elems c"
proof -
  let ?c = "c\<lparr>env := (env c)\<lparr>used := u + int n, lock := False\<rparr>\<rparr>"
  have inv: "\<not> lock (env c)" "used (env c) = u" "max_size (env c) = int n" using d by (simp_all add: drifted_def)
  obtain l where l: "l_add L 0 key (lst (env c)) = Some l" "elems l = key # elems (lst (env c))"
    using list_ops_okD(5) [OF ok] by blast
  have room: "make_room L now (int n) u [] (set_lock True c) = Inr (Inr (), ?c)"
    using inv assms(5) by (simp add: make_room_def set_lock_def)
  have "max_Set L now key val 0 c = Inr (Inr (), Set now key val 0 (?c\<lparr>env := (env ?c)\<lparr>lst := l\<rparr>\<rparr>))"
    using drifted_Get [OF d, of now key True] inv l(1) room assms(4) new by (simp add: max_Set_def Let_def)
  moreover have "drifted L elems n (u + int n) ?c" using d by (auto simp: drifted_def keys_of_def)
  from drifted_insert [OF this, of key l val now] have
    "drifted L elems n (u + int n) (Set now key val 0 (?c\<lparr>env := (env ?c)\<lparr>lst := l\<rparr>\<rparr>))"
    using new l(2) assms(4) by (simp add: keys_of_def)
  moreover have "keys_of elems (Set now key val 0 (?c\<lparr>env := (env ?c)\<lparr>lst := l\<rparr>\<rparr>)) = key # keys_of elems c"
    using l(2) by (simp add: keys_of_def Set_def)
  ultimately show ?thesis by blast
qed

subsection \<open>Evicting everything\<close>

lemma drifted_Delete:
  assumes ok: "list_ops_ok L elems" and d: "drifted L elems n u c" and "k \<in> set (keys_of elems c)"
  shows "\<exists>c'. Delete k c = Inr c' \<and> drifted L elems n (u - int n) c' \<and> keys_of elems c' = remove1 k (keys_of elems c)"
proof -
  let ?m = "env c"
  let ?m' = "?m\<lparr>used := u - int n, lst := purge L k (l_len L (lst ?m)) 0 (lst ?m)\<rparr>"
  obtain i where i: "data c k = Some i" using assms(3) d by (auto simp: drifted_def)
  have inv: "onEvicted c = Some (evicted L)" "\<not> lock ?m" "distinct (elems (lst ?m))" "used ?m = u" "length (it_val i) = n"
    using d i by (simp_all add: drifted_def keys_of_def)
  have "evicted L k (it_val i) ?m = Inr ?m'" using inv by (simp add: evicted_def)
  from mem.del_present [OF i inv(1) this] obtain c' where c': "Delete k c = Inr c'" "data c' = (data c)(k := None)"
    "env c' = ?m'" "onEvicted c' = Some (evicted L)" using inv(1) by auto
  have keys: "elems (lst ?m') = remove1 k (elems (lst ?m))"
    using purge_distinct [OF ok inv(3), of k 0] list_ops_okD(2) [OF ok] by simp
  have "set (keys_of elems c') = dom (data c')"
    using d c'(2,3) keys inv(3) by (auto simp: keys_of_def drifted_def)
  then have "drifted L elems n (u - int n) c'"
    using d c' keys by (simp add: drifted_def keys_of_def)
  then show ?thesis using c' keys by (simp add: keys_of_def)
qed

lemma drifted_delete_all:
  assumes ok: "list_ops_ok L elems"
  shows "drifted L elems n u c \<Longrightarrow> distinct ks \<Longrightarrow> set ks = set (keys_of elems c) \<Longrightarrow>
    \<exists>c'. delete_all Delete ks c = Inr c' \<and> drifted L elems n (u - int (length ks * n)) c' \<and> keys_of elems c' = []"
proof (induction ks arbitrary: u c)
  case (Cons k ks)
  have k: "k \<in> set (keys_of elems c)" using Cons.prems(3) by auto
  obtain c1 where c1: "Delete k c = Inr c1" "drifted L elems n (u - int n) c1"
    "keys_of elems c1 = remove1 k (keys_of elems c)" using drifted_Delete [OF ok Cons.prems(1) k] by blast
  have "distinct (keys_of elems c)" using Cons.prems(1) by (simp add: drifted_def)
  then have "set ks = set (keys_of elems c1)" using Cons.prems(2,3) c1(3) by auto
  from Cons.IH [OF c1(2) _ this] Cons.prems(2) c1(1) show ?case by (auto simp: algebra_simps)
qed simp

text \<open>While the counter is within the bound the loop never has enough and takes every key.\<close>

lemma choose_every_key:
  assumes ok: "list_ops_ok L elems" and d: "drifted L elems n u c" and "u \<le> int n"
  shows "j \<le> length (keys_of elems c) \<Longrightarrow> 0 \<le> free \<Longrightarrow>
    choose_keys L now (int n) u j free acc (set_lock b c) = Inr (Inr (acc @ rev (take j (keys_of elems c))), set_lock b c)"
proof (induction j arbitrary: free acc)
  case (Suc j)
  let ?k = "keys_of elems c ! j"
  have "?k \<in> set (keys_of elems c)" using Suc.prems by simp
  then obtain i where i: "data c ?k = Some i" using d by (auto simp: drifted_def)
  have "l_get L j (lst (env (set_lock b c))) = Some ?k"
    using Suc.prems list_ops_okD(3) [OF ok] by (simp add: keys_of_def)
  moreover have "take (Suc j) (keys_of elems c) = take j (keys_of elems c) @ [?k]"
    using Suc.prems by (simp add: take_Suc_conv_app_nth)
  moreover have "\<not> u - (free + int (length (it_val i))) > int n" using assms(3) Suc.prems(2) by simp
  ultimately show ?case
    using drifted_Get [OF d, of now ?k b] i Suc by (simp add: Let_def)
qed simp

lemma drifted_evicts:
  assumes ok: "list_ops_ok L elems" and d: "drifted L elems n u c" and new: "data c key = None"
    and "length val = n" and "0 < u" "u \<le> int n"
  shows "\<exists>c'. max_Set L now key val 0 c = Inr (Inr (), c') \<and> keys_of elems c' = [key]
    \<and> drifted L elems n (u - int (length (keys_of elems c) * n)) c'"
proof -
  let ?ks = "keys_of elems c"
  let ?u = "u - int (length ?ks * n)"
  have inv: "\<not> lock (env c)" "used (env c) = u" "max_size (env c) = int n" using d by (simp_all add: drifted_def)
  have same: "set_lock False (set_lock True c) = c" using inv(1) by (simp add: set_lock_def)
  obtain c1 where c1: "delete_all Delete (rev ?ks) c = Inr c1" "drifted L elems n ?u c1" "keys_of elems c1 = []"
    using drifted_delete_all [OF ok d, of "rev ?ks"] d by (auto simp: drifted_def)
  have room: "make_room L now (int n) u [] (set_lock True c) = Inr (Inr (), c1)"
    using choose_every_key [OF ok d assms(6), of "length ?ks" 0 now "[]" True] inv assms(5) same c1(1)
      list_ops_okD(2) [OF ok] by (simp add: make_room_def Let_def keys_of_def)
  have "dom (data c1) = {}" using c1(2,3) by (simp add: drifted_def)
  then have none: "data c1 key = None" by auto
  obtain l where l: "l_add L 0 key (lst (env c1)) = Some l" "elems l = key # elems (lst (env c1))"
    using list_ops_okD(5) [OF ok] by blast
  have "max_Set L now key val 0 c = Inr (Inr (), Set now key val 0 (c1\<lparr>env := (env c1)\<lparr>lst := l\<rparr>\<rparr>))"
    using drifted_Get [OF d, of now key True] inv l(1) room assms(4) new by (simp add: max_Set_def Let_def)
  moreover have "drifted L elems n ?u (Set now key val 0 (c1\<lparr>env := (env c1)\<lparr>lst := l\<rparr>\<rparr>))"
    using drifted_insert [OF c1(2) none, of l val now] l(2) assms(4) by (simp add: keys_of_def)
  moreover have "keys_of elems (Set now key val 0 (c1\<lparr>env := (env c1)\<lparr>lst := l\<rparr>\<rparr>)) = [key]"
    using l(2) c1(3) by (simp add: keys_of_def Set_def)
  ultimately show ?thesis by blast
qed

subsection \<open>Runs\<close>

lemma max_Sets_append:
  "max_Sets L (xs @ ys) c = (case max_Sets L xs c of None \<Rightarrow> None | Some c \<Rightarrow> max_Sets L ys c)"
  by (induction L xs c rule: max_Sets.induct) (auto split: sum.split prod.split)

lemma fresh_key:
  assumes "drifted L elems n u c"
  obtains key where "data c key = None"
proof -
  have "finite (dom (data c))" using assms unfolding drifted_def by (metis List.finite_set)
  then obtain key :: string where "key \<notin> dom (data c)" using ex_new_if_finite infinite_UNIV_listI by metis
  with that show thesis by auto
qed

text \<open>A run of values of length \<open>n\<close> to a cache with \<open>k\<close> keys whose counter stands at \<open>u\<close>.\<close>

definition reaches :: "'l list_ops \<Rightarrow> ('l \<Rightarrow> string list) \<Rightarrow> nat \<Rightarrow> 'l max_cache \<Rightarrow> int \<Rightarrow> nat \<Rightarrow> bool" where
  "reaches L elems n c0 u k \<longleftrightarrow> (\<exists>kvs c. max_Sets L kvs c0 = Some c \<and> (\<forall>(_, v) \<in> set kvs. length v = n)
     \<and> drifted L elems n u c \<and> length (keys_of elems c) = k)"

lemma reachesI:
  assumes "reaches L elems n c0 u k"
    and "\<And>c key val. drifted L elems n u c \<Longrightarrow> length (keys_of elems c) = k \<Longrightarrow> data c key = None \<Longrightarrow> length val = n \<Longrightarrow>
      \<exists>c'. max_Set L 0 key val 0 c = Inr (Inr (), c') \<and> drifted L elems n u' c' \<and> length (keys_of elems c') = k'"
  shows "reaches L elems n c0 u' k'"
proof -
  from assms(1) obtain kvs c where run: "max_Sets L kvs c0 = Some c" "\<forall>(_, v) \<in> set kvs. length v = n"
    "drifted L elems n u c" "length (keys_of elems c) = k" unfolding reaches_def by blast
  obtain key where "data c key = None" using fresh_key [OF run(3)] .
  from assms(2) [OF run(3,4) this, of "replicate n 0"] obtain c' where
    "max_Set L 0 key (replicate n 0) 0 c = Inr (Inr (), c')" "drifted L elems n u' c'" "length (keys_of elems c') = k'"
    by auto
  with run show ?thesis
    unfolding reaches_def
    by (intro exI [of _ "kvs @ [(key, replicate n 0)]"] exI [of _ c']) (auto simp: max_Sets_append)
qed

lemma reaches_fits:
  assumes "list_ops_ok L elems" and "reaches L elems n c0 u k" and "u \<le> 0"
  shows "reaches L elems n c0 (u + int n) (Suc k)"
  using assms(2)
proof (rule reachesI)
  fix c key and val :: bytes
  assume c: "drifted L elems n u c" "length (keys_of elems c) = k" "data c key = None" "length val = n"
  then show "\<exists>c'. max_Set L 0 key val 0 c = Inr (Inr (), c') \<and> drifted L elems n (u + int n) c'
      \<and> length (keys_of elems c') = Suc k"
    using drifted_fits [OF assms(1) c(1,3,4) assms(3), of 0] by force
qed

lemma reaches_evicts:
  assumes "list_ops_ok L elems" and "reaches L elems n c0 u k" and "0 < u" "u \<le> int n"
  shows "reaches L elems n c0 (u - int (k * n)) 1"
  using assms(2)
proof (rule reachesI)
  fix c key and val :: bytes
  assume c: "drifted L elems n u c" "length (keys_of elems c) = k" "data c key = None" "length val = n"
  then show "\<exists>c'. max_Set L 0 key val 0 c = Inr (Inr (), c') \<and> drifted L elems n (u - int (k * n)) c'
      \<and> length (keys_of elems c') = 1"
    using drifted_evicts [OF assms(1) c(1,3,4) assms(3,4), of 0] by force
qed

text \<open>One eviction and \<open>k\<close> values that fit turn \<open>k\<close> stored values into \<open>k + 1\<close>.\<close>

lemma reaches_more:
  assumes ok: "list_ops_ok L elems" and "reaches L elems n c0 (int n) k" and "0 < n"
  shows "reaches L elems n c0 (int n) (Suc k)"
proof -
  have "reaches L elems n c0 (int n - int (k * n) + int (j * n)) (Suc j)" if "j \<le> k" for j
    using that
  proof (induction j)
    case 0
    show ?case using reaches_evicts [OF ok assms(2)] assms(3) by simp
  next
    case (Suc j)
    have "int n + int (j * n) \<le> int (k * n)"
      using Suc.prems by (metis add.commute mult_Suc mult_le_mono1 of_nat_add of_nat_le_iff)
    then show ?case using reaches_fits [OF ok Suc.IH] Suc.prems by (simp add: algebra_simps)
  qed
  from this [of k] show ?thesis by simp
qed

lemma reaches_all:
  assumes ok: "list_ops_ok L elems" and "data c = Map.empty" and "0 < n"
  shows "reaches L elems n (NewMaxMemoryCache L (int n) c) (int n) (Suc k)"
proof (induction k)
  case 0
  let ?c = "NewMaxMemoryCache L (int n) c"
  have "drifted L elems n 0 ?c"
    using assms(2) list_ops_okD(1) [OF ok]
    by (simp add: drifted_def NewMaxMemoryCache_def OnEvicted_def keys_of_def)
  moreover have "keys_of elems ?c = []"
    using list_ops_okD(1) [OF ok] by (simp add: NewMaxMemoryCache_def OnEvicted_def keys_of_def)
  ultimately have "reaches L elems n ?c 0 0"
    unfolding reaches_def by (intro exI [of _ "[]"] exI [of _ ?c]) simp
  then show ?case using reaches_fits [OF ok] by fastforce
qed (use reaches_more [OF ok] assms(3) in blast)

text \<open>
  Claim C24: the bound bounds nothing. For every bound, and every multiple of it, there is a run of \<open>Set\<close>s on a
  new cache, each of a value no larger than the bound and each returning no error, after which that
  multiple is stored.
\<close>

theorem max_Set_unbounded:
  assumes "list_ops_ok L elems" and "data c = Map.empty" and "0 < n"
  shows "\<exists>kvs c'. max_Sets L kvs (NewMaxMemoryCache L (int n) c) = Some c'
    \<and> (\<forall>(_, v) \<in> set kvs. length v = n) \<and> max_size (env c') = int n
    \<and> stored_size (data c') (keys_of elems c') = int (Suc k * n)"
proof -
  obtain kvs c' where "max_Sets L kvs (NewMaxMemoryCache L (int n) c) = Some c'"
    "\<forall>(_, v) \<in> set kvs. length v = n" "drifted L elems n (int n) c'" "length (keys_of elems c') = Suc k"
    using reaches_all [OF assms, of k] unfolding reaches_def by blast
  then show ?thesis using drifted_stored [of L elems n "int n" c'] by (auto simp: drifted_def)
qed

theorem max_Set_unbounded_witness:
  "\<exists>kvs c'. max_Sets plain_list kvs (NewMaxMemoryCache plain_list 10 empty_cache) = Some c'
    \<and> max_size (env c') = 10 \<and> stored_size (data c') (keys_of (\<lambda>l. l) c') = 1000"
  using max_Set_unbounded [OF plain_list_ok, of empty_cache 10 99]
  by (auto simp: empty_cache_def NewMemoryMapCache_def)

end
