(* ===== verification/Rpc_User.thy ===== *)
theory Rpc_User
  imports Rpc_Client
begin

text \<open>
  The example service of \<open>rpc/user_service.go\<close> with the serializers of \<open>rpc/serialize\<close> and the compression
  of \<open>rpc/compression/zstd\<close>. The codecs of \<open>encoding/json\<close>, of protobuf and of zstd are arguments; what the
  wrappers add is modelled. That a service sleeps is its answer at a later time.
\<close>

subsection \<open>Values\<close>

text \<open>
  The requests and responses of the service, plain and of the protobuf package; a protobuf response
  holds the name of its user, or no user.
\<close>

datatype rpc_val = GetByIdReq int | GetByIdResp bytes | ProtoReq int | ProtoResp "bytes option"

fun is_Message :: "rpc_val \<Rightarrow> bool" where
  "is_Message (ProtoReq _) = True"
| "is_Message (ProtoResp _) = True"
| "is_Message _ = False"

subsection \<open>Serializers and compression\<close>

definition err_no_message :: bytes where
  "err_no_message =
    [109, 105, 99, 114, 111, 58, 32, 229, 191, 133, 233, 161, 187, 230, 152, 175, 32, 112, 114, 111, 116, 111, 46,
     77, 101, 115, 115, 97, 103, 101]"

definition json_Serializer ::
  "('v \<Rightarrow> (bytes, bytes) result) \<Rightarrow> (bytes \<Rightarrow> 'v \<Rightarrow> 'v \<times> bytes option) \<Rightarrow> 'v Serializer" where
  "json_Serializer marshal unmarshal = \<lparr>sl_Code = 1, sl_Encode = marshal, sl_Decode = unmarshal\<rparr>"

definition proto_Encode :: "(rpc_val \<Rightarrow> (bytes, bytes) result) \<Rightarrow> rpc_val \<Rightarrow> (bytes, bytes) result" where
  "proto_Encode marshal val = (if is_Message val then marshal val else Inl err_no_message)"

definition proto_Decode ::
  "(bytes \<Rightarrow> rpc_val \<Rightarrow> rpc_val \<times> bytes option) \<Rightarrow> bytes \<Rightarrow> rpc_val \<Rightarrow> rpc_val \<times> bytes option" where
  "proto_Decode unmarshal data val = (if is_Message val then unmarshal data val else (val, Some err_no_message))"

definition proto_Serializer ::
  "(rpc_val \<Rightarrow> (bytes, bytes) result) \<Rightarrow> (bytes \<Rightarrow> rpc_val \<Rightarrow> rpc_val \<times> bytes option) \<Rightarrow> rpc_val Serializer" where
  "proto_Serializer marshal unmarshal =
     \<lparr>sl_Code = 2, sl_Encode = proto_Encode marshal, sl_Decode = proto_Decode unmarshal\<rparr>"

text \<open>The zstd encoder reports no error.\<close>

definition zstd_Compressor :: "(bytes \<Rightarrow> bytes) \<Rightarrow> (bytes \<Rightarrow> (bytes, bytes) result) \<Rightarrow> Compression" where
  "zstd_Compressor encodeAll decodeAll =
     \<lparr>cc_Code = 1, cc_Compress = (\<lambda>data. (encodeAll data, None)), cc_Decompress = decodeAll\<rparr>"

subsection \<open>The service\<close>

record UserServiceServer =
  us_Err :: "bytes option"
  us_Msg :: bytes

definition UserServiceServer_GetById :: "UserServiceServer \<Rightarrow> rpc_ctx \<Rightarrow> rpc_val \<Rightarrow> rpc_val option \<times> bytes option" where
  "UserServiceServer_GetById u ctx req = (Some (GetByIdResp (us_Msg u)), us_Err u)"

definition UserServiceServer_GetByIdProto ::
  "UserServiceServer \<Rightarrow> rpc_ctx \<Rightarrow> rpc_val \<Rightarrow> rpc_val option \<times> bytes option" where
  "UserServiceServer_GetByIdProto u ctx req = (Some (ProtoResp (Some (us_Msg u))), us_Err u)"

definition UserService_Name :: bytes where
  "UserService_Name = of_str ''user-service''"

definition user_service :: "UserServiceServer \<Rightarrow> rpc_val Service" where
  "user_service u = \<lparr>svc_Name = UserService_Name,
     svc_methods = [of_str ''GetById'' \<mapsto> \<lparr>in_zero = GetByIdReq 0, call = UserServiceServer_GetById u\<rparr>,
       of_str ''GetByIdProto'' \<mapsto> \<lparr>in_zero = ProtoReq 0, call = UserServiceServer_GetByIdProto u\<rparr>]\<rparr>"

text \<open>
  The service of the tests of deadlines: without a deadline in its context it ends the test, \<open>None\<close>;
  otherwise it sleeps and answers. \<open>now\<close> is the time, in nanoseconds.
\<close>

record UserServiceServerTimeout =
  ut_sleep :: int
  ut_Err :: "bytes option"
  ut_Msg :: bytes

definition Timeout_GetById :: "UserServiceServerTimeout \<Rightarrow> rpc_ctx \<Rightarrow> rpc_val \<Rightarrow> int
    \<Rightarrow> ((rpc_val option \<times> bytes option) \<times> int) option" where
  "Timeout_GetById u ctx req now =
     (if ctx_deadline ctx = None then None
      else Some ((Some (GetByIdResp (ut_Msg u)), ut_Err u), now + ut_sleep u))"

text \<open>The client's struct, with its two fields of function types.\<close>

definition UserService :: "rpc_val go_service" where
  "UserService = StructPointer UserService_Name
     [\<lparr>f_Name = of_str ''GetById'', f_CanSet = True, f_IsFunc = True, f_zero = GetByIdResp [], f_value = None\<rparr>,
      \<lparr>f_Name = of_str ''GetByIdProto'', f_CanSet = True, f_IsFunc = True, f_zero = ProtoResp None, f_value = None\<rparr>]"

fun get_field :: "bytes \<Rightarrow> rpc_val go_service \<Rightarrow> rpc_val stub option" where
  "get_field name (StructPointer svc fs) = (case find (\<lambda>f. f_Name f = name) fs of None \<Rightarrow> None | Some f \<Rightarrow> f_value f)"
| "get_field name _ = None"

text \<open>
  Called with the context the server makes of a client's call (\<open>server_ctx\<close>), the service of the tests
  ends the test exactly when the caller had no deadline; otherwise it answers like the service.
\<close>

lemma Timeout_GetById_remote:
  "Timeout_GetById u (server_ctx ctx) req now =
     (case ctx_deadline ctx of
        None \<Rightarrow> None
      | Some _ \<Rightarrow> Some (UserServiceServer_GetById \<lparr>us_Err = ut_Err u, us_Msg = ut_Msg u\<rparr> (server_ctx ctx) req,
          now + ut_sleep u))"
  by (simp add: Timeout_GetById_def server_ctx_def UserServiceServer_GetById_def split: option.split)

subsection \<open>Calls\<close>

text \<open>
  A server with the service and both serializers, and a client that is connected to it anew for each
  call; \<open>order\<close> is the order in which a map of meta data is ranged over.
\<close>

definition user_server ::
  "rpc_val Serializer \<Rightarrow> rpc_val Serializer \<Rightarrow> Compression \<Rightarrow> UserServiceServer \<Rightarrow> rpc_val Server" where
  "user_server json pb zstd u = RegisterService (user_service u) (RegisterSerializer pb (NewServer json zstd))"

definition dial :: "((bytes \<Rightarrow> bytes option) \<Rightarrow> (bytes \<times> bytes) list) \<Rightarrow> 'v Server \<Rightarrow> proxy" where
  "dial order s ctx req = doInvoke (order (Meta req)) (Some (connected s)) ctx req"

definition orders :: "((bytes \<Rightarrow> bytes option) \<Rightarrow> (bytes \<times> bytes) list) \<Rightarrow> rpc_ctx \<Rightarrow> bool" where
  "orders order ctx \<longleftrightarrow> iter_of (call_meta ctx) (order (call_meta ctx))"

lemma call_stub_dial:
  "call_stub sl cc (dial order s) svc meth zero kvs' ctx arg =
   call_stub sl cc (doInvoke (order (call_meta ctx)) (Some (connected s))) svc meth zero kvs' ctx arg"
  by (simp add: call_stub_def dial_def call_request_def CalculateBodyLength_def CalculateHeaderLength_def
      split: sum.split)

text \<open>What the wrappers carry, from what the codecs do.\<close>

definition codec_ok ::
  "('v \<Rightarrow> (bytes, bytes) result) \<Rightarrow> (bytes \<Rightarrow> 'v \<Rightarrow> 'v \<times> bytes option) \<Rightarrow> 'v \<Rightarrow> 'v \<Rightarrow> bytes \<Rightarrow> bool" where
  "codec_ok marshal unmarshal zero v bs \<longleftrightarrow> marshal v = Inr bs \<and> unmarshal bs zero = (v, None)"

definition zstd_ok :: "(bytes \<Rightarrow> bytes) \<Rightarrow> (bytes \<Rightarrow> (bytes, bytes) result) \<Rightarrow> bool" where
  "zstd_ok encodeAll decodeAll \<longleftrightarrow> (\<forall>bs. bs \<noteq> [] \<longrightarrow> encodeAll bs \<noteq> [] \<and> decodeAll (encodeAll bs) = Inr bs)"

lemma json_carries:
  "codec_ok m u zero v bs \<Longrightarrow> zstd_ok e d \<Longrightarrow> bs \<noteq> [] \<Longrightarrow>
     carries (json_Serializer m u) (zstd_Compressor e d) zero v (e bs)"
  by (simp add: carries_def json_Serializer_def zstd_Compressor_def codec_ok_def zstd_ok_def)

lemma proto_carries:
  "codec_ok m u zero v bs \<Longrightarrow> zstd_ok e d \<Longrightarrow> bs \<noteq> [] \<Longrightarrow> is_Message v \<Longrightarrow> is_Message zero \<Longrightarrow>
     carries (proto_Serializer m u) (zstd_Compressor e d) zero v (e bs)"
  by (simp add: carries_def proto_Serializer_def proto_Encode_def proto_Decode_def zstd_Compressor_def
      codec_ok_def zstd_ok_def)

lemma user_callable:
  assumes "sl_Code json = 1" and "sl_Code pb = 2"
  shows "callable (user_server json pb zstd u) json zstd UserService_Name (of_str ''GetById'')
      \<lparr>in_zero = GetByIdReq 0, call = UserServiceServer_GetById u\<rparr>"
    and "callable (user_server json pb zstd u) pb zstd UserService_Name (of_str ''GetByIdProto'')
      \<lparr>in_zero = ProtoReq 0, call = UserServiceServer_GetByIdProto u\<rparr>"
  using assms
  by (auto simp: callable_def user_server_def user_service_def RegisterService_def RegisterSerializer_def
      NewServer_def RegisterCompression_def UserService_Name_def of_str_def)

lemma InitService_get_field:
  "\<exists>svc. InitService c p ord UserService = Inr (Inr svc)
    \<and> get_field (of_str ''GetById'') svc = Some (\<lambda>ctx arg. call_stub (cl_serializer c) (cl_compression c) p UserService_Name
         (of_str ''GetById'') (GetByIdResp []) (ord (call_meta ctx)) ctx arg)
    \<and> get_field (of_str ''GetByIdProto'') svc = Some (\<lambda>ctx arg. call_stub (cl_serializer c) (cl_compression c) p UserService_Name
         (of_str ''GetByIdProto'') (ProtoResp None) (ord (call_meta ctx)) ctx arg)"
  by (simp add: UserService_def InitService_def setFuncField_def of_str_def)

text \<open>What the caller gets back as an error: its text, unless that is empty.\<close>

definition seen_error :: "bytes option \<Rightarrow> rpc_error option" where
  "seen_error err = (if error_text err = [] then None else Some (Text (error_text err)))"


text \<open>The codec carries argument and result of a call, neither of which is empty, and both fit in a frame.\<close>

definition call_fits :: "(rpc_val \<Rightarrow> (bytes, bytes) result) \<Rightarrow> (bytes \<Rightarrow> rpc_val \<Rightarrow> rpc_val \<times> bytes option) \<Rightarrow>
    (bytes \<Rightarrow> bytes) \<Rightarrow> bytes \<Rightarrow> (bytes \<times> bytes) list \<Rightarrow> rpc_val \<times> rpc_val \<Rightarrow> rpc_val \<times> rpc_val \<Rightarrow> bytes option \<Rightarrow> bool" where
  "call_fits m u e meth kvs arg res err \<longleftrightarrow>
     (\<exists>q r. codec_ok m u (fst arg) (snd arg) q \<and> q \<noteq> [] \<and> codec_ok m u (fst res) (snd res) r \<and> r \<noteq> []
        \<and> request_size UserService_Name meth kvs (e q) < 2 ^ 32 \<and> 15 + length (error_text err) + length (e r) < 2 ^ 32)"

lemma GetById_stub:
  assumes "zstd_ok e d" and "\<not> isOneway ctx" and "deadline_ok ctx" and "orders order ctx" and "orders order' ctx"
    and "call_fits m u e (of_str ''GetById'') (order' (call_meta ctx)) (GetByIdReq 0, GetByIdReq i)
      (GetByIdResp [], GetByIdResp (us_Msg srv)) (us_Err srv)"
  shows "call_stub (json_Serializer m u) (zstd_Compressor e d)
      (dial order (user_server (json_Serializer m u) (proto_Serializer m' u') (zstd_Compressor e d) srv))
      UserService_Name (of_str ''GetById'') (GetByIdResp []) (order' (call_meta ctx)) ctx (GetByIdReq i) =
    Inr (GetByIdResp (us_Msg srv), seen_error (us_Err srv))"
proof -
  obtain q r where q: "codec_ok m u (GetByIdReq 0) (GetByIdReq i) q" "q \<noteq> []"
    and r: "codec_ok m u (GetByIdResp []) (GetByIdResp (us_Msg srv)) r" "r \<noteq> []"
    and size: "request_size UserService_Name (of_str ''GetById'') (order' (call_meta ctx)) (e q) < 2 ^ 32"
      "15 + length (error_text (us_Err srv)) + length (e r) < 2 ^ 32"
    using assms(6) unfolding call_fits_def fst_conv snd_conv by blast
  show ?thesis
    unfolding call_stub_dial seen_error_def
    by (rule remote_call [OF user_callable(1) _ json_carries [OF r(1) assms(1) r(2)] _ assms(2,3) _ _ size])
      (use assms(4,5) json_carries [OF q(1) assms(1) q(2)] in
        \<open>simp_all add: orders_def UserServiceServer_GetById_def json_Serializer_def proto_Serializer_def\<close>)
qed

lemma GetByIdProto_stub:
  assumes "zstd_ok e d" and "\<not> isOneway ctx" and "deadline_ok ctx" and "orders order ctx" and "orders order' ctx"
    and "call_fits m u e (of_str ''GetByIdProto'') (order' (call_meta ctx)) (ProtoReq 0, ProtoReq i)
      (ProtoResp None, ProtoResp (Some (us_Msg srv))) (us_Err srv)"
  shows "call_stub (proto_Serializer m u) (zstd_Compressor e d)
      (dial order (user_server (json_Serializer m' u') (proto_Serializer m u) (zstd_Compressor e d) srv))
      UserService_Name (of_str ''GetByIdProto'') (ProtoResp None) (order' (call_meta ctx)) ctx (ProtoReq i) =
    Inr (ProtoResp (Some (us_Msg srv)), seen_error (us_Err srv))"
proof -
  obtain q r where q: "codec_ok m u (ProtoReq 0) (ProtoReq i) q" "q \<noteq> []"
    and r: "codec_ok m u (ProtoResp None) (ProtoResp (Some (us_Msg srv))) r" "r \<noteq> []"
    and size: "request_size UserService_Name (of_str ''GetByIdProto'') (order' (call_meta ctx)) (e q) < 2 ^ 32"
      "15 + length (error_text (us_Err srv)) + length (e r) < 2 ^ 32"
    using assms(6) unfolding call_fits_def fst_conv snd_conv by blast
  have carries: "carries (proto_Serializer m u) (zstd_Compressor e d) (ProtoReq 0) (ProtoReq i) (e q)"
    "carries (proto_Serializer m u) (zstd_Compressor e d) (ProtoResp None) (ProtoResp (Some (us_Msg srv))) (e r)"
    using q r assms(1) by (simp_all add: proto_carries)
  show ?thesis
    unfolding call_stub_dial seen_error_def
    by (rule remote_call [OF user_callable(2) _ carries(2) _ assms(2,3) _ _ size])
      (use assms(4,5) carries(1) in
        \<open>simp_all add: orders_def UserServiceServer_GetByIdProto_def json_Serializer_def proto_Serializer_def\<close>)
qed

text \<open>The serializer of protobuf refuses a plain request before anything is sent.\<close>

lemma proto_refuses:
  "call_stub (proto_Serializer m u) cc p svc meth zero kvs ctx (GetByIdReq i) = Inr (zero, Some (Text err_no_message))"
  by (simp add: call_stub_def proto_Serializer_def proto_Encode_def)

subsection \<open>Properties\<close>

text \<open>
  Claim C33: the example service works from end to end, with either serializer. A client made by \<open>NewClient\<close>,
  with the JSON serializer or with that of protobuf, and initialised by \<open>InitService\<close>, has a field that
  returns what the server's method returns, message and error; and the field of the plain types, called
  by the client with the protobuf serializer, fails before anything is sent.
\<close>

theorem user_service_remote:
  assumes "zstd_ok e d" and "\<not> isOneway ctx" and "deadline_ok ctx" and "orders order ctx" and "orders order' ctx"
    and "call_fits jm ju e (of_str ''GetById'') (order' (call_meta ctx)) (GetByIdReq 0, GetByIdReq i)
      (GetByIdResp [], GetByIdResp (us_Msg srv)) (us_Err srv)"
    and "call_fits pm pu e (of_str ''GetByIdProto'') (order' (call_meta ctx)) (ProtoReq 0, ProtoReq i)
      (ProtoResp None, ProtoResp (Some (us_Msg srv))) (us_Err srv)"
    and "server = user_server (json_Serializer jm ju) (proto_Serializer pm pu) (zstd_Compressor e d) srv"
    and "NewClient None (json_Serializer jm ju) (zstd_Compressor e d) [] = Inr cl"
    and "NewClient None (json_Serializer jm ju) (zstd_Compressor e d) [ClientWithSerializer (proto_Serializer pm pu)] = Inr cl'"
    and "InitService cl (dial order server) order' UserService = Inr (Inr svc)"
    and "InitService cl' (dial order server) order' UserService = Inr (Inr svc')"
  shows "map_option (\<lambda>f. f ctx (GetByIdReq i)) (get_field (of_str ''GetById'') svc) =
      Some (Inr (GetByIdResp (us_Msg srv), seen_error (us_Err srv)))
    \<and> map_option (\<lambda>f. f ctx (ProtoReq i)) (get_field (of_str ''GetByIdProto'') svc') =
      Some (Inr (ProtoResp (Some (us_Msg srv)), seen_error (us_Err srv)))
    \<and> map_option (\<lambda>f. f ctx (GetByIdReq i)) (get_field (of_str ''GetById'') svc') =
      Some (Inr (GetByIdResp [], Some (Text err_no_message)))"
proof -
  have cl: "cl_serializer cl = json_Serializer jm ju" "cl_compression cl = zstd_Compressor e d"
    "cl_serializer cl' = proto_Serializer pm pu" "cl_compression cl' = zstd_Compressor e d"
    using assms(9,10) by (auto simp: NewClient_def ClientWithSerializer_def)
  show ?thesis
    using InitService_get_field [of cl "dial order server" order'] InitService_get_field [of cl' "dial order server" order']
      GetById_stub [OF assms(1-6), of pm pu] GetByIdProto_stub [OF assms(1-5,7), of jm ju]
    unfolding assms(8) [symmetric] assms(11,12) cl
    by (auto simp: proto_refuses)
qed

text \<open>A codec of one byte for the kind and one for the number, or the text.\<close>

fun toy_marshal :: "rpc_val \<Rightarrow> (bytes, bytes) result" where
  "toy_marshal (GetByIdReq i) = Inr [1, word_of_int i]"
| "toy_marshal (GetByIdResp s) = Inr (2 # s)"
| "toy_marshal (ProtoReq i) = Inr [3, word_of_int i]"
| "toy_marshal (ProtoResp u) = (case u of None \<Rightarrow> Inr [] | Some s \<Rightarrow> Inr (4 # s))"

fun toy_unmarshal :: "bytes \<Rightarrow> rpc_val \<Rightarrow> rpc_val \<times> bytes option" where
  "toy_unmarshal [] v = (v, None)"
| "toy_unmarshal (k # bs) v =
     (if k = 1 then GetByIdReq (uint (hd bs)) else if k = 2 then GetByIdResp bs
      else if k = 3 then ProtoReq (uint (hd bs)) else ProtoResp (Some bs), None)"

definition tom :: UserServiceServer where
  "tom = \<lparr>us_Err = Some [33], us_Msg = [116, 111, 109]\<rparr>"

abbreviation toy_json :: "rpc_val Serializer" where
  "toy_json \<equiv> json_Serializer toy_marshal toy_unmarshal"

abbreviation toy_proto :: "rpc_val Serializer" where
  "toy_proto \<equiv> proto_Serializer toy_marshal toy_unmarshal"

abbreviation no_zstd :: Compression where
  "no_zstd \<equiv> zstd_Compressor (\<lambda>bs. bs) Inr"

theorem user_service_remote_witness:
  "\<exists>svc. InitService \<lparr>cl_serializer = toy_json, cl_compression = no_zstd\<rparr>
        (dial (\<lambda>_. []) (user_server toy_json toy_proto no_zstd tom)) (\<lambda>_. []) UserService = Inr (Inr svc)
    \<and> map_option (\<lambda>f. f Background (GetByIdReq 7)) (get_field (of_str ''GetById'') svc) =
      Some (Inr (GetByIdResp [116, 111, 109], Some (Text [33])))"
proof -
  let ?server = "user_server toy_json toy_proto no_zstd tom"
  let ?cl = "\<lparr>cl_serializer = toy_json, cl_compression = no_zstd\<rparr>"
  let ?cl' = "\<lparr>cl_serializer = toy_proto, cl_compression = no_zstd\<rparr>"
  obtain svc svc' where svc: "InitService ?cl (dial (\<lambda>_. []) ?server) (\<lambda>_. []) UserService = Inr (Inr svc)"
    "InitService ?cl' (dial (\<lambda>_. []) ?server) (\<lambda>_. []) UserService = Inr (Inr svc')"
    using InitService_get_field by meson
  have sizes: "call_fits toy_marshal toy_unmarshal (\<lambda>bs. bs) (of_str ''GetById'') [] (GetByIdReq 0, GetByIdReq 7)
      (GetByIdResp [], GetByIdResp (us_Msg tom)) (us_Err tom)"
    "call_fits toy_marshal toy_unmarshal (\<lambda>bs. bs) (of_str ''GetByIdProto'') [] (ProtoReq 0, ProtoReq 7)
      (ProtoResp None, ProtoResp (Some (us_Msg tom))) (us_Err tom)"
    by (simp_all add: call_fits_def codec_ok_def request_size_def meta_size_def error_text_def tom_def
        UserService_Name_def of_str_def)
  have "map_option (\<lambda>f. f Background (GetByIdReq 7)) (get_field (of_str ''GetById'') svc) =
      Some (Inr (GetByIdResp (us_Msg tom), seen_error (us_Err tom)))"
    by (rule user_service_remote [where e = "\<lambda>bs. bs" and d = Inr and order = "\<lambda>_. []" and order' = "\<lambda>_. []"
          and jm = toy_marshal and ju = toy_unmarshal and pm = toy_marshal and pu = toy_unmarshal
          and server = ?server and cl = ?cl and cl' = ?cl' and svc = svc and svc' = svc', THEN conjunct1])
      (use svc sizes in \<open>simp_all add: zstd_ok_def isOneway_def Background_def deadline_ok_def orders_def iter_of_def
        call_meta_def Let_def NewClient_def ClientWithSerializer_def\<close>)
  with svc(1) show ?thesis by (simp add: tom_def seen_error_def error_text_def)
qed

end
