(* ===== verification/Orm_Readback.thy ===== *)
theory Orm_Readback
  imports Orm_Delete
begin

text \<open>
  The conditions of the selector of \<open>homework_subquery\<close>, read back from its SQL by the reader of
  \<open>Orm_Delete\<close>. Columns, values, predicates and arithmetic are read; joins, raw expressions, aggregates
  and subqueries are not conditions of this reader.
\<close>

subsection \<open>What a condition says\<close>

text \<open>
  The condition as the database reads it: fields are their columns, and the operators keep their nesting.
  \<open>DOther\<close> stands for what the reader does not know.
\<close>

fun cond_of :: "Model \<Rightarrow> 'x expr \<Rightarrow> 'x dexpr" and side_of :: "Model \<Rightarrow> 'x expr option \<Rightarrow> 'x dexpr" where
  "cond_of m (EColumn c) =
     (if c_table c = None then (case field_column m (c_name c) of Inl _ \<Rightarrow> DOther | Inr col \<Rightarrow> DColumn col) else DOther)"
| "cond_of m (EValue v) = DValue v"
| "cond_of m (EPredicate l p r) =
     (if p \<noteq> [] \<and> r \<noteq> None then DPredicate (side_of m l) p (side_of m r) else DOther)"
| "cond_of m (EMath l p r) =
     (if p \<noteq> [] \<and> r \<noteq> None then DPredicate (side_of m l) p (side_of m r) else DOther)"
| "cond_of m (EBinary l p r) =
     (if p \<noteq> [] \<and> r \<noteq> None then DPredicate (side_of m l) p (side_of m r) else DOther)"
| "cond_of m _ = DOther"
| "side_of m None = DNil"
| "side_of m (Some e) = cond_of m e"

lemma cond_of_And: "cond_of m (foldl And p ps) = foldl D_And (cond_of m p) (map (cond_of m) ps)"
  by (induction ps arbitrary: p) (simp_all add: And_def D_And_def)

subsection \<open>What the builder writes\<close>

lemma writes_column:
  assumes "quoter E = CHR ''`''" and "field_column (b_model E) fd = Inr col"
  shows "writes (buildColumn E None fd) (''`'' @ col @ ''`'') []"
  using assms
  by (simp add: writes_def buildColumn_def colName_def quote_def and_then_def emit_def ok_def)

lemma writes_in_parens: "writes m w xs \<Longrightarrow> writes (in_parens m) (''('' @ w @ '')'') xs"
  by (simp add: writes_def in_parens_def and_then_def emit_def ok_def)

lemma writes_buildBinary:
  "writes l w xs \<Longrightarrow> writes r u ys \<Longrightarrow> p \<noteq> [] \<Longrightarrow>
     writes (buildBinary l p (Some r)) (w @ '' '' @ p @ '' '' @ u) (xs @ ys)"
  by (simp add: writes_def buildBinary_def and_then_def emit_def ok_def)

lemma writes_nested:
  "writes l w xs \<Longrightarrow> writes r u ys \<Longrightarrow> p \<noteq> [] \<Longrightarrow>
     writes (in_parens (buildBinary l p (Some r))) (''('' @ w @ '' '' @ p @ '' '' @ u @ '')'') (xs @ ys)"
  using writes_in_parens [OF writes_buildBinary, of l w xs r u ys p] by simp

lemma writes_value: "writes (and_then (emit ''?'') (addArgs [v])) ''?'' [v]"
  by (simp add: writes_def and_then_def emit_def addArgs_def)

text \<open>At the top a condition stands without parentheses, inside another one with them.\<close>

lemma writes_buildExpression:
  "quoter E = CHR ''`'' \<Longrightarrow> m = b_model E \<Longrightarrow> readable (cond_of m e) \<Longrightarrow>
     writes (buildExpression E bq e)
       (if is_DPredicate (cond_of m e) then pred_text (cond_of m e) else operand_text (cond_of m e)) (expr_args (cond_of m e))"
  "quoter E = CHR ''`'' \<Longrightarrow> m = b_model E \<Longrightarrow> readable (cond_of m e) \<Longrightarrow>
     writes (buildSubExpr E bq e) (operand_text (cond_of m e)) (expr_args (cond_of m e))"
  "quoter E = CHR ''`'' \<Longrightarrow> m = b_model E \<Longrightarrow> readable (side_of m oe) \<Longrightarrow>
     writes (buildSide E bq oe) (operand_text (side_of m oe)) (expr_args (side_of m oe))"
proof (induction E bq e and E bq e and E bq oe rule: buildExpression_buildSubExpr_buildSide.induct)
qed (auto simp: writes_ok writes_value writes_column writes_buildBinary
      split: if_splits sum.splits simp del: append.simps intro!: writes_nested)

lemma readable_conds:
  "\<forall>q \<in> set (p # ps). is_DPredicate (cond_of m q) \<and> readable (cond_of m q) \<Longrightarrow>
     is_DPredicate (foldl D_And (cond_of m p) (map (cond_of m) ps)) \<and> readable (foldl D_And (cond_of m p) (map (cond_of m) ps))"
  by (rule readable_And) simp

lemma writes_condition:
  assumes "quoter E = CHR ''`''" and "m = b_model E"
    and "\<forall>q \<in> set (p # ps). is_DPredicate (cond_of m q) \<and> readable (cond_of m q)"
  shows "writes (buildPredicates E bq (p # ps)) (pred_text (foldl D_And (cond_of m p) (map (cond_of m) ps)))
    (expr_args (foldl D_And (cond_of m p) (map (cond_of m) ps)))"
  using writes_buildExpression(1) [OF assms(1,2), of "foldl And p ps"] readable_conds [OF assms(3)]
  by (simp add: buildPredicates_def cond_of_And)

text \<open>What follows the condition: the bounds of the rows, and the semicolon.\<close>

definition bounds_text :: "'x selector \<Rightarrow> string" where
  "bounds_text s = (if sel_limit s > 0 then '' LIMIT ?'' else []) @ (if sel_offset s > 0 then '' OFFSET ?'' else []) @ '';''"

definition bounds_args :: "'x selector \<Rightarrow> 'x val list" where
  "bounds_args s = (if sel_limit s > 0 then [VInt (sel_limit s)] else [])
     @ (if sel_offset s > 0 then [VInt (sel_offset s)] else [])"

lemma writes_bounds:
  "writes (do_all [buildBound '' LIMIT ?'' (sel_limit s), buildBound '' OFFSET ?'' (sel_offset s), emit '';''])
     (bounds_text s) (bounds_args s)"
  by (simp add: writes_def buildBound_def bounds_text_def bounds_args_def and_then_def emit_def addArgs_def ok_def)

text \<open>
  What a list of conditions says, and when a clause can be read back: the text \<open>w\<close> and the arguments \<open>xs\<close> are
  the keyword and the conjunction, followed by \<open>rest\<close> and \<open>ys\<close>; without conditions only these are there.
\<close>

fun conj_of :: "Model \<Rightarrow> 'x expr list \<Rightarrow> 'x dexpr" where
  "conj_of m [] = DNil"
| "conj_of m (p # ps) = foldl D_And (cond_of m p) (map (cond_of m) ps)"

definition clause_reads ::
  "string \<Rightarrow> Model \<Rightarrow> 'x expr list \<Rightarrow> string \<Rightarrow> 'x val list \<Rightarrow> string \<Rightarrow> 'x val list \<Rightarrow> bool" where
  "clause_reads kw m ps rest ys w xs \<longleftrightarrow>
     (if ps = [] then w = rest \<and> xs = ys
      else \<exists>v. w = kw @ v \<and> read_pred (2 * depth (conj_of m ps)) v xs = Some (conj_of m ps, rest, ys))"

definition conditions :: "Model \<Rightarrow> 'x expr list \<Rightarrow> bool" where
  "conditions m ps \<longleftrightarrow> (\<forall>q \<in> set ps. is_DPredicate (cond_of m q) \<and> readable (cond_of m q))"

lemma clause_written:
  assumes "quoter E = CHR ''`''" and "m = b_model E" and "conditions m ps"
  obtains w xs where "writes (buildWhere E bq kw ps) w xs"
    and "\<And>rest ys. stop rest \<Longrightarrow> clause_reads kw m ps rest ys (w @ rest) (xs @ ys)"
    and "w = [] \<or> (\<exists>v. w = kw @ v)"
proof (cases ps)
  case Nil
  show ?thesis
    by (rule that [of "[]" "[]"]) (simp_all add: Nil buildWhere_def writes_ok clause_reads_def)
next
  case (Cons q qs)
  let ?e = "conj_of m ps"
  have cs: "\<forall>p \<in> set (q # qs). is_DPredicate (cond_of m p) \<and> readable (cond_of m p)"
    using assms(3) by (simp add: conditions_def Cons)
  show ?thesis
  proof (rule that [of "kw @ pred_text ?e" "expr_args ?e"])
    show "writes (buildWhere E bq kw ps) (kw @ pred_text ?e) (expr_args ?e)"
      using writesD [OF writes_condition [OF assms(1,2) cs]]
      by (simp add: Cons writes_def buildWhere_def and_then_def emit_def)
    show "clause_reads kw m ps rest ys ((kw @ pred_text ?e) @ rest) (expr_args ?e @ ys)" if "stop rest" for rest ys
    proof -
      have "read_pred (2 * depth ?e) (pred_text ?e @ rest) (expr_args ?e @ ys) = Some (?e, rest, ys)"
        using readable_conds [OF cs] that by (intro read_back(2)) (simp_all add: Cons)
      then show ?thesis by (simp add: clause_reads_def Cons)
    qed
  qed simp
qed

lemma stop_space: "stop rest \<Longrightarrow> w = [] \<or> (\<exists>v. w = (CHR '' '' # kw) @ v) \<Longrightarrow> stop (w @ rest)"
  by (auto simp: stop_def)

lemma writes_buildGroupBy:
  assumes "writes (buildGroupBy E cols) w xs"
  shows "w = [] \<or> (\<exists>v. w = '' GROUP BY '' @ v)"
proof (cases "cols = []")
  case True
  then show ?thesis
    using writesD [OF assms, of "\<lparr>sb = [], b_args = [], heap = undefined\<rparr>"]
    by (simp add: buildGroupBy_def ok_def)
next
  case False
  have "const_effect (commas (\<lambda>c. buildSelColumn E c False) cols)"
    by (intro const_commas const_buildSelColumn)
  then obtain r u us where
    "\<And>s. commas (\<lambda>c. buildSelColumn E c False) cols s = (r, s\<lparr>sb := sb s @ u, b_args := b_args s @ us\<rparr>)"
    unfolding const_effect_def by blast
  with False writesD [OF assms, of "\<lparr>sb = [], b_args = [], heap = undefined\<rparr>"] show ?thesis
    by (auto simp: buildGroupBy_def and_then_def emit_def split: sum.splits)
qed

subsection \<open>Properties\<close>

text \<open>
  Claim C30: the conditions of a \<open>SELECT\<close> say what the predicates say. Take a selector over its model's table
  whose \<open>WHERE\<close> and \<open>HAVING\<close> conditions are made of columns of the model, values, comparisons,
  connectives and arithmetic, and whose selected columns and \<open>GROUP BY\<close> columns can be written, as \<open>cw\<close> and
  \<open>gw\<close>. \<open>Build\<close> appends to the text and to the arguments the builder holds: the selected columns and the table;
  \<open>WHERE\<close> with a text that reads back, with its arguments, as the conjunction of the conditions, each field
  as its column and nested as it was; the \<open>GROUP BY\<close> columns; \<open>HAVING\<close>, which reads back in the same way;
  and the bounds of the rows with their arguments. A clause without conditions is not there.
\<close>

theorem Selector_Build_reads_back:
  assumes "selectors h sid = s" and "sel_r s (sel_entity s) = Inr m" and "sel_quoter s = CHR ''`''" and "sel_table s = None"
    and "conditions m (sel_where s)" and "conditions m (sel_having s)"
    and "writes (buildColumns \<lparr>reg = sel_r s, quoter = sel_quoter s, b_model = m\<rparr> (sel_columns s)) cw cxs"
    and "writes (buildGroupBy \<lparr>reg = sel_r s, quoter = sel_quoter s, b_model = m\<rparr> (sel_groupBy s)) gw gxs"
  shows "\<exists>w xs u ys.
    fst (Build (Suc n) sid h) = Inr (sel_sb s @ ''SELECT '' @ cw @ '' FROM `'' @ TableName m @ ''`'' @ w, sel_args s @ cxs @ xs) \<and>
    clause_reads '' WHERE '' m (sel_where s) (gw @ u) (gxs @ ys) w xs \<and>
    clause_reads '' HAVING '' m (sel_having s) (bounds_text s) (bounds_args s) u ys"
proof -
  let ?E = "\<lparr>reg = sel_r s, quoter = sel_quoter s, b_model = m\<rparr>"
  obtain w xs where w: "writes (buildWhere ?E (Build n) '' WHERE '' (sel_where s)) w xs"
    and wr: "\<And>rest ys. stop rest \<Longrightarrow> clause_reads '' WHERE '' m (sel_where s) rest ys (w @ rest) (xs @ ys)"
    using clause_written [of ?E m "sel_where s" "Build n" "'' WHERE ''" thesis] assms(3,5) by simp
  obtain u ys where u: "writes (buildWhere ?E (Build n) '' HAVING '' (sel_having s)) u ys"
    and ur: "\<And>rest zs. stop rest \<Longrightarrow> clause_reads '' HAVING '' m (sel_having s) rest zs (u @ rest) (ys @ zs)"
    and uk: "u = [] \<or> (\<exists>v. u = '' HAVING '' @ v)"
    using clause_written [of ?E m "sel_having s" "Build n" "'' HAVING ''" thesis] assms(3,6) by simp
  have bounds: "stop (bounds_text s)" by (simp add: bounds_text_def stop_def)
  have "stop (gw @ u @ bounds_text s)"
    using stop_space [OF stop_space [OF bounds uk] writes_buildGroupBy [OF assms(8)]] .
  moreover have "writes (buildSelect ?E (Build n) s)
      (''SELECT '' @ cw @ '' FROM `'' @ TableName m @ ''`'' @ w @ gw @ u @ bounds_text s)
      (cxs @ xs @ gxs @ ys @ bounds_args s)"
    using writesD [OF assms(7)] writesD [OF w] writesD [OF assms(8)] writesD [OF u] writesD [OF writes_bounds [of s]] assms(3,4)
    by (simp add: writes_def buildSelect_def quote_def and_then_def emit_def)
  from writesD [OF this] have "fst (Build (Suc n) sid h) =
      Inr (sel_sb s @ ''SELECT '' @ cw @ '' FROM `'' @ TableName m @ ''`'' @ w @ gw @ u @ bounds_text s,
        sel_args s @ cxs @ xs @ gxs @ ys @ bounds_args s)"
    using assms(1,2) by (simp add: Build.simps Let_def)
  ultimately show ?thesis
    using wr [of "gw @ u @ bounds_text s" "gxs @ ys @ bounds_args s"] ur [OF bounds, of "bounds_args s"] by blast
qed

text \<open>
  \<open>SELECT `id` FROM `user` WHERE (`id` = 7) AND (NOT (`first` > (`id` + 1))) GROUP BY `first` HAVING `id` < 9 LIMIT 5\<close>,
  written after what an earlier build left.
\<close>

definition older :: "nat selector" where
  "older = empty_selector\<lparr>
     sel_columns := [SColumn (C ''Id'')],
     sel_where := [Column_EQ (C ''Id'') (Inr (VAny 7)), Not (Column_GT (C ''FirstName'') (Inl (Column_Add (C ''Id'') 1)))],
     sel_groupBy := [C ''FirstName''],
     sel_having := [Column_LT (C ''Id'') (Inr (VAny 9))],
     sel_limit := 5, sel_sb := ''SELECT;'', sel_args := [VAny 0]\<rparr>"

lemmas older_demo = older_def Column_EQ_def Column_GT_def Column_LT_def Column_Add_def Not_def C_def exprOf_def
  valueOf_def field_column_def user_model_def

lemma older_columns:
  "writes (buildColumns \<lparr>reg = user_reg, quoter = CHR ''`'', b_model = user_model\<rparr> (sel_columns older)) ''`id`'' []"
  "writes (buildGroupBy \<lparr>reg = user_reg, quoter = CHR ''`'', b_model = user_model\<rparr> (sel_groupBy older)) '' GROUP BY `first`'' []"
  by (simp_all add: writes_def older_demo build_defs commas_def buildSelColumn_def comma_def)

theorem Selector_Build_reads_back_witness:
  "\<exists>w xs u ys.
    fst (Build 1 0 (user_heap older)) = Inr (''SELECT;SELECT `id` FROM `user`'' @ w, VAny 0 # xs) \<and>
    clause_reads '' WHERE '' user_model (sel_where older) ('' GROUP BY `first`'' @ u) ys w xs \<and>
    clause_reads '' HAVING '' user_model (sel_having older) '' LIMIT ?;'' [VInt 5] u ys"
proof -
  have sel: "selectors (user_heap older) 0 = older" by (simp add: user_heap_def)
  have r: "sel_r older = user_reg" "sel_quoter older = CHR ''`''" "sel_r older (sel_entity older) = Inr user_model"
    "sel_table older = None" "sel_sb older = ''SELECT;''" "sel_args older = [VAny 0]"
    by (simp_all add: older_def empty_selector_def user_reg_def user_val_def)
  have c: "conditions user_model (sel_where older)" "conditions user_model (sel_having older)"
    by (simp_all add: conditions_def older_demo)
  have b: "bounds_text older = '' LIMIT ?;''" "bounds_args older = [VInt 5]" "TableName user_model = ''user''"
    by (simp_all add: bounds_text_def bounds_args_def older_def empty_selector_def user_model_def)
  show ?thesis
    using Selector_Build_reads_back [OF sel r(3,2,4) c, unfolded r(1,2), OF older_columns, of 0]
    by (simp add: r(5,6) b)
qed

end
