(* ===== verification/Orm_Session.thy ===== *)
theory Orm_Session
  imports Orm_Tx
begin

text \<open>
  The sessions of \<open>homework_subquery\<close>: \<open>Tx\<close> as a session (\<open>transaction.go\<close>), so that the queries of a
  transaction run through the same \<open>Get\<close> and \<open>Exec\<close> as those of a \<open>DB\<close>; \<open>Open\<close> and \<open>MustNewDB\<close> of
  \<open>db.go\<close>; and \<open>GetMulti\<close> of \<open>select.go\<close>.

  The state of a transaction is that of \<open>Orm_Tx\<close> over the state of the world: what a session does to
  the world it does to the database in the transaction.
\<close>

subsection \<open>A transaction as a session\<close>

definition in_tx :: "('w \<Rightarrow> 'r \<times> 'w) \<Rightarrow> 'w txn \<Rightarrow> 'r \<times> 'w txn" where
  "in_tx f t = (case f (t_db t) of (r, w) \<Rightarrow> (r, t\<lparr>t_db := w\<rparr>))"

text \<open>A transaction that is over refuses every query and statement.\<close>

definition unless_done :: "('w \<Rightarrow> (orm_error, 'r) result \<times> 'w) \<Rightarrow> 'w txn \<Rightarrow> (orm_error, 'r) result \<times> 'w txn" where
  "unless_done f t = (if t_done t then (Inl ErrTxDone, t) else in_tx f t)"

definition Tx_queryContext ::
  "('w, 'x) session \<Rightarrow> string \<Rightarrow> 'x val list \<Rightarrow> 'w txn \<Rightarrow> (orm_error, 'x rowset) result \<times> 'w txn" where
  "Tx_queryContext db query args = unless_done (ss_queryContext db query args)"

definition Tx_execContext ::
  "('w, 'x) session \<Rightarrow> string \<Rightarrow> 'x val list \<Rightarrow> 'w txn \<Rightarrow> (orm_error, int \<times> int) result \<times> 'w txn" where
  "Tx_execContext db query args = unless_done (ss_execContext db query args)"

definition Tx_session :: "('w, 'x) session \<Rightarrow> ('w txn, 'x) session" where
  "Tx_session db = \<lparr>ss_queryContext = Tx_queryContext db, ss_Next = (\<lambda>rs. in_tx (ss_Next db rs)),
     ss_execContext = Tx_execContext db\<rparr>"

text \<open>The core is that of the database; its middlewares \<open>ms\<close> run on the state of the transaction.\<close>

definition Tx_getCore :: "('w, 'x) core \<Rightarrow> ('w txn, 'x) Middleware list \<Rightarrow> ('w txn, 'x) core" where
  "Tx_getCore c ms = \<lparr>co_r = co_r c, co_dialect = co_dialect c, co_field = co_field c,
     co_setColumns = co_setColumns c, co_ms = ms\<rparr>"

text \<open>\<open>NewSelector(tx).Get\<close>, \<open>RawQuery(tx, ...).Exec\<close>.\<close>

definition Tx_Get :: "nat \<Rightarrow> 'x row_val \<Rightarrow> ('x world, 'x) core \<Rightarrow> ('x world txn, 'x) Middleware list
    \<Rightarrow> ('x world, 'x) session \<Rightarrow> nat \<Rightarrow> 'x world txn
    \<Rightarrow> ('x val struct_mem option \<times> orm_error option) option \<times> 'x world txn" where
  "Tx_Get n new c ms db sid t = get_result (get_query new (Tx_getCore c ms) (Tx_session db)
     \<lparr>qc_Type = ''SELECT'', qc_Builder = in_tx (selector_builder n sid), qc_Model = None\<rparr> t)"

definition Tx_Exec :: "('w, 'x) core \<Rightarrow> ('w txn, 'x) Middleware list \<Rightarrow> ('w, 'x) session \<Rightarrow> string \<Rightarrow> 'x val list
    \<Rightarrow> 'w txn \<Rightarrow> exec_result option \<times> 'w txn" where
  "Tx_Exec c ms db sql args t = RawQuery_Exec (Tx_getCore c ms) (Tx_session db) sql args t"

subsection \<open>Opening a database\<close>

text \<open>\<open>sqlOpen\<close> is \<open>sql.Open\<close>; the handle it gives is not used before the first query.\<close>

definition Open :: "(string \<Rightarrow> string \<Rightarrow> orm_error option) \<Rightarrow> (go_val \<Rightarrow> (orm_error, Model) result)
    \<Rightarrow> string \<Rightarrow> string \<Rightarrow> ('w, 'x) DBOption list \<Rightarrow> (orm_error, ('w, 'x) core) result" where
  "Open sqlOpen registry driver dsn opts =
     (case sqlOpen driver dsn of Some err \<Rightarrow> Inl err | None \<Rightarrow> Inr (OpenDB registry opts))"

text \<open>\<open>None\<close> is the panic.\<close>

definition MustNewDB :: "(string \<Rightarrow> string \<Rightarrow> orm_error option) \<Rightarrow> (go_val \<Rightarrow> (orm_error, Model) result)
    \<Rightarrow> string \<Rightarrow> string \<Rightarrow> ('w, 'x) DBOption list \<Rightarrow> ('w, 'x) core option" where
  "MustNewDB sqlOpen registry driver dsn opts =
     (case Open sqlOpen registry driver dsn opts of Inl _ \<Rightarrow> None | Inr db \<Rightarrow> Some db)"

subsection \<open>GetMulti\<close>

text \<open>
  \<open>GetMulti\<close> sends its query to a \<open>sql.DB\<close> of its own, the zero value, and not to the selector's
  session: \<open>zero_query\<close> is what that query gives, \<open>None\<close> when it panics. Behind the query there is only a
  panic. The result is the error, or \<open>None\<close> for a panic.
\<close>

definition Selector_GetMulti :: "nat \<Rightarrow> (string \<Rightarrow> 'x val list \<Rightarrow> (orm_error, 'x rowset) result option) \<Rightarrow> nat
    \<Rightarrow> 'x world \<Rightarrow> orm_error option \<times> 'x world" where
  "Selector_GetMulti n zero_query sid w0 =
     (case selector_builder n sid w0 of
        (Inl e, w) \<Rightarrow> (Some e, w)
      | (Inr (sql, args), w) \<Rightarrow>
          (case zero_query sql args of
             None \<Rightarrow> (None, w)
           | Some (Inl e) \<Rightarrow> (Some e, w)
           | Some (Inr rs) \<Rightarrow> (None, w)))"

subsection \<open>Lemmas\<close>

lemma in_tx_fst [simp]: "fst (in_tx f t) = fst (f (t_db t))"
  by (simp add: in_tx_def split: prod.split)

lemma in_tx_Pair: "f (t_db t) = (r, w) \<Longrightarrow> in_tx f t = (r, t\<lparr>t_db := w\<rparr>)"
  by (simp add: in_tx_def)

text \<open>The handler of a query in an open transaction is the handler on its database.\<close>

lemma getHandler_in_tx:
  assumes "\<not> t_done t"
  shows "getHandler new (Tx_session db) (Tx_getCore c ms)
      \<lparr>qc_Type = q, qc_Builder = in_tx b, qc_Model = mo\<rparr> t =
    in_tx (getHandler new db c \<lparr>qc_Type = q, qc_Builder = b, qc_Model = mo\<rparr>) t"
  using assms
  by (auto simp: getHandler_def in_tx_def Tx_session_def Tx_queryContext_def unless_done_def Tx_getCore_def
      split: prod.split sum.split bool.split)

lemma getHandler_done:
  assumes "t_done t"
  shows "getHandler new (Tx_session db) (Tx_getCore c ms)
      \<lparr>qc_Type = q, qc_Builder = in_tx b, qc_Model = mo\<rparr> t =
    in_tx (\<lambda>w. case b w of (r, w) \<Rightarrow> (failed (case r of Inl e \<Rightarrow> e | Inr _ \<Rightarrow> ErrTxDone), w)) t"
  using assms
  by (auto simp: getHandler_def in_tx_def Tx_session_def Tx_queryContext_def unless_done_def
      split: prod.split sum.split)

lemma get_result_in_tx: "get_result (in_tx f t) = in_tx (\<lambda>w. get_result (f w)) t"
  by (simp add: in_tx_def get_result_def split: prod.split option.split any_result.split)

lemma get_result_failed: "get_result (failed e, w) = (Some (None, Some e), w)"
  by (simp add: get_result_def failed_def)

lemma Tx_getCore_ms [simp]: "co_ms (Tx_getCore c ms) = ms"
  by (simp add: Tx_getCore_def)

lemma Tx_Get_open:
  "\<not> t_done t \<Longrightarrow> Tx_Get n new c [] db sid t = in_tx (Selector_Get n new (c\<lparr>co_ms := []\<rparr>) db sid) t"
  by (simp add: Tx_Get_def Selector_Get_def [abs_def] get_query_def getHandler_in_tx get_result_in_tx)

lemma Tx_Get_done:
  "t_done t \<Longrightarrow> Tx_Get n new c [] db sid t =
     in_tx (\<lambda>w. case selector_builder n sid w of
       (r, w) \<Rightarrow> (Some (None, Some (case r of Inl e \<Rightarrow> e | Inr _ \<Rightarrow> ErrTxDone)), w)) t"
  by (simp add: Tx_Get_def get_query_def getHandler_done in_tx_def get_result_failed split: prod.split)

lemma Tx_Exec_done: "t_done t \<Longrightarrow> Tx_Exec c [] db sql args t = (Some \<lparr>er_err = Some ErrTxDone, er_res = None\<rparr>, t)"
  by (simp add: Tx_Exec_def RawQuery_Exec_def exec_query_def execHandler_def RawQuery_Build_def failed_def
      Tx_session_def Tx_execContext_def unless_done_def)

lemma MustNewDB_Open: "MustNewDB sqlOpen r d dsn opts = None \<longleftrightarrow> sqlOpen d dsn \<noteq> None"
  by (simp add: MustNewDB_def Open_def split: option.split)

text \<open>\<open>GetMulti\<close> sends nothing to the database of the selector's session.\<close>

lemma GetMulti_sent: "w_sent (snd (Selector_GetMulti n zero_query sid w)) = w_sent w"
  by (simp add: Selector_GetMulti_def selector_builder_def split: prod.split sum.split option.split)

subsection \<open>Properties\<close>

text \<open>\<open>DoTx\<close> with a function that runs one \<open>Get\<close> in the transaction and returns its error.\<close>

definition get_once :: "nat \<Rightarrow> 'x row_val \<Rightarrow> ('x world, 'x) core \<Rightarrow> ('x world, 'x) session \<Rightarrow> nat
    \<Rightarrow> 'x world txn \<Rightarrow> outcome \<times> 'x world txn" where
  "get_once n new c db sid t =
     (case Tx_Get n new c [] db sid t of
        (None, t) \<Rightarrow> (Panicked, t)
      | (Some (_, err), t) \<Rightarrow> (Returned err, t))"

text \<open>
  Claim C6: a query in a transaction. When a \<open>Get\<close> on the database would return \<open>err\<close> and leave the world
  \<open>w'\<close>, then \<open>DoTx\<close> around that \<open>Get\<close> commits \<open>w'\<close> if \<open>err\<close> is nil and rolls \<open>w'\<close> back otherwise; it returns
  the error of the commit, or \<open>err\<close>, with the error of the rollback when that fails too. The transaction
  is over afterwards: a later \<open>Get\<close> through it builds its query, sends nothing and reports \<open>ErrTxDone\<close>,
  and a statement changes nothing.
\<close>

theorem DoTx_Get:
  assumes "BeginTx drv w = Inr tx"
    and "Selector_Get n new (c\<lparr>co_ms := []\<rparr>) db sid (t_db tx) = (Some (v, err), w')"
  shows "\<exists>out t. DoTx drv (get_once n new c db sid) w = (out, Inr t)
    \<and> t_db t = snd ((if err = None then drv_Commit drv else drv_Rollback drv) w')
    \<and> out = Returned (case err of
          None \<Rightarrow> fst (drv_Commit drv w')
        | Some e \<Rightarrow> (case fst (drv_Rollback drv w') of
            None \<Rightarrow> Some e | Some e' \<Rightarrow> Some (ErrFailToRollbackTx (Some e) e' False)))
    \<and> (\<forall>sid' q h. Build n sid' (w_heap (t_db t)) = (Inr q, h) \<longrightarrow>
          Tx_Get n new c [] db sid' t = (Some (None, Some ErrTxDone), t\<lparr>t_db := (t_db t)\<lparr>w_heap := h\<rparr>\<rparr>))
    \<and> (\<forall>sql args. Tx_Exec c [] db sql args t = (Some \<lparr>er_err = Some ErrTxDone, er_res = None\<rparr>, t))"
proof -
  from assms(1) have open_tx: "\<not> t_done tx" by (auto simp: BeginTx_def split: prod.splits option.splits)
  then have once: "get_once n new c db sid tx = (Returned err, tx\<lparr>t_db := w'\<rparr>)"
    using assms(2) by (simp add: get_once_def Tx_Get_open in_tx_Pair)
  obtain out t where fin: "finish_tx drv (Returned err) (tx\<lparr>t_db := w'\<rparr>) = (out, t)" by force
  with finish_done have over: "t_done t" by (metis snd_conv)
  have done_tx: "DoTx drv (get_once n new c db sid) w = (out, Inr t)"
    using assms(1) once fin by (simp add: DoTx_def)
  have db: "t_db t = snd ((if err = None then drv_Commit drv else drv_Rollback drv) w')"
    and out: "out = Returned (case err of
          None \<Rightarrow> fst (drv_Commit drv w')
        | Some e \<Rightarrow> (case fst (drv_Rollback drv w') of
            None \<Rightarrow> Some e | Some e' \<Rightarrow> Some (ErrFailToRollbackTx (Some e) e' False)))"
    using fin open_tx
    by (auto simp: finish_tx_def Commit_def Rollback_def split: option.splits prod.splits)
  have later: "Tx_Get n new c [] db sid' t = (Some (None, Some ErrTxDone), t\<lparr>t_db := (t_db t)\<lparr>w_heap := h\<rparr>\<rparr>)"
    if "Build n sid' (w_heap (t_db t)) = (Inr q, h)" for sid' q h
    using that by (simp add: Tx_Get_done [OF over] selector_builder_def in_tx_def)
  show ?thesis
    using done_tx db out later Tx_Exec_done [OF over] by blast
qed

text \<open>A database that refuses queries: the transaction is rolled back to the world it began in.\<close>

definition undoing :: "'w \<Rightarrow> 'w driver" where
  "undoing w = \<lparr>drv_Begin = (\<lambda>d. (None, d)), drv_Commit = (\<lambda>d. (None, d)), drv_Rollback = (\<lambda>_. (None, w))\<rparr>"

theorem DoTx_Get_witness:
  "\<exists>t. DoTx (undoing user_world)
      (get_once 1 (user_row 0 0) user_core (db_session (\<lambda>_. Inl (ErrDriver ''locked'')) (\<lambda>_. Inr (0, 0))) 0) user_world =
        (Returned (Some (ErrDriver ''locked'')), Inr t) \<and> t_db t = user_world"
proof -
  let ?db = "db_session (\<lambda>_. Inl (ErrDriver ''locked'')) (\<lambda>_. Inr (0, 0)) :: (nat world, nat) session"
  obtain h where "Build 1 0 (w_heap user_world) = (Inr (''SELECT * FROM `user` WHERE `id` = ?;'', [VAny 7]), h)"
    using Build_by_id by (cases "Build 1 0 (user_heap by_id)") (auto simp: user_world_def)
  then obtain w' where get: "Selector_Get 1 (user_row 0 0) (user_core\<lparr>co_ms := []\<rparr>) ?db 0 user_world =
      (Some (None, Some (ErrDriver ''locked'')), w')"
    by (simp add: Selector_Get_def get_query_def getHandler_def selector_builder_def get_result_failed)
  have "BeginTx (undoing user_world) user_world = Inr \<lparr>t_done = False, t_committed = False, t_db = user_world\<rparr>"
    by (simp add: BeginTx_def undoing_def)
  from DoTx_Get [OF this, simplified, OF get] show ?thesis
    by (auto simp: undoing_def)
qed

end
