(* ===== verification/Orm_Json.thy ===== *)
theory Orm_Json
  imports Orm_Value
begin

text \<open>
  The column type \<open>JsonColumn\<close> of \<open>homework_subquery/internal/test/types.go\<close>, which a valuer reads through
  \<open>Scan\<close> and a statement writes through \<open>Value\<close>. \<open>json.Marshal\<close> and \<open>json.Unmarshal\<close> are arguments;
  \<open>Unmarshal\<close> may write to its target also when it fails.
\<close>

subsection \<open>The column\<close>

record User =
  u_Name :: bytes

record JsonColumn =
  jc_Val :: User
  jc_Valid :: bool

datatype json_error = IllegalType | JsonError bytes

text \<open>What the driver hands to \<open>Scan\<close>; a pointer to a slice may be nil.\<close>

datatype scan_src = SrcNil | SrcString bytes | SrcBytes bytes | SrcPointer "bytes option" | SrcOther

definition scan_bytes ::
  "(bytes \<Rightarrow> User \<Rightarrow> User \<times> json_error option) \<Rightarrow> bytes \<Rightarrow> JsonColumn \<Rightarrow> JsonColumn \<times> json_error option" where
  "scan_bytes unmarshal bs j =
     (if bs = [] then (j, None)
      else case unmarshal bs (jc_Val j) of
        (u, Some err) \<Rightarrow> (j\<lparr>jc_Val := u\<rparr>, Some err)
      | (u, None) \<Rightarrow> (j\<lparr>jc_Val := u, jc_Valid := True\<rparr>, None))"

definition JsonColumn_Scan ::
  "(bytes \<Rightarrow> User \<Rightarrow> User \<times> json_error option) \<Rightarrow> scan_src \<Rightarrow> JsonColumn \<Rightarrow> JsonColumn \<times> json_error option" where
  "JsonColumn_Scan unmarshal src j =
     (case src of
        SrcNil \<Rightarrow> (j, None)
      | SrcString val \<Rightarrow> scan_bytes unmarshal val j
      | SrcBytes val \<Rightarrow> scan_bytes unmarshal val j
      | SrcPointer None \<Rightarrow> (j, None)
      | SrcPointer (Some val) \<Rightarrow> scan_bytes unmarshal val j
      | SrcOther \<Rightarrow> (j, Some IllegalType))"

definition JsonColumn_Value :: "(User \<Rightarrow> (json_error, bytes) result) \<Rightarrow> JsonColumn \<Rightarrow> (json_error, bytes option) result" where
  "JsonColumn_Value marshal j =
     (if \<not> jc_Valid j then Inr None
      else case marshal (jc_Val j) of Inl err \<Rightarrow> Inl err | Inr bs \<Rightarrow> Inr (Some bs))"

subsection \<open>Lemmas\<close>

text \<open>The value a statement stores comes back from the driver as bytes, or as nil.\<close>

definition stored_src :: "bytes option \<Rightarrow> scan_src" where
  "stored_src v = (case v of None \<Rightarrow> SrcNil | Some bs \<Rightarrow> SrcBytes bs)"

text \<open>
  Storing and reading back. A valid column is read back into any column; \<open>NULL\<close> leaves the column it is
  read into as it was, also when that column is valid: then the value of the row before stays.
\<close>

lemma Scan_Value:
  assumes "JsonColumn_Value marshal j = Inr v"
    and "jc_Valid j \<Longrightarrow> marshal (jc_Val j) = Inr bs \<and> bs \<noteq> [] \<and> unmarshal bs (jc_Val j0) = (jc_Val j, None)"
  shows "JsonColumn_Scan unmarshal (stored_src v) j0 = (if jc_Valid j then j else j0, None)"
  using assms
  by (cases "jc_Valid j") (auto simp: JsonColumn_Value_def JsonColumn_Scan_def scan_bytes_def stored_src_def)

text \<open>\<open>Scan\<close> never makes a column invalid, and makes one valid only without an error.\<close>

lemma Scan_Valid:
  "JsonColumn_Scan unmarshal src j = (j', err) \<Longrightarrow>
     (jc_Valid j \<longrightarrow> jc_Valid j') \<and> (jc_Valid j' \<and> \<not> jc_Valid j \<longrightarrow> err = None)"
  by (cases src) (auto simp: JsonColumn_Scan_def scan_bytes_def split: if_splits prod.splits option.splits)

lemma Scan_empty [simp]: "JsonColumn_Scan unmarshal (SrcString []) j = (j, None)"
  by (simp add: JsonColumn_Scan_def scan_bytes_def)

subsection \<open>A column read by the two valuers\<close>

text \<open>A row whose one column, of the user's second field, the driver hands to \<open>Scan\<close>.\<close>

definition json_row :: "(bytes \<Rightarrow> User \<Rightarrow> User \<times> json_error option) \<Rightarrow> scan_src \<Rightarrow> JsonColumn rows" where
  "json_row unmarshal src = \<lparr>r_columns = Inr [''first''], r_scan_error = None,
     r_value = (\<lambda>i t j. case JsonColumn_Scan unmarshal src j of
        (j', None) \<Rightarrow> (Inr (), j') | (j', Some _) \<Rightarrow> (Inl (ErrDriver ''Scan''), j'))\<rparr>"

text \<open>
  The valuers differ on \<open>NULL\<close>, which \<open>Scan\<close> ignores: the unsafe valuer hands it the field, which keeps its
  value; the reflecting one hands it a new variable and copies its zero value into the field.
\<close>

theorem valuers_differ:
  "unsafe_SetColumns user_model (json_row unmarshal SrcNil) mem = (Inr (), mem)"
  "reflect_SetColumns zero user_fields user_model (json_row unmarshal SrcNil) mem = (Inr (), mem(8 := zero 1))"
proof -
  have "card (dom (ColumnMap user_model)) = 2" "card (dom (FieldMap user_model)) = 2"
    by (simp_all add: user_model_def)
  then show "unsafe_SetColumns user_model (json_row unmarshal SrcNil) mem = (Inr (), mem)"
    "reflect_SetColumns zero user_fields user_model (json_row unmarshal SrcNil) mem = (Inr (), mem(8 := zero 1))"
    by (simp_all add: unsafe_SetColumns_def reflect_SetColumns_def json_row_def)
      (simp_all add: user_model_def Scan_def JsonColumn_Scan_def user_fields_def FieldByName_def exported_def IsUpper_def)
qed

end
