(* ===== verification/Orm_Once.thy ===== *)
theory Orm_Once
  imports Orm_Balance
begin

text \<open>
  The exact number of placeholders with subqueries in expressions. A subquery that is used for the first
  time brings its arguments, and its cache is empty until then. So the count is exact when no cache is
  used twice: \<open>used\<close> lists the caches that a \<open>Build\<close> visits, through all nested selectors, and an
  operation that visits the caches \<open>A\<close> is \<open>linear A\<close>.
\<close>

subsection \<open>The caches that are used\<close>

fun expr_uses :: "(nat \<Rightarrow> nat list) \<Rightarrow> 'x expr \<Rightarrow> nat list"
  and side_uses :: "(nat \<Rightarrow> nat list) \<Rightarrow> 'x expr option \<Rightarrow> nat list" where
  "expr_uses f (EMath l p r) = side_uses f l @ side_uses f r"
| "expr_uses f (EPredicate l p r) = side_uses f l @ side_uses f r"
| "expr_uses f (EBinary l p r) = side_uses f l @ side_uses f r"
| "expr_uses f (ESubquery e) = sq_cache e # f (sq_qb e)"
| "expr_uses f (ESubqueryExpr e p) = sq_cache e # f (sq_qb e)"
| "expr_uses f _ = []"
| "side_uses f None = []"
| "side_uses f (Some e) = expr_uses f e"

definition exprs_uses :: "(nat \<Rightarrow> nat list) \<Rightarrow> 'x expr list \<Rightarrow> nat list" where
  "exprs_uses f ps = concat (map (expr_uses f) ps)"

fun tref_uses :: "(nat \<Rightarrow> nat list) \<Rightarrow> 'x tref \<Rightarrow> nat list"
  and table_uses :: "(nat \<Rightarrow> nat list) \<Rightarrow> 'x tref option \<Rightarrow> nat list" where
  "tref_uses f (Table _ _) = []"
| "tref_uses f (SubqueryT e) = f (sq_qb e)"
| "tref_uses f (Join l r t on us) = tref_uses f l @ table_uses f r @ exprs_uses f on"
| "table_uses f None = []"
| "table_uses f (Some t) = tref_uses f t"

definition selector_uses :: "(nat \<Rightarrow> nat list) \<Rightarrow> 'x selector \<Rightarrow> nat list" where
  "selector_uses f s = table_uses f (sel_table s) @ exprs_uses f (sel_where s) @ exprs_uses f (sel_having s)"

fun used :: "'x heap \<Rightarrow> nat \<Rightarrow> nat \<Rightarrow> nat list" where
  "used h 0 sid = []"
| "used h (Suc n) sid = selector_uses (used h n) (selectors h sid)"

lemma exprs_uses_And: "expr_uses f (foldl And p ps) = exprs_uses f (p # ps)"
  by (induction ps arbitrary: p) (simp_all add: exprs_uses_def And_def)

subsection \<open>Heaps\<close>

text \<open>The clauses of every selector are as in \<open>h0\<close>, and what it has written is balanced.\<close>

definition once_heap :: "'x heap \<Rightarrow> 'x heap \<Rightarrow> bool" where
  "once_heap h0 h \<longleftrightarrow> (\<forall>sid. \<exists>w xs. balanced w xs
     \<and> selectors h sid = (selectors h0 sid)\<lparr>sel_sb := w, sel_args := xs\<rparr>)"

definition clauses_ok :: "'x heap \<Rightarrow> bool" where
  "clauses_ok h \<longleftrightarrow> (\<forall>sid. selector_ok no_mark balanced (\<lambda>_. False) (\<lambda>_. True) (\<lambda>_. True) (selectors h sid))"

lemma once_heap_refl:
  "\<forall>sid. balanced (sel_sb (selectors h sid)) (sel_args (selectors h sid)) \<Longrightarrow> once_heap h h"
  unfolding once_heap_def
  by (intro allI, rule_tac x = "sel_sb (selectors h sid)" in exI, rule_tac x = "sel_args (selectors h sid)" in exI) simp

lemma once_heap_caches [simp]: "once_heap h0 (h\<lparr>caches := c\<rparr>) = once_heap h0 h"
  by (simp add: once_heap_def)

lemma once_heap_written:
  "once_heap h0 h \<Longrightarrow> balanced w xs \<Longrightarrow>
     once_heap h0 (update_selector sid (\<lambda>s. s\<lparr>sel_sb := w, sel_args := xs\<rparr>) h)"
  unfolding once_heap_def
proof (rule allI)
  fix i
  assume h: "\<forall>i. \<exists>w xs. balanced w xs \<and> selectors h i = (selectors h0 i)\<lparr>sel_sb := w, sel_args := xs\<rparr>"
    and b: "balanced w xs"
  obtain u ys where i: "balanced u ys" "selectors h i = (selectors h0 i)\<lparr>sel_sb := u, sel_args := ys\<rparr>"
    using h by blast
  show "\<exists>w' xs'. balanced w' xs' \<and>
      selectors (update_selector sid (\<lambda>s. s\<lparr>sel_sb := w, sel_args := xs\<rparr>) h) i =
      (selectors h0 i)\<lparr>sel_sb := w', sel_args := xs'\<rparr>"
  proof (cases "i = sid")
    case True
    with i b show ?thesis
      by (intro exI [where x = w] exI [where x = xs]) (simp add: update_selector_def)
  next
    case False
    with i show ?thesis
      by (intro exI [where x = u] exI [where x = ys]) (simp add: update_selector_def)
  qed
qed

text \<open>The operations that build no subquery keep any heap.\<close>

interpretation plain_ops: builder_contract balanced no_mark "once_heap h0" "\<lambda>_. False" "\<lambda>_. False" "\<lambda>_. False" bq
  for h0 bq
  by unfold_locales auto

subsection \<open>Linear operations\<close>

definition linear :: "'x heap \<Rightarrow> nat set \<Rightarrow> 'x bm \<Rightarrow> bool" where
  "linear h0 A m \<longleftrightarrow> (\<forall>s. good balanced (once_heap h0) s \<and> (\<forall>c \<in> A. caches (heap s) c = []) \<longrightarrow>
     good balanced (once_heap h0) (snd (m s)) \<and> (\<forall>c. c \<notin> A \<longrightarrow> caches (heap (snd (m s))) c = caches (heap s) c))"

definition linear_bq :: "'x heap \<Rightarrow> nat set \<Rightarrow> 'x subbuild \<Rightarrow> nat \<Rightarrow> bool" where
  "linear_bq h0 A bq sid \<longleftrightarrow> (\<forall>h r h'. once_heap h0 h \<and> (\<forall>c \<in> A. caches h c = []) \<and> bq sid h = (r, h') \<longrightarrow>
     once_heap h0 h' \<and> (\<forall>c. c \<notin> A \<longrightarrow> caches h' c = caches h c)
     \<and> (\<forall>sql xs. r = Inr (sql, xs) \<longrightarrow> balanced sql xs \<and> balanced (butlast sql) xs))"

lemma linear_bqD:
  "linear_bq h0 A bq sid \<Longrightarrow> once_heap h0 h \<Longrightarrow> \<forall>c \<in> A. caches h c = [] \<Longrightarrow> bq sid h = (r, h') \<Longrightarrow>
     once_heap h0 h' \<and> (\<forall>c. c \<notin> A \<longrightarrow> caches h' c = caches h c)
     \<and> (\<forall>sql xs. r = Inr (sql, xs) \<longrightarrow> balanced sql xs \<and> balanced (butlast sql) xs)"
  unfolding linear_bq_def by blast

lemma linear_const: "const_effect m \<Longrightarrow> keeps (good balanced (once_heap h0)) (\<lambda>_. False) m \<Longrightarrow> linear h0 {} m"
  unfolding linear_def keeps_def const_effect_def by fastforce

lemma linearD:
  "linear h0 A m \<Longrightarrow> good balanced (once_heap h0) s \<Longrightarrow> \<forall>c \<in> A. caches (heap s) c = [] \<Longrightarrow> m s = (r, t) \<Longrightarrow>
     good balanced (once_heap h0) t \<and> (\<forall>c. c \<notin> A \<longrightarrow> caches (heap t) c = caches (heap s) c)"
  unfolding linear_def by (metis snd_conv)

lemma linear_mono: "linear h0 A m \<Longrightarrow> A \<subseteq> B \<Longrightarrow> linear h0 B m"
  unfolding linear_def by blast

lemma linear_and_then:
  assumes "linear h0 A m1" and "linear h0 B m2" and "A \<inter> B = {}"
  shows "linear h0 (A \<union> B) (and_then m1 m2)"
  unfolding linear_def
proof (intro allI impI)
  fix s
  assume s: "good balanced (once_heap h0) s \<and> (\<forall>c \<in> A \<union> B. caches (heap s) c = [])"
  obtain r t where m1: "m1 s = (r, t)" by fastforce
  from assms(1) s m1 have t: "good balanced (once_heap h0) t"
    "\<forall>c. c \<notin> A \<longrightarrow> caches (heap t) c = caches (heap s) c"
    unfolding linear_def by (metis Un_iff snd_conv)+
  moreover have "\<forall>c \<in> B. caches (heap t) c = []" using t(2) s assms(3) by fastforce
  ultimately have "good balanced (once_heap h0) (snd (m2 t)) \<and>
      (\<forall>c. c \<notin> B \<longrightarrow> caches (heap (snd (m2 t))) c = caches (heap t) c)"
    using assms(2) unfolding linear_def by blast
  with t m1 show "good balanced (once_heap h0) (snd (and_then m1 m2 s)) \<and>
      (\<forall>c. c \<notin> A \<union> B \<longrightarrow> caches (heap (snd (and_then m1 m2 s))) c = caches (heap s) c)"
    by (simp add: and_then_def split: sum.split)
qed

text \<open>A list of operations, each with its caches.\<close>

lemma linear_do_all:
  "list_all2 (\<lambda>U m. linear h0 (set U) m) Us ms \<Longrightarrow> distinct (concat Us) \<Longrightarrow> linear h0 (set (concat Us)) (do_all ms)"
proof (induction Us ms rule: list_all2_induct)
  case Nil
  show ?case by (simp add: linear_const const_ok keeps_ok)
next
  case (Cons U Us m ms)
  then show ?case by (auto intro: linear_and_then)
qed

lemma linear_plain:
  "const_effect m \<Longrightarrow> keeps (good balanced (once_heap h0)) (\<lambda>_. False) m \<Longrightarrow> linear h0 A m"
  by (blast intro: linear_mono linear_const)

lemma linear_emit: "no_mark w \<Longrightarrow> linear h0 A (emit w)"
  by (intro linear_plain const_emit plain_ops.keeps_emit)

lemma linear_ok: "linear h0 A ok"
  by (intro linear_plain const_ok keeps_ok)

lemma linear_buildColumn:
  "env_ok no_mark (\<lambda>_. False) E \<Longrightarrow> table_text no_mark ot \<Longrightarrow> linear h0 A (buildColumn E ot fd)"
  by (intro linear_plain const_buildColumn plain_ops.keeps_buildColumn)

lemma linear_buildAggregate:
  "env_ok no_mark (\<lambda>_. False) E \<Longrightarrow> table_text no_mark (a_table a) \<Longrightarrow> no_mark (a_fn a) \<Longrightarrow>
     linear h0 A (buildAggregate E a False)"
  by (intro linear_plain const_buildAggregate plain_ops.keeps_buildAggregate) simp_all

lemma linear_value: "linear h0 A (and_then (emit ''?'') (addArgs [v]))"
  by (intro linear_plain const_and_then const_emit const_addArgs plain_ops.keeps_value)

lemma linear_raw: "balanced r xs \<Longrightarrow> linear h0 A (raw r xs)"
  by (intro linear_plain const_raw plain_ops.keeps_raw)

lemma linear_emit_then: "no_mark w \<Longrightarrow> linear h0 A m \<Longrightarrow> linear h0 A (and_then (emit w) m)"
  using linear_and_then [OF linear_emit [where A = "{}"]] by fastforce

lemma linear_then_ok: "linear h0 A m \<Longrightarrow> linear h0 A (and_then m ok)"
  using linear_and_then [OF _ linear_ok [where A = "{}"]] by fastforce

lemma linear_then_emit:
  "linear h0 A m \<Longrightarrow> no_mark w \<Longrightarrow> linear h0 A (and_then m (and_then (emit w) ok))"
  using linear_and_then [OF _ linear_then_ok [OF linear_emit [where A = "{}"]]] by fastforce

lemma linear_in_parens: "linear h0 A m \<Longrightarrow> linear h0 A (in_parens m)"
  by (simp add: in_parens_def no_mark_def linear_emit_then linear_then_emit)

lemma linear_operator:
  "linear h0 A m \<Longrightarrow> no_mark p \<Longrightarrow> linear h0 A (and_then (if p \<noteq> [] then emit ('' '' @ p) else ok) m)"
  using linear_and_then [OF linear_ok [where A = "{}"]]
  by (auto simp: no_mark_def intro!: linear_emit_then)

lemma linear_buildBinary_None:
  assumes "linear h0 A l" and "no_mark p"
  shows "linear h0 A (buildBinary l p None)"
  using linear_and_then [OF assms(1) linear_operator [OF linear_then_ok [OF linear_ok [where A = "{}"]] assms(2)]]
  by (simp add: buildBinary_def)

lemma linear_buildBinary_Some:
  assumes "linear h0 A l" and "no_mark p" and "linear h0 B m" and "A \<inter> B = {}"
  shows "linear h0 (A \<union> B) (buildBinary l p (Some m))"
proof -
  have "linear h0 B (and_then (and_then (emit '' '') m) ok)"
    using assms(3) by (intro linear_then_ok linear_emit_then) (simp_all add: no_mark_def)
  from linear_and_then [OF assms(1) linear_operator [OF this assms(2)] assms(4)] show ?thesis
    by (simp add: buildBinary_def)
qed

subsection \<open>Subqueries\<close>

lemma linear_buildSubQuery:
  assumes bq: "linear_bq h0 A bq (sq_qb e)"
  shows "linear h0 (insert (sq_cache e) A) (buildSubQuery bq e)"
  unfolding linear_def
proof (intro allI impI)
  fix s
  assume s: "good balanced (once_heap h0) s \<and> (\<forall>c \<in> insert (sq_cache e) A. caches (heap s) c = [])"
  obtain q h where q: "bq (sq_qb e) (heap s) = (q, h)" by fastforce
  from linear_bqD [OF bq _ _ q] s
  have h: "once_heap h0 h" "\<forall>c. c \<notin> A \<longrightarrow> caches h c = caches (heap s) c"
    and query: "\<forall>sql xs. q = Inr (sql, xs) \<longrightarrow> balanced (butlast sql) xs" by (auto simp: good_def)
  show "good balanced (once_heap h0) (snd (buildSubQuery bq e s)) \<and>
      (\<forall>c. c \<notin> insert (sq_cache e) A \<longrightarrow> caches (heap (snd (buildSubQuery bq e s))) c = caches (heap s) c)"
  proof (cases q)
    case (Inl err)
    with s q h show ?thesis by (simp add: buildSubQuery_def good_def)
  next
    case (Inr p)
    then obtain sql xs where Q: "bq (sq_qb e) (heap s) = (Inr (sql, xs), h)" "balanced (butlast sql) xs"
      using q query by (cases p) auto
    have "good balanced (once_heap h0) s" using s by simp
    from plain_ops.finish_good [OF this Q(2)]
    have pair: "balanced (sb s @ ''('' @ butlast sql @ '')'') (b_args s @ xs)" .
    have empty: "caches (heap s) (sq_cache e) = []" using s by simp
    show ?thesis
      unfolding buildSubQuery_first [where bq = bq, OF Q(1) empty]
      using pair h by (simp add: good_def)
  qed
qed

lemma linear_buildSubqueryExpr:
  assumes "linear_bq h0 A bq (sq_qb e)" and "no_mark p"
  shows "linear h0 (insert (sq_cache e) A) (buildSubqueryExpr bq e p)"
proof -
  have "linear h0 ({} \<union> insert (sq_cache e) A) (and_then (emit p) (buildSubQuery bq e))"
    by (intro linear_and_then linear_emit linear_buildSubQuery assms) simp
  moreover have "snd (buildSubqueryExpr bq e p s) = snd (and_then (emit p) (buildSubQuery bq e) s)" for s
    by (simp add: buildSubqueryExpr_def split: prod.split sum.split orm_error.split)
  ultimately show ?thesis by (simp add: linear_def)
qed

lemma linear_buildExpression:
  "expr_ok no_mark balanced (\<lambda>_. True) e \<Longrightarrow> env_ok no_mark (\<lambda>_. False) E \<Longrightarrow>
     \<forall>sid. distinct (f sid) \<longrightarrow> linear_bq h0 (set (f sid)) bq sid \<Longrightarrow> distinct (expr_uses f e) \<Longrightarrow>
     linear h0 (set (expr_uses f e)) (buildExpression E bq e)"
  "expr_ok no_mark balanced (\<lambda>_. True) e \<Longrightarrow> env_ok no_mark (\<lambda>_. False) E \<Longrightarrow>
     \<forall>sid. distinct (f sid) \<longrightarrow> linear_bq h0 (set (f sid)) bq sid \<Longrightarrow> distinct (expr_uses f e) \<Longrightarrow>
     linear h0 (set (expr_uses f e)) (buildSubExpr E bq e)"
  "expr_opt_ok no_mark balanced (\<lambda>_. True) oe \<Longrightarrow> env_ok no_mark (\<lambda>_. False) E \<Longrightarrow>
     \<forall>sid. distinct (f sid) \<longrightarrow> linear_bq h0 (set (f sid)) bq sid \<Longrightarrow> distinct (side_uses f oe) \<Longrightarrow>
     linear h0 (set (side_uses f oe)) (buildSide E bq oe)"
  by (induction E bq e and E bq e and E bq oe rule: buildExpression_buildSubExpr_buildSide.induct)
    (auto simp: linear_ok linear_value intro: linear_buildColumn linear_buildAggregate linear_raw
      linear_buildSubQuery linear_buildSubqueryExpr
      intro!: linear_in_parens linear_buildBinary_None linear_buildBinary_Some split: if_splits)

subsection \<open>Selectors\<close>

lemma expr_ok_Ands:
  "list_all (expr_ok no_mark balanced sub) (p # ps) \<Longrightarrow> expr_ok no_mark balanced sub (foldl And p ps)"
  by (induction ps arbitrary: p) (auto simp: And_def no_mark_def)

lemma linear_buildPredicates:
  assumes "list_all (expr_ok no_mark balanced (\<lambda>_. True)) ps" and "env_ok no_mark (\<lambda>_. False) E"
    and "\<forall>sid. distinct (f sid) \<longrightarrow> linear_bq h0 (set (f sid)) bq sid" and "distinct (exprs_uses f ps)"
  shows "linear h0 (set (exprs_uses f ps)) (buildPredicates E bq ps)"
proof (cases ps)
  case Nil
  then show ?thesis by (simp add: buildPredicates_def linear_ok)
next
  case (Cons p qs)
  with assms show ?thesis
    using linear_buildExpression(1) [OF expr_ok_Ands [of "\<lambda>_. True" p qs] assms(2,3)]
    by (simp add: buildPredicates_def exprs_uses_And)
qed

lemma linear_buildWhere:
  "no_mark kw \<Longrightarrow> list_all (expr_ok no_mark balanced (\<lambda>_. True)) ps \<Longrightarrow> env_ok no_mark (\<lambda>_. False) E \<Longrightarrow>
     \<forall>sid. distinct (f sid) \<longrightarrow> linear_bq h0 (set (f sid)) bq sid \<Longrightarrow> distinct (exprs_uses f ps) \<Longrightarrow>
     linear h0 (set (exprs_uses f ps)) (buildWhere E bq kw ps)"
  by (simp add: buildWhere_def linear_ok linear_emit_then linear_buildPredicates)

lemma linear_buildOn:
  "list_all (expr_ok no_mark balanced (\<lambda>_. True)) ps \<Longrightarrow> env_ok no_mark (\<lambda>_. False) E \<Longrightarrow>
     \<forall>sid. distinct (f sid) \<longrightarrow> linear_bq h0 (set (f sid)) bq sid \<Longrightarrow> distinct (exprs_uses f ps) \<Longrightarrow>
     linear h0 (set (exprs_uses f ps)) (buildOn E bq ps)"
  by (simp add: buildOn_def linear_ok linear_emit_then linear_buildPredicates no_mark_def)

lemma linear_buildTableSubquery:
  assumes E: "env_ok no_mark (\<lambda>_. False) E" and al: "no_mark (sq_alias e)" and bq: "linear_bq h0 A bq (sq_qb e)"
  shows "linear h0 A (buildTableSubquery E bq e)"
  unfolding linear_def
proof (intro allI impI)
  fix s
  assume s: "good balanced (once_heap h0) s \<and> (\<forall>c \<in> A. caches (heap s) c = [])"
  obtain q h where q: "bq (sq_qb e) (heap s) = (q, h)" by fastforce
  from linear_bqD [OF bq _ _ q] s
  have h: "once_heap h0 h" "\<forall>c. c \<notin> A \<longrightarrow> caches h c = caches (heap s) c"
    and query: "\<forall>sql xs. q = Inr (sql, xs) \<longrightarrow> balanced (butlast sql) xs" by (auto simp: good_def)
  show "good balanced (once_heap h0) (snd (buildTableSubquery E bq e s)) \<and>
      (\<forall>c. c \<notin> A \<longrightarrow> caches (heap (snd (buildTableSubquery E bq e s))) c = caches (heap s) c)"
  proof (cases q)
    case (Inl err)
    with s q h show ?thesis by (simp add: buildTableSubquery_def emit_def good_def balanced_def)
  next
    case (Inr p)
    then obtain sql xs where p: "p = (sql, xs)" "balanced (butlast sql) xs" using query by (cases p) auto
    have "no_mark [quoter E]" using E by (simp add: env_ok_def)
    with Inr p s q h al show ?thesis
      by (simp add: buildTableSubquery_def emit_def addArgs_def and_then_def ok_def buildAs_def quote_def
          good_def balanced_def count_list_no_mark no_mark_def)
  qed
qed

lemma linear_buildTable:
  "tref_opt_ok no_mark balanced (\<lambda>_. True) (\<lambda>_. True) ot \<Longrightarrow> env_ok no_mark (\<lambda>_. False) E \<Longrightarrow>
     \<forall>sid. distinct (f sid) \<longrightarrow> linear_bq h0 (set (f sid)) bq sid \<Longrightarrow> distinct (table_uses f ot) \<Longrightarrow>
     linear h0 (set (table_uses f ot)) (buildTable E bq ot)"
  "tref_ok no_mark balanced (\<lambda>_. True) (\<lambda>_. True) t \<Longrightarrow> env_ok no_mark (\<lambda>_. False) E \<Longrightarrow>
     \<forall>sid. distinct (f sid) \<longrightarrow> linear_bq h0 (set (f sid)) bq sid \<Longrightarrow> distinct (tref_uses f t) \<Longrightarrow>
     linear h0 (set (tref_uses f t)) (buildTref E bq t)"
proof (induction E bq ot and E bq t rule: buildTable_buildTref.induct)
  case (1 E bq)
  then have "no_mark (TableName (b_model E))" "no_mark [quoter E]" by (simp_all add: env_ok_def model_text_def)
  then show ?case by (simp add: quote_def no_mark_def linear_emit)
next
  case (4 E bq entity al)
  then show ?case
    by (intro linear_plain const_buildTable plain_ops.keeps_buildTable_aux) simp_all
next
  case (5 E bq l r t ps us)
  let ?Us = "[[], tref_uses f l, [], [], [], table_uses f r, [], exprs_uses f ps, []]"
  have "linear h0 (set (concat ?Us)) (do_all
     [emit ''('', buildTref E bq l, emit '' '', emit t, emit '' '', buildTable E bq r,
      buildUsing E us, buildOn E bq ps, emit '')''])"
  proof (rule linear_do_all)
    show "distinct (concat ?Us)" using "5.prems" by simp
    have "linear h0 A (buildUsing E us)" for A
      using "5.prems" by (intro linear_plain const_buildUsing plain_ops.keeps_buildUsing)
    moreover have "linear h0 (set (exprs_uses f ps)) (buildOn E bq ps)"
      using "5.prems" by (intro linear_buildOn) (simp_all add: list_all_iff)
    moreover have "no_mark ''(''" "no_mark '' ''" "no_mark '')''" "no_mark t" using "5.prems" by (simp_all add: no_mark_def)
    ultimately show "list_all2 (\<lambda>U m. linear h0 (set U) m) ?Us
       [emit ''('', buildTref E bq l, emit '' '', emit t, emit '' '', buildTable E bq r,
        buildUsing E us, buildOn E bq ps, emit '')'']"
      using 5 by (simp add: linear_emit)
  qed
  then show ?case by simp
qed (simp_all add: linear_buildTableSubquery)

lemma linear_buildSelect:
  assumes E: "env_ok no_mark (\<lambda>_. False) E"
    and s: "selector_ok no_mark balanced (\<lambda>_. False) (\<lambda>_. True) (\<lambda>_. True) s"
    and bq: "\<forall>sid. distinct (f sid) \<longrightarrow> linear_bq h0 (set (f sid)) bq sid" and d: "distinct (selector_uses f s)"
  shows "linear h0 (set (selector_uses f s)) (buildSelect E bq s)"
proof -
  let ?Us = "[[], [], [], table_uses f (sel_table s), exprs_uses f (sel_where s), [], exprs_uses f (sel_having s), [], [], []]"
  have "linear h0 A (buildColumns E (sel_columns s))" "linear h0 A (buildGroupBy E (sel_groupBy s))" for A
    using s E by (auto simp: selector_ok_def
        intro!: linear_plain const_buildColumns const_buildGroupBy plain_ops.keeps_buildColumns plain_ops.keeps_buildGroupBy)
  moreover have "linear h0 A (buildBound '' LIMIT ?'' n)" "linear h0 A (buildBound '' OFFSET ?'' n)" for A n
    using plain_ops.keeps_buildBound [of "'' LIMIT ''"] plain_ops.keeps_buildBound [of "'' OFFSET ''"]
    by (auto intro!: linear_plain const_buildBound)
  moreover have "distinct (concat ?Us)" using d by (simp add: selector_uses_def)
  ultimately have "linear h0 (set (concat ?Us)) (buildSelect E bq s)"
    unfolding buildSelect_def using E s bq d
    by (intro linear_do_all)
      (simp_all add: linear_emit no_mark_def linear_buildTable linear_buildWhere selector_ok_def selector_uses_def)
  then show ?thesis by (simp add: selector_uses_def)
qed

lemma linear_Build:
  assumes ok: "clauses_ok h0"
  shows "distinct (used h0 n sid) \<Longrightarrow> linear_bq h0 (set (used h0 n sid)) (Build n) sid"
proof (induction n arbitrary: sid)
  case 0
  show ?case by (auto simp: linear_bq_def Build.simps)
next
  case (Suc n)
  let ?A = "set (used h0 (Suc n) sid)"
  show ?case
    unfolding linear_bq_def
  proof (intro allI impI, elim conjE)
    fix h r h'
    assume h: "once_heap h0 h" and empty: "\<forall>c \<in> ?A. caches h c = []" and b: "Build (Suc n) sid h = (r, h')"
    obtain w xs where w: "balanced w xs" "selectors h sid = (selectors h0 sid)\<lparr>sel_sb := w, sel_args := xs\<rparr>"
      using h unfolding once_heap_def by blast
    let ?s0 = "selectors h0 sid"
    have s0: "selector_ok no_mark balanced (\<lambda>_. False) (\<lambda>_. True) (\<lambda>_. True) ?s0"
      using ok by (simp add: clauses_ok_def)
    show "once_heap h0 h' \<and> (\<forall>c. c \<notin> ?A \<longrightarrow> caches h' c = caches h c)
        \<and> (\<forall>sql xs. r = Inr (sql, xs) \<longrightarrow> balanced sql xs \<and> balanced (butlast sql) xs)"
    proof (cases "sel_r ?s0 (sel_entity ?s0)")
      case (Inl e)
      with w b h show ?thesis by (auto simp: Build.simps Let_def)
    next
      case (Inr m)
      let ?E = "\<lparr>reg = sel_r ?s0, quoter = sel_quoter ?s0, b_model = m\<rparr>"
      obtain q t where q: "buildSelect ?E (Build n) ?s0 \<lparr>sb = w, b_args = xs, heap = h\<rparr> = (q, t)" by fastforce
      have "env_ok no_mark (\<lambda>_. False) ?E" using s0 Inr by (auto simp: env_ok_def selector_ok_def reg_ok_def)
      from linear_buildSelect [OF this s0, of "used h0 n" h0 "Build n"] Suc
      have "linear h0 ?A (buildSelect ?E (Build n) ?s0)" by simp
      from linearD [OF this, of "\<lparr>sb = w, b_args = xs, heap = h\<rparr>" q t] q h w(1) empty
      have t: "good balanced (once_heap h0) t" "\<forall>c. c \<notin> ?A \<longrightarrow> caches (heap t) c = caches h c"
        by (simp_all add: good_def)
      have last: "\<exists>w. sb t = w @ '';''" if "q = Inr u" for u
        using q that by (rule buildSelect_semicolon)
      have h': "h' = update_selector sid (\<lambda>s. s\<lparr>sel_sb := sb t, sel_args := b_args t\<rparr>) (heap t)"
        and r: "r = (case q of Inl e \<Rightarrow> Inl e | Inr _ \<Rightarrow> Inr (sb t, b_args t))"
        using b q Inr w(2) by (auto simp: Build.simps Let_def)
      show ?thesis
        unfolding h' r
        using t last once_heap_written [of h0 "heap t"] marks.pair_butlast
        by (auto simp: good_def update_selector_def split: sum.split)
    qed
  qed
qed

subsection \<open>Properties\<close>

text \<open>
  Claim C27: the exact number of placeholders with subqueries. When the caches that a \<open>Build\<close> visits, through
  all subqueries in tables and in expressions, are pairwise different and still empty, the SQL that it
  returns has exactly one \<open>?\<close> for each argument it returns; what every selector has written stays
  balanced, and no other cache is written.
\<close>

theorem Build_placeholders_once:
  assumes "clauses_ok h" and "\<forall>i. balanced (sel_sb (selectors h i)) (sel_args (selectors h i))"
    and "distinct (used h n sid)" and "\<forall>c \<in> set (used h n sid). caches h c = []"
    and "Build n sid h = (Inr (sql, xs), h')"
  shows "count_list sql (CHR ''?'') = length xs
    \<and> (\<forall>i. balanced (sel_sb (selectors h' i)) (sel_args (selectors h' i)))
    \<and> (\<forall>c. c \<notin> set (used h n sid) \<longrightarrow> caches h' c = caches h c)"
proof -
  from linear_bqD [OF linear_Build [OF assms(1,3)] once_heap_refl [OF assms(2)] assms(4,5)]
  have "once_heap h h'" "balanced sql xs" "\<forall>c. c \<notin> set (used h n sid) \<longrightarrow> caches h' c = caches h c"
    by simp_all
  moreover have "balanced (sel_sb (selectors h' i)) (sel_args (selectors h' i))" for i
    using \<open>once_heap h h'\<close> [unfolded once_heap_def, rule_format, of i] by auto
  ultimately show ?thesis by (simp add: balanced_def)
qed

text \<open>Two subqueries in one condition, each with its own cache: as many placeholders as arguments.\<close>

definition two_subqueries :: "nat selector" where
  "two_subqueries = empty_selector\<lparr>
     sel_where := [Column_InQuery (C ''Id'') (Subquery 0 ''u'' 0 [] (Some user_model) []),
       Column_GT (C ''Id'') (Inl (ESubquery (Subquery 2 ''v'' 1 [] (Some user_model) [])))],
     sel_limit := 5\<rparr>"

definition two_heap :: "nat heap" where
  "two_heap = (user_heap by_id)\<lparr>selectors := (\<lambda>i. if i = 1 then two_subqueries else by_id)\<rparr>"

lemma Build_two_subqueries:
  "fst (Build 2 1 two_heap) =
     Inr (''SELECT * FROM `user` WHERE (`id` IN (SELECT * FROM `user` WHERE `id` = ?)) AND (`id` > (SELECT * FROM `user` WHERE `id` = ?)) LIMIT ?;'',
          [VAny 7, VAny 7, VInt 5])"
  by (simp add: Build.simps numeral_2_eq_2 two_heap_def two_subqueries_def user_heap_def by_id_def
      empty_selector_def user_reg_def user_model_def user_val_def Column_EQ_def Column_GT_def Column_InQuery_def exprOf_def
      valueOf_def C_def And_def update_selector_def buildSubQuery_def
      in_parens_def build_defs)

theorem Build_placeholders_once_witness:
  "count_list ''SELECT * FROM `user` WHERE (`id` IN (SELECT * FROM `user` WHERE `id` = ?)) AND (`id` > (SELECT * FROM `user` WHERE `id` = ?)) LIMIT ?;''
     (CHR ''?'') = length [VAny (7 :: nat), VAny 7, VInt 5]"
proof -
  have "reg_ok no_mark (\<lambda>_. False) user_reg" by (rule user_reg_ok) (simp_all add: no_mark_def)
  then have ok: "clauses_ok two_heap"
    by (simp add: clauses_ok_def two_heap_def two_subqueries_def Column_InQuery_def demo_defs selector_ok_def
        no_mark_def balanced_def)
  have w: "\<forall>i. balanced (sel_sb (selectors two_heap i)) (sel_args (selectors two_heap i))"
    by (simp add: two_heap_def two_subqueries_def demo_defs balanced_def)
  have u: "used two_heap 2 1 = [0, 1]"
    by (simp add: numeral_2_eq_2 two_heap_def two_subqueries_def Column_InQuery_def demo_defs selector_uses_def
        exprs_uses_def)
  obtain h' where b: "Build 2 1 two_heap = (Inr
      (''SELECT * FROM `user` WHERE (`id` IN (SELECT * FROM `user` WHERE `id` = ?)) AND (`id` > (SELECT * FROM `user` WHERE `id` = ?)) LIMIT ?;'',
       [VAny 7, VAny 7, VInt 5]), h')"
    using Build_two_subqueries by (metis prod.collapse)
  show ?thesis
    using Build_placeholders_once [OF ok w _ _ b] by (simp add: u two_heap_def user_heap_def)
qed

end
