(* ===== verification/Shutdown_Callback.thy ===== *)
theory Shutdown_Callback
  imports Shutdown
begin

text \<open>
  The program of \<open>homework_graceful_shutdown/main.go\<close>: its two servers, its application, and
  \<open>StoreCacheToDBCallback\<close> with the goroutine that stores the cache. The handler of \<open>/\<close> and the library's
  mux are arguments; the callback is a step relation, with the channel \<open>done\<close> as the number of its items.
\<close>

subsection \<open>The program\<close>

text \<open>
  \<open>NewServer\<close> starts with an empty mux that rejects nothing. \<open>register\<close> is \<open>ServeMux.Handle\<close> on what the
  mux answers; an empty mux answers \<open>not_found\<close>.
\<close>

definition NewServer :: "('req \<Rightarrow> nat \<times> bytes) \<Rightarrow> 'req Server" where
  "NewServer not_found = \<lparr>reject = False, handler = not_found\<rparr>"

definition Handle :: "(string \<Rightarrow> 'h \<Rightarrow> ('req \<Rightarrow> nat \<times> bytes) \<Rightarrow> 'req \<Rightarrow> nat \<times> bytes) \<Rightarrow> string \<Rightarrow> 'h
    \<Rightarrow> 'req Server \<Rightarrow> 'req Server" where
  "Handle register pattern h s = s\<lparr>handler := register pattern h (handler s)\<rparr>"

definition main_servers :: "(string \<Rightarrow> 'h \<Rightarrow> ('req \<Rightarrow> nat \<times> bytes) \<Rightarrow> 'req \<Rightarrow> nat \<times> bytes) \<Rightarrow> ('req \<Rightarrow> nat \<times> bytes)
    \<Rightarrow> 'h \<Rightarrow> 'req Server list" where
  "main_servers register not_found hello =
     [Handle register ''/'' hello (NewServer not_found), NewServer not_found]"

definition main_app :: "'cb \<Rightarrow> 'cb App" where
  "main_app store = NewApp [''business'', ''admin''] [WithShutdownCallbacks [store]]"

subsection \<open>The callback\<close>

datatype cb_main = Selecting | TimedOut | Stored

datatype cb_worker = Flushing | Flushed

record store_cb =
  cb_main :: cb_main
  cb_worker :: cb_worker
  cb_items :: nat
  cb_expired :: bool

definition cb_init :: store_cb where
  "cb_init = \<lparr>cb_main = Selecting, cb_worker = Flushing, cb_items = 0, cb_expired = False\<rparr>"

text \<open>The channel holds one item, so the goroutine's send has to wait only when it is full.\<close>

inductive cb_step :: "store_cb \<Rightarrow> store_cb \<Rightarrow> bool" where
  expire: "\<not> cb_expired s \<Longrightarrow> cb_step s (s\<lparr>cb_expired := True\<rparr>)"
| finish: "cb_worker s = Flushing \<Longrightarrow> cb_items s < 1 \<Longrightarrow>
    cb_step s (s\<lparr>cb_worker := Flushed, cb_items := cb_items s + 1\<rparr>)"
| timeout: "cb_main s = Selecting \<Longrightarrow> cb_expired s \<Longrightarrow> cb_step s (s\<lparr>cb_main := TimedOut\<rparr>)"
| stored: "cb_main s = Selecting \<Longrightarrow> 0 < cb_items s \<Longrightarrow>
    cb_step s (s\<lparr>cb_main := Stored, cb_items := cb_items s - 1\<rparr>)"

inductive_cases cb_stepE: "cb_step s t"

definition cb_reach :: "store_cb \<Rightarrow> bool" where
  "cb_reach s \<longleftrightarrow> cb_step\<^sup>*\<^sup>* cb_init s"

definition cb_inv :: "store_cb \<Rightarrow> bool" where
  "cb_inv s \<longleftrightarrow> (cb_worker s = Flushing \<longrightarrow> cb_items s = 0) \<and> (cb_main s = Stored \<longrightarrow> cb_worker s = Flushed)
     \<and> (cb_main s = TimedOut \<longrightarrow> cb_expired s) \<and> (cb_worker s = Flushed \<and> cb_main s \<noteq> Stored \<longrightarrow> cb_items s = 1)"

lemma cb_inv_step: "cb_step s t \<Longrightarrow> cb_inv s \<Longrightarrow> cb_inv t"
  by (erule cb_stepE) (cases "cb_worker s"; auto simp: cb_inv_def)+

lemma cb_reach_inv: "cb_reach s \<Longrightarrow> cb_inv s"
  unfolding cb_reach_def
  by (induction rule: rtranclp_induct) (simp add: cb_inv_def cb_init_def, rule cb_inv_step)

subsection \<open>The callback returns and leaks nothing\<close>

definition cb_left :: "store_cb \<Rightarrow> nat" where
  "cb_left s = (if cb_main s = Selecting then 1 else 0) + (if cb_worker s = Flushing then 1 else 0)
     + (if cb_expired s then 0 else 1)"

lemma cb_step_left: "cb_step s t \<Longrightarrow> Suc (cb_left t) = cb_left s"
  by (erule cb_stepE) (auto simp: cb_left_def)

lemma cb_steps_bound: "(cb_step ^^ k) s t \<Longrightarrow> k + cb_left t = cb_left s"
proof (induction k arbitrary: t)
  case (Suc k)
  then obtain u where "(cb_step ^^ k) s u" "cb_step u t" by auto
  with Suc.IH [of u] cb_step_left [of u t] show ?case by simp
qed simp

text \<open>
  A run has at most three steps. It ends with the callback returned and the goroutine finished: unlike
  the channel of \<open>Client.Invoke\<close>, this one has room for an item that nobody receives. The message that
  the cache was stored is only written when it was.
\<close>

theorem StoreCacheToDBCallback_returns:
  assumes "(cb_step ^^ k) cb_init s"
  shows "k \<le> 3 \<and> ((\<nexists>t. cb_step s t) \<longrightarrow> cb_main s \<noteq> Selecting \<and> cb_worker s = Flushed)
    \<and> (cb_main s = Stored \<longrightarrow> cb_worker s = Flushed)"
proof -
  have "cb_inv s" using assms by (auto intro: cb_reach_inv simp: cb_reach_def relpowp_imp_rtranclp)
  moreover have "k \<le> 3" using cb_steps_bound [OF assms] by (simp add: cb_left_def cb_init_def)
  moreover have "cb_main s \<noteq> Selecting \<and> cb_worker s = Flushed" if stuck: "\<nexists>t. cb_step s t"
  proof -
    have "cb_expired s" using stuck expire by blast
    then have "cb_main s \<noteq> Selecting" using stuck timeout by blast
    moreover have "cb_worker s \<noteq> Flushing"
    proof
      assume "cb_worker s = Flushing"
      with \<open>cb_inv s\<close> have "cb_items s < 1" by (simp add: cb_inv_def)
      with \<open>cb_worker s = Flushing\<close> stuck finish show False by blast
    qed
    ultimately show ?thesis by (cases "cb_worker s") simp_all
  qed
  ultimately show ?thesis by (simp add: cb_inv_def)
qed

theorem StoreCacheToDBCallback_returns_witness:
  "cb_main (cb_init\<lparr>cb_worker := Flushed, cb_items := 0, cb_main := Stored\<rparr>) \<noteq> Selecting"
proof -
  let ?s = "cb_init\<lparr>cb_worker := Flushed, cb_items := 0, cb_main := Stored\<rparr>"
  have "cb_step cb_init (cb_init\<lparr>cb_worker := Flushed, cb_items := 1\<rparr>)"
    using finish [of cb_init] by (simp add: cb_init_def)
  moreover have "cb_step (cb_init\<lparr>cb_worker := Flushed, cb_items := 1\<rparr>) ?s"
    using stored [of "cb_init\<lparr>cb_worker := Flushed, cb_items := 1\<rparr>"] by (simp add: cb_init_def)
  ultimately have "(cb_step ^^ 2) cb_init ?s" by (auto simp: numeral_2_eq_2)
  from StoreCacheToDBCallback_returns [OF this] show ?thesis by simp
qed

text \<open>The program has one callback; its business server answers as \<open>/\<close> says until it rejects.\<close>

lemma main_app_cbs: "cbs (main_app store) = [store]" and "cbTimeout (main_app store) = 13"
  by (simp_all add: main_app_def NewApp_def WithShutdownCallbacks_def)

lemma main_servers_answer:
  "mux_ServeHTTP (main_servers register not_found hello ! 0) r = register ''/'' hello not_found r"
  "mux_ServeHTTP (rejectReq (main_servers register not_found hello ! 0)) r = (503, closed_text)"
  by (simp_all add: main_servers_def Handle_def NewServer_def mux_ServeHTTP_def rejectReq_def)

end
