(* ===== verification/Rpc_Start.thy ===== *)
theory Rpc_Start
  imports Rpc_Server
begin

text \<open>
  \<open>Server.Start\<close> of \<open>rpc/server.go\<close>: the accept loop, and the goroutines that run \<open>handleConn\<close> for the
  accepted connections, all in one process.

  What happens is a sequence of events in the order of the schedule: a connection is accepted, accepting
  fails, or the goroutine of a connection makes one round of its loop. The goroutines share the server,
  which none of them changes, and the process: a panic in one of them is not recovered and ends them all.
  A connection comes with all its peer sends. The properties hold for every schedule.

  A service method is a function of its context and its argument, as in \<open>Rpc_Server\<close>: that a service keeps
  state of its own from call to call, and so one client from another, is not covered.
\<close>

subsection \<open>The accept loop and its goroutines\<close>

text \<open>A goroutine is in the loop of \<open>handleConn\<close>, or has closed its connection after an error.\<close>

datatype conn_handler = Handling conn_state | Closed conn_state

fun handled :: "conn_handler \<Rightarrow> conn_state" where
  "handled (Handling st) = st"
| "handled (Closed st) = st"

definition new_handler :: "net_conn \<Rightarrow> conn_handler" where
  "new_handler c = Handling \<lparr>conn = c, spawned = []\<rparr>"

fun handler_round :: "'v Server \<Rightarrow> conn_handler \<Rightarrow> rpc_panic option \<times> conn_handler" where
  "handler_round s (Closed st) = (None, Closed st)"
| "handler_round s (Handling st) =
     (case handleRound s st of
        (Panicked p, st) \<Rightarrow> (Some p, Handling st)
      | (Returned er, st) \<Rightarrow> (None, Closed st)
      | (Answered, st) \<Rightarrow> (None, Handling st))"

text \<open>\<open>start_err\<close> is what \<open>Start\<close> has returned, if it has; the goroutines go on without it.\<close>

record 'e start_state =
  handlers :: "conn_handler list"
  start_err :: "'e option"
  crashed :: "rpc_panic option"

datatype 'e event = Accepted net_conn | AcceptFails 'e | Round nat

fun start_step :: "'v Server \<Rightarrow> 'e event \<Rightarrow> 'e start_state \<Rightarrow> 'e start_state" where
  "start_step s (Accepted c) w =
     (if crashed w = None \<and> start_err w = None then w\<lparr>handlers := handlers w @ [new_handler c]\<rparr> else w)"
| "start_step s (AcceptFails err) w =
     (if crashed w = None \<and> start_err w = None then w\<lparr>start_err := Some err\<rparr> else w)"
| "start_step s (Round j) w =
     (if crashed w = None \<and> j < length (handlers w)
      then (case handler_round s (handlers w ! j) of
              (p, h) \<Rightarrow> w\<lparr>handlers := (handlers w)[j := h], crashed := p\<rparr>)
      else w)"

text \<open>\<open>listen\<close> is what \<open>net.Listen\<close> gives for the network and the address.\<close>

definition Start :: "'v Server \<Rightarrow> ('e, unit) result \<Rightarrow> 'e event list \<Rightarrow> 'e start_state" where
  "Start s listen evs =
     (case listen of
        Inl err \<Rightarrow> \<lparr>handlers = [], start_err = Some err, crashed = None\<rparr>
      | Inr _ \<Rightarrow> fold (start_step s) evs \<lparr>handlers = [], start_err = None, crashed = None\<rparr>)"

text \<open>The connections a schedule accepts: those before the first failure.\<close>

fun accepted :: "'e event list \<Rightarrow> net_conn list" where
  "accepted [] = []"
| "accepted (Accepted c # evs) = c # accepted evs"
| "accepted (AcceptFails err # evs) = []"
| "accepted (Round j # evs) = accepted evs"

subsection \<open>What every connection keeps\<close>

text \<open>
  The rounds a schedule gives the \<open>j\<close>-th connection: those after it was accepted. \<open>n\<close> connections are
  accepted, and \<open>opn\<close> says whether the loop still accepts.
\<close>

fun turns :: "nat \<Rightarrow> nat \<Rightarrow> bool \<Rightarrow> 'e event list \<Rightarrow> nat" where
  "turns j n opn [] = 0"
| "turns j n opn (Accepted c # evs) = turns j (if opn then Suc n else n) opn evs"
| "turns j n opn (AcceptFails err # evs) = turns j n False evs"
| "turns j n opn (Round i # evs) = (if i = j \<and> j < n then 1 else 0) + turns j n opn evs"

lemma crashed_stays: "crashed w \<noteq> None \<Longrightarrow> fold (start_step s) evs w = w"
proof (induction evs)
  case (Cons ev evs)
  then show ?case by (cases ev) auto
qed simp

lemma accepted_append: "set (accepted evs) \<subseteq> set (accepted (evs @ evs'))"
proof (induction evs)
  case (Cons ev evs)
  then show ?case by (cases ev) auto
qed simp

text \<open>
  A rule for what every connection keeps: \<open>P k c h\<close> says that \<open>h\<close> is the goroutine of the connection \<open>c\<close>
  after \<open>k\<close> rounds, and then makes the next one without a panic. If every accepted connection starts well,
  the process never ends.
\<close>

locale conn_rule =
  fixes s :: "'v Server" and good :: "net_conn \<Rightarrow> bool" and P :: "nat \<Rightarrow> net_conn \<Rightarrow> conn_handler \<Rightarrow> bool"
  assumes P_start: "good c \<Longrightarrow> P 0 c (new_handler c)"
    and P_round: "P k c h \<Longrightarrow> handler_round s h = (None, h') \<Longrightarrow> P (Suc k) c h'"
    and P_quiet: "P k c h \<Longrightarrow> fst (handler_round s h) = None"
begin

definition all_keep :: "(nat \<Rightarrow> nat) \<Rightarrow> net_conn list \<Rightarrow> conn_handler list \<Rightarrow> bool" where
  "all_keep ks cs hs \<longleftrightarrow> length hs = length cs \<and> (\<forall>j < length cs. P (ks j) (cs ! j) (hs ! j)) \<and>
     (\<forall>j \<ge> length cs. ks j = 0)"

lemma all_keep_accept: "all_keep ks cs hs \<Longrightarrow> good c \<Longrightarrow> all_keep ks (cs @ [c]) (hs @ [new_handler c])"
  using P_start by (auto simp: all_keep_def nth_append less_Suc_eq)

lemma all_keep_round:
  "all_keep ks cs hs \<Longrightarrow> j < length cs \<Longrightarrow> handler_round s (hs ! j) = (None, h) \<Longrightarrow>
   all_keep (ks(j := Suc (ks j))) cs (hs[j := h])"
  using P_round by (auto simp: all_keep_def nth_list_update)

lemma run_keeps:
  assumes "crashed (fold (start_step s) evs w) = None" and "all_keep ks cs (handlers w)"
    and "start_err w = None \<longrightarrow> (\<forall>c \<in> set (accepted evs). good c)"
  shows "all_keep (\<lambda>j. ks j + turns j (length cs) (start_err w = None) evs)
    (cs @ (if start_err w = None then accepted evs else [])) (handlers (fold (start_step s) evs w))"
  using assms
proof (induction evs arbitrary: w ks cs)
  case Nil
  then show ?case by simp
next
  case (Cons ev evs)
  have c: "crashed w = None"
    using Cons.prems(1) crashed_stays [of w s "ev # evs"] by (metis option.distinct(1))
  show ?case
  proof (cases ev)
    case (Accepted c)
    show ?thesis
    proof (cases "start_err w")
      case None
      from Cons.IH [of "w\<lparr>handlers := handlers w @ [new_handler c]\<rparr>" ks "cs @ [c]"] Cons.prems Accepted c None
      show ?thesis by (simp add: all_keep_accept)
    next
      case (Some err)
      with Cons.IH [of w ks cs] Cons.prems Accepted c show ?thesis by simp
    qed
  next
    case (AcceptFails err)
    show ?thesis
    proof (cases "start_err w")
      case None
      from Cons.IH [of "w\<lparr>start_err := Some err\<rparr>" ks cs] Cons.prems AcceptFails c None show ?thesis by simp
    next
      case (Some e)
      with Cons.IH [of w ks cs] Cons.prems AcceptFails c show ?thesis by simp
    qed
  next
    case (Round j)
    have len: "length (handlers w) = length cs" using Cons.prems(2) by (simp add: all_keep_def)
    show ?thesis
    proof (cases "j < length cs")
      case True
      obtain p h where r: "handler_round s (handlers w ! j) = (p, h)" by fastforce
      let ?w = "w\<lparr>handlers := (handlers w)[j := h], crashed := p\<rparr>" and ?ks = "ks(j := Suc (ks j))"
      have w: "fold (start_step s) (ev # evs) w = fold (start_step s) evs ?w"
        using Round True c len r by simp
      have p: "p = None"
        using Cons.prems(1) crashed_stays [of ?w s evs] unfolding w by (cases p) auto
      have keep: "all_keep ?ks cs (handlers ?w)"
        using all_keep_round [OF Cons.prems(2) True] r p by simp
      have ih: "all_keep (\<lambda>i. ?ks i + turns i (length cs) (start_err ?w = None) evs)
        (cs @ (if start_err ?w = None then accepted evs else [])) (handlers (fold (start_step s) evs ?w))"
      proof (rule Cons.IH [OF _ keep])
        show "crashed (fold (start_step s) evs ?w) = None" using Cons.prems(1) unfolding w .
        show "start_err ?w = None \<longrightarrow> (\<forall>c \<in> set (accepted evs). good c)"
          using Cons.prems(3) Round by simp
      qed
      have "(\<lambda>i. ?ks i + turns i (length cs) (start_err ?w = None) evs) =
        (\<lambda>i. ks i + turns i (length cs) (start_err w = None) (ev # evs))"
        using Round True by auto
      with ih Round show ?thesis unfolding w by (cases "start_err w") simp_all
    next
      case False
      have "turns i (length cs) opn (ev # evs) = turns i (length cs) opn evs" for i opn
        using False Round by auto
      with Cons.IH [of w ks cs] Cons.prems Round False len show ?thesis by (cases "start_err w") simp_all
    qed
  qed
qed

lemma Start_keeps:
  assumes "crashed (Start s (Inr ()) evs) = None" and "\<forall>c \<in> set (accepted evs). good c"
  shows "length (handlers (Start s (Inr ()) evs)) = length (accepted evs)"
    and "j < length (accepted evs) \<Longrightarrow>
      P (turns j 0 True evs) (accepted evs ! j) (handlers (Start s (Inr ()) evs) ! j)"
  using run_keeps [of evs "\<lparr>handlers = [], start_err = None, crashed = None\<rparr>" "\<lambda>_. 0" "[]"] assms
  by (auto simp: Start_def all_keep_def)

lemma Start_quiet:
  "\<forall>c \<in> set (accepted evs). good c \<Longrightarrow> crashed (Start s (Inr ()) evs) = None"
proof (induction evs rule: rev_induct)
  case Nil
  then show ?case by (simp add: Start_def)
next
  case (snoc ev evs)
  then have good: "\<forall>c \<in> set (accepted evs). good c" using accepted_append [of evs "[ev]"] by blast
  with snoc.IH have c: "crashed (Start s (Inr ()) evs) = None" by simp
  have step: "Start s (Inr ()) (evs @ [ev]) = start_step s ev (Start s (Inr ()) evs)"
    by (simp add: Start_def)
  have "p = None" if "j < length (handlers (Start s (Inr ()) evs))"
    and "handler_round s (handlers (Start s (Inr ()) evs) ! j) = (p, h)" for j p h
    using Start_keeps [OF c good] that P_quiet by (metis fst_conv)
  then show ?case unfolding step using c by (cases ev) (auto split: prod.splits)
qed

end

subsection \<open>What a client gets among the others\<close>

text \<open>Whole frames, packed into segments in any way.\<close>

inductive delivers :: "bytes list \<Rightarrow> bytes list \<Rightarrow> bool" where
  no_frame: "delivers [] []"
| own_segment: "delivers bss cs \<Longrightarrow> delivers (bs # bss) (bs # cs)"
| same_segment: "delivers (bs' # bss) (seg # cs) \<Longrightarrow> delivers (bs # bs' # bss) ((bs @ seg) # cs)"

inductive_cases delivers_NilE: "delivers [] cs"
inductive_cases delivers_ConsE: "delivers (bs # bss) cs"

lemma delivers_segment:
  assumes "delivers (bs # bss) cs" and "\<forall>bs' \<in> set bss. bs' \<noteq> []"
  obtains extra rest where "cs = (bs @ extra) # rest" and "delivers bss (segments extra @ rest)"
  using assms(1)
proof (cases rule: delivers.cases)
  case (own_segment cs')
  with that [of "[]" cs'] show thesis by (simp add: segments_def)
next
  case (same_segment bs' bss' seg cs')
  have "seg \<noteq> []"
    using same_segment(3) assms(2) same_segment(1) by (auto elim: delivers_ConsE)
  with same_segment that [of seg cs'] show thesis by (simp add: segments_def)
qed

text \<open>The peer of \<open>c\<close> sends \<open>reqs\<close>, which the server can answer, and stays until it has all answers.\<close>

definition asks :: "(Request \<Rightarrow> (bytes \<times> bytes) list) \<Rightarrow> 'v Server \<Rightarrow> net_conn \<Rightarrow> Request list \<Rightarrow> bool" where
  "asks order s c reqs \<longleftrightarrow> (\<forall>req \<in> set reqs. good_req order req \<and> answerable s req) \<and>
     (\<exists>bss. list_all2 (\<lambda>req bs. EncodeReq (order req) req = Inr bs) reqs bss \<and> delivers bss (inbound c)) \<and>
     remote c = (\<lambda>_. []) \<and> \<not> broken c"

text \<open>What becomes of such a connection after \<open>k\<close> rounds.\<close>

definition served ::
  "(Request \<Rightarrow> (bytes \<times> bytes) list) \<Rightarrow> 'v Server \<Rightarrow> nat \<Rightarrow> Request list \<Rightarrow> conn_handler \<Rightarrow> bool" where
  "served order s k reqs h \<longleftrightarrow>
     map DecodeResp (outbound (conn (handled h))) = map (reply s) (take k reqs) \<and>
     (if k \<le> length reqs then \<exists>st. h = Handling st \<and> asks order s (conn st) (drop k reqs)
      else \<exists>st. h = Closed st)"

lemma asks_Nil: "asks order s c [] \<Longrightarrow> inbound c = []"
  by (auto simp: asks_def elim: delivers_NilE)

lemma asks_Cons:
  assumes "asks order s (conn st) (req # reqs)"
  obtains out c' where "handleRound s st = (Answered, st\<lparr>conn := c'\<rparr>)" and "asks order s c' reqs"
    and "outbound c' = outbound (conn st) @ [out]" and "DecodeResp out = reply s req"
proof -
  from assms obtain bs bss where good: "good_req order req" "answerable s req"
    and bs: "EncodeReq (order req) req = Inr bs"
    and bss: "list_all2 (\<lambda>req bs. EncodeReq (order req) req = Inr bs) reqs bss"
    and d: "delivers (bs # bss) (inbound (conn st))" and c: "remote (conn st) = (\<lambda>_. [])" "\<not> broken (conn st)"
    and goods: "\<forall>req \<in> set reqs. good_req order req \<and> answerable s req"
    by (auto simp: asks_def list_all2_Cons1)
  have "\<forall>bs' \<in> set bss. bs' \<noteq> []"
    using bss goods req_codec.enc_framed [of order]
    by (fastforce simp: list_all2_conv_all_nth in_set_conv_nth framed_def)
  with d obtain extra rest where i: "inbound (conn st) = (bs @ extra) # rest"
    and rest: "delivers bss (segments extra @ rest)"
    by (rule delivers_segment)
  obtain r out where r: "reply s req = Inr r" "EncodeResp r = Inr out" "DecodeResp out = Inr r"
    using reply_encoded [OF good(2)] by metis
  let ?c = "(conn st)\<lparr>inbound := segments extra @ rest, outbound := outbound (conn st) @ [out]\<rparr>"
  show thesis
  proof (rule that)
    show "handleRound s st = (Answered, st\<lparr>conn := ?c\<rparr>)"
      using handleRound_request [OF i good(1) bs r(1,2) c(2)] c(1) by simp
    show "asks order s ?c reqs" using goods bss rest c by (auto simp: asks_def)
    show "DecodeResp out = reply s req" using r(1,3) by simp
  qed simp
qed

lemma served_start:
  "asks order s c reqs \<Longrightarrow> outbound c = [] \<Longrightarrow> served order s 0 reqs (new_handler c)"
  by (simp add: served_def new_handler_def)

lemma served_round:
  assumes "served order s k reqs h"
  shows "fst (handler_round s h) = None \<and> served order s (Suc k) reqs (snd (handler_round s h))"
proof (cases "k \<le> length reqs")
  case False
  with assms show ?thesis by (auto simp: served_def)
next
  case True
  with assms obtain st where h: "h = Handling st" and a: "asks order s (conn st) (drop k reqs)"
    and o: "map DecodeResp (outbound (conn st)) = map (reply s) (take k reqs)"
    by (auto simp: served_def)
  show ?thesis
  proof (cases "drop k reqs")
    case Nil
    with a have "handler_round s h = (None, Closed st)" by (simp add: h handleRound_EOF asks_Nil)
    with Nil o show ?thesis by (simp add: served_def)
  next
    case (Cons req rest)
    then have k: "k < length reqs" "req = reqs ! k" "rest = drop (Suc k) reqs"
      by (metis drop_all linorder_not_le list.simps(3), metis nth_via_drop, metis drop_Suc list.sel(3) tl_drop)
    from a Cons obtain out c' where "handleRound s st = (Answered, st\<lparr>conn := c'\<rparr>)" "asks order s c' rest"
      "outbound c' = outbound (conn st) @ [out]" "DecodeResp out = reply s req"
      by (auto elim: asks_Cons)
    with o k show ?thesis by (simp add: h served_def take_Suc_conv_app_nth)
  qed
qed

interpretation served: conn_rule s "\<lambda>c. asks order s c (script c) \<and> outbound c = []"
    "\<lambda>k c h. served order s k (script c) h"
  for s :: "'v Server" and order script
  by unfold_locales (auto simp: served_start dest: served_round)

subsection \<open>Properties\<close>

text \<open>
  Claim C12: when every client sends good requests the server can answer, in segments of whole requests,
  the server never panics, whatever the schedule; each client has been sent, in order, the responses to
  as many of its requests as its goroutine has made rounds; and its connection is closed exactly after
  one round more than it has requests.
\<close>

theorem Start_answers_all:
  assumes "\<forall>c \<in> set (accepted evs). asks order s c (script c) \<and> outbound c = []"
  shows "crashed (Start s (Inr ()) evs) = None \<and>
    (\<forall>j < length (accepted evs).
      map DecodeResp (outbound (conn (handled (handlers (Start s (Inr ()) evs) ! j)))) =
        map (reply s) (take (turns j 0 True evs) (script (accepted evs ! j))) \<and>
      ((\<exists>st. handlers (Start s (Inr ()) evs) ! j = Closed st) \<longleftrightarrow>
        length (script (accepted evs ! j)) < turns j 0 True evs))"
proof -
  have quiet: "crashed (Start s (Inr ()) evs) = None" using assms by (rule served.Start_quiet)
  have "map DecodeResp (outbound (conn (handled (handlers (Start s (Inr ()) evs) ! j)))) =
      map (reply s) (take (turns j 0 True evs) (script (accepted evs ! j))) \<and>
    ((\<exists>st. handlers (Start s (Inr ()) evs) ! j = Closed st) \<longleftrightarrow>
      length (script (accepted evs ! j)) < turns j 0 True evs)" if "j < length (accepted evs)" for j
    using served.Start_keeps(2) [OF quiet assms that] by (auto simp: served_def not_less split: if_splits)
  with quiet show ?thesis by blast
qed

text \<open>
  Claim C15: one client ends the service of all: as soon as a goroutine reads a one-way request for a
  registered service, the process has crashed, and in no schedule is a connection accepted or a byte
  sent to any client after that.
\<close>

theorem oneway_crashes_all:
  assumes "crashed (Start s (Inr ()) evs) = None" and "j < length (handlers (Start s (Inr ()) evs))"
    and "handlers (Start s (Inr ()) evs) ! j = Handling st" and "inbound (conn st) = (bs @ extra) # cs"
    and "good_req order req" and "EncodeReq (order req) req = Inr bs"
    and "services s (ServiceName req) \<noteq> None" and "Meta req (of_str ''one-way'') = Some (of_str ''true'')"
  shows "crashed (Start s (Inr ()) (evs @ Round j # evs')) = Some NilPointer \<and>
    map (\<lambda>h. outbound (conn (handled h))) (handlers (Start s (Inr ()) (evs @ Round j # evs'))) =
      map (\<lambda>h. outbound (conn (handled h))) (handlers (Start s (Inr ()) evs))"
proof -
  obtain st' where r: "handleRound s st = (Panicked NilPointer, st')" "outbound (conn st') = outbound (conn st)"
    using oneway_request_panics [OF assms(4-8)] by blast
  let ?w = "Start s (Inr ()) evs"
  let ?w' = "?w\<lparr>handlers := (handlers ?w)[j := Handling st'], crashed := Some NilPointer\<rparr>"
  have "Start s (Inr ()) (evs @ Round j # evs') = fold (start_step s) evs' (start_step s (Round j) ?w)"
    by (simp add: Start_def)
  also have "start_step s (Round j) ?w = ?w'" using assms(1-3) r by simp
  also have "fold (start_step s) evs' ?w' = ?w'" by (rule crashed_stays) simp
  finally show ?thesis
    using assms(2,3) r(2) by (simp add: map_update list_update_same_conv)
qed

subsection \<open>Concrete schedules\<close>

definition client :: "bytes list \<Rightarrow> net_conn" where
  "client cs = \<lparr>inbound = cs, outbound = [], remote = (\<lambda>_. []), broken = False\<rparr>"

text \<open>Two clients, one sending its two requests in one segment and one in two; the listener fails in between.\<close>

definition two_clients :: "bytes \<Rightarrow> unit event list" where
  "two_clients bs = [Accepted (client [bs @ bs]), Round 0, Accepted (client [bs, bs]), Round 1, Round 0,
     AcceptFails (), Round 0, Round 1, Accepted (client []), Round 1]"

lemma two_clients_ask:
  "\<exists>bs. \<forall>c \<in> set (accepted (two_clients bs)).
     asks (\<lambda>_. [([107], [118])]) echo_server c pings \<and> outbound c = []"
proof -
  obtain bs where bs: "\<forall>req \<in> set pings. EncodeReq [([107], [118])] req = Inr bs" and len: "length pings = 2"
    using pings_encoded by blast
  have "delivers [bs, bs] [bs @ bs]" "delivers [bs, bs] [bs, bs]" by (intro delivers.intros)+
  moreover have "list_all2 (\<lambda>req bs. EncodeReq [([107], [118])] req = Inr bs) pings [bs, bs]"
    using bs len by (auto simp: list_all2_conv_all_nth less_Suc_eq numeral_2_eq_2)
  ultimately show ?thesis
    using pings_good pings_answerable
    by (intro exI [of _ bs]) (auto simp: two_clients_def client_def asks_def)
qed

lemma two_clients_accepted: "accepted (two_clients bs) = [client [bs @ bs], client [bs, bs]]"
  by (simp add: two_clients_def)

lemma two_clients_turns: "turns 0 0 True (two_clients bs) = 3" "turns 1 0 True (two_clients bs) = 3"
  by (simp_all add: two_clients_def)

theorem Start_answers_all_witness:
  "\<exists>bs. crashed (Start echo_server (Inr ()) (two_clients bs)) = None \<and>
    (\<forall>j < 2. (\<exists>st. handlers (Start echo_server (Inr ()) (two_clients bs)) ! j = Closed st) \<and>
      map DecodeResp (outbound (conn (handled (handlers (Start echo_server (Inr ()) (two_clients bs)) ! j)))) =
        map (reply echo_server) pings)"
proof -
  obtain bs where "\<forall>c \<in> set (accepted (two_clients bs)).
      asks (\<lambda>_. [([107], [118])]) echo_server c ((\<lambda>_. pings) c) \<and> outbound c = []"
    using two_clients_ask by blast
  note served = Start_answers_all [OF this]
  have len: "length pings = 2" by (simp add: pings_def)
  have "turns j 0 True (two_clients bs) = 3" if "j < 2" for j
    using that two_clients_turns by (auto simp: less_2_cases_iff)
  with served show ?thesis by (intro exI [of _ bs]) (simp add: two_clients_accepted len)
qed

theorem oneway_crashes_all_witness:
  "\<exists>bs. crashed (Start echo_server (Inr ()) [Accepted (client [bs]), Accepted (client []), Round 0,
      Accepted (client []), Round 1, AcceptFails ()]) = Some NilPointer"
proof -
  obtain bs where bs: "EncodeReq [(of_str ''one-way'', of_str ''true'')] oneway_ping = Inr bs"
    using req_codec.enc_frame [OF oneway_ping_good] by auto
  let ?evs = "[Accepted (client [bs]), Accepted (client [])] :: unit event list"
  let ?st = "\<lparr>conn = client [bs], spawned = []\<rparr>"
  have start: "Start echo_server (Inr ()) ?evs =
      \<lparr>handlers = [new_handler (client [bs]), new_handler (client [])], start_err = None, crashed = None\<rparr>"
    by (simp add: Start_def)
  have "inbound (conn ?st) = (bs @ []) # []" by (simp add: client_def)
  moreover have "services echo_server (ServiceName oneway_ping) \<noteq> None"
    "Meta oneway_ping (of_str ''one-way'') = Some (of_str ''true'')"
    by (simp_all add: echo_defs oneway_ping_def ping_def CalculateBodyLength_def CalculateHeaderLength_def)
  moreover have "handlers (Start echo_server (Inr ()) ?evs) ! 0 = Handling ?st"
    "crashed (Start echo_server (Inr ()) ?evs) = None" "0 < length (handlers (Start echo_server (Inr ()) ?evs))"
    unfolding start by (simp_all add: new_handler_def)
  ultimately have "crashed (Start echo_server (Inr ()) (?evs @ Round 0 # [Accepted (client []), Round 1, AcceptFails ()])) =
      Some NilPointer"
    using oneway_crashes_all [OF _ _ _ _ oneway_ping_good bs] by blast
  then show ?thesis by (intro exI [of _ bs]) simp
qed

end
