(* ===== verification/Sql_Suite.thy ===== *)
theory Sql_Suite
  imports Prelude
begin

text \<open>
  The hand-written queries of \<open>homework_delete/no_orm.go\<close>: the suite \<open>sqlTestSuite\<close> with its set-up, its
  test \<open>TestCRUD\<close> and its clean-up, as \<open>suite.Run\<close> runs them.

  \<open>database/sql\<close>, its driver and \<open>testify\<close> are not part of the repository: the first two are an argument,
  the third is what its documentation says. \<open>t.Fatal\<close> ends the method that calls it, and
  \<open>assert.Equal\<close> records a failure and goes on: a method gives the state it leaves, with what was reported,
  and \<^const>\<open>None\<close> when it was ended. What the driver's \<open>Scan\<close> stores is its result; the contexts' deadlines do
  not pass.
\<close>

subsection \<open>The driver and the state of a test\<close>

record TestModel =
  Id :: int
  FirstName :: string
  Age :: int
  LastName :: "string option option"

text \<open>
  \<open>LastName\<close> is a pointer to a \<open>NullString\<close>: \<^const>\<open>None\<close> is nil, \<open>Some None\<close> is not valid. \<open>'w\<close> is the world
  with its databases, \<open>'db\<close> a handle, \<open>'e\<close> an error and \<open>'r\<close> a row. The result of a statement is the
  answer of its \<open>RowsAffected\<close>; the rows of a query are those that \<open>Next\<close> reaches.
\<close>

definition TestModel_zero :: TestModel where
  "TestModel_zero = \<lparr>Id = 0, FirstName = '''', Age = 0, LastName = None\<rparr>"

record ('w, 'db, 'e, 'r) sql_driver =
  sql_Open :: "string \<Rightarrow> string \<Rightarrow> 'w \<Rightarrow> ('e, 'db) result \<times> 'w"
  ExecContext :: "'db \<Rightarrow> string \<Rightarrow> int list \<Rightarrow> 'w \<Rightarrow> ('e, ('e, int) result) result \<times> 'w"
  QueryContext :: "'db \<Rightarrow> string \<Rightarrow> 'w \<Rightarrow> ('e, 'r list) result \<times> 'w"
  ScanRow :: "'r \<Rightarrow> TestModel \<Rightarrow> 'e option \<times> TestModel"
  ErrNoRows :: 'e

text \<open>The arguments of \<open>t.Fatal\<close> are errors, which may be nil.\<close>

datatype 'e report = Fatal "'e option list" | NotEqual string string

record ('w, 'e) t_state =
  world :: 'w
  reports :: "'e report list"

type_synonym ('w, 'e, 'a) test_body = "('w, 'e) t_state \<Rightarrow> 'a option \<times> ('w, 'e) t_state"

definition go_on :: "'a \<Rightarrow> ('w, 'e, 'a) test_body" where
  "go_on a s = (Some a, s)"

definition and_next :: "('w, 'e, 'a) test_body \<Rightarrow> ('a \<Rightarrow> ('w, 'e, 'b) test_body) \<Rightarrow> ('w, 'e, 'b) test_body" where
  "and_next m f s = (case m s of (None, s) \<Rightarrow> (None, s) | (Some a, s) \<Rightarrow> f a s)"

definition fatal :: "'e option list \<Rightarrow> ('w, 'e, 'a) test_body" where
  "fatal errs s = (None, s\<lparr>reports := reports s @ [Fatal errs]\<rparr>)"

definition assert_Equal :: "string \<Rightarrow> string \<Rightarrow> ('w, 'e, unit) test_body" where
  "assert_Equal expected actual s =
     (Some (), if expected = actual then s else s\<lparr>reports := reports s @ [NotEqual expected actual]\<rparr>)"

text \<open>A call of the driver, and what \<open>t.Fatal\<close> gets when it fails.\<close>

definition on_driver :: "('w \<Rightarrow> ('e, 'a) result \<times> 'w) \<Rightarrow> ('e \<Rightarrow> 'e option list) \<Rightarrow> ('w, 'e, 'a) test_body" where
  "on_driver f told s =
     (case f (world s) of
        (Inl err, w) \<Rightarrow> fatal (told err) (s\<lparr>world := w\<rparr>)
      | (Inr a, w) \<Rightarrow> (Some a, s\<lparr>world := w\<rparr>))"

abbreviation or_fatal :: "('w \<Rightarrow> ('e, 'a) result \<times> 'w) \<Rightarrow> ('w, 'e, 'a) test_body" where
  "or_fatal f \<equiv> on_driver f (\<lambda>err. [Some err])"

subsection \<open>The statements\<close>

definition delete_sql :: string where
  "delete_sql = ''DELETE FROM test_model;''"

definition create_sql :: string where
  "create_sql = ''
CREATE TABLE IF NOT EXISTS test_model(
    id INTEGER PRIMARY KEY,
    first_name TEXT NOT NULL,
    age INTEGER,
    last_name TEXT NOT NULL
)
''"

definition insert_sql :: string where
  "insert_sql = ''INSERT INTO `test_model`(`id`, `first_name`, `age`, `last_name`) VALUES (1, 'Tom', 18, 'Jerry')''"

definition select_sql :: string where
  "select_sql = ''SELECT `id`, `first_name`,`age`, `last_name` FROM `test_model` LIMIT 1''"

definition update_sql :: string where
  "update_sql = ''UPDATE `test_model` SET `first_name` = 'changed' WHERE `id` = ?''"

subsection \<open>The suite\<close>

record sqlTestSuite =
  driver :: string
  dsn :: string

text \<open>The suite after its set-up.\<close>

record 'db ready_suite = sqlTestSuite +
  db :: 'db

definition SetupSuite :: "('w, 'db, 'e, 'r) sql_driver \<Rightarrow> sqlTestSuite \<Rightarrow> ('w, 'e, 'db ready_suite) test_body" where
  "SetupSuite drv s =
     and_next (or_fatal (sql_Open drv (driver s) (dsn s))) (\<lambda>h.
     and_next (or_fatal (ExecContext drv h create_sql [])) (\<lambda>_.
     go_on \<lparr>driver = driver s, dsn = dsn s, db = h\<rparr>))"

definition TearDownTest :: "('w, 'db, 'e, 'r) sql_driver \<Rightarrow> 'db ready_suite \<Rightarrow> ('w, 'e, unit) test_body" where
  "TearDownTest drv s = and_next (or_fatal (ExecContext drv (db s) delete_sql [])) (\<lambda>_. go_on ())"

text \<open>A statement that must change exactly one row: \<open>err\<close> is nil where \<open>affected\<close> is compared.\<close>

definition change_one :: "('w, 'db, 'e, 'r) sql_driver \<Rightarrow> 'db \<Rightarrow> string \<Rightarrow> int list \<Rightarrow> ('w, 'e, unit) test_body" where
  "change_one drv h query args =
     and_next (or_fatal (ExecContext drv h query args)) (\<lambda>res.
     case res of Inl err \<Rightarrow> fatal [Some err] | Inr affected \<Rightarrow>
     if affected \<noteq> 1 then fatal [None] else go_on ())"

fun each_row :: "('w, 'db, 'e, 'r) sql_driver \<Rightarrow> 'r list \<Rightarrow> ('w, 'e, unit) test_body" where
  "each_row drv [] = go_on ()"
| "each_row drv (row # rows) =
     (case ScanRow drv row TestModel_zero of
        (Some err, tm) \<Rightarrow> fatal [Some err]
      | (None, tm) \<Rightarrow> and_next (assert_Equal ''Tom'' (FirstName tm)) (\<lambda>_. each_row drv rows))"

text \<open>\<open>QueryRowContext\<close> keeps the error of its query; \<open>Scan\<close> reads the first row.\<close>

definition scan_first :: "('w, 'db, 'e, 'r) sql_driver \<Rightarrow> 'r list \<Rightarrow> TestModel \<Rightarrow> 'e option \<times> TestModel" where
  "scan_first drv rows tm = (case rows of [] \<Rightarrow> (Some (ErrNoRows drv), tm) | row # _ \<Rightarrow> ScanRow drv row tm)"

definition TestCRUD :: "('w, 'db, 'e, 'r) sql_driver \<Rightarrow> ('w, 'e, unit) test_body" where
  "TestCRUD drv =
     and_next (or_fatal (sql_Open drv ''sqlite3'' ''file:test.db?cache=shared&mode=memory'')) (\<lambda>h.
     and_next (change_one drv h insert_sql []) (\<lambda>_.
     and_next (on_driver (QueryContext drv h select_sql) (\<lambda>err. [])) (\<lambda>rows.
     and_next (each_row drv rows) (\<lambda>_.
     and_next (change_one drv h update_sql [1]) (\<lambda>_.
     and_next (or_fatal (QueryContext drv h select_sql)) (\<lambda>rows.
     case scan_first drv rows TestModel_zero of
       (Some err, tm) \<Rightarrow> fatal [Some err]
     | (None, tm) \<Rightarrow> assert_Equal ''changed'' (FirstName tm)))))))"

text \<open>\<open>suite.Run\<close>: the set-up, and then the test with its clean-up, which follows an ended test too.\<close>

definition TestSQLite :: "('w, 'db, 'e, 'r) sql_driver \<Rightarrow> ('w, 'e) t_state \<Rightarrow> ('w, 'e) t_state" where
  "TestSQLite drv t =
     (case SetupSuite drv \<lparr>driver = ''sqlite3'', dsn = ''file:test.db?cache=shared&mode=memory''\<rparr> t of
        (None, t) \<Rightarrow> t
      | (Some s, t) \<Rightarrow> snd (TearDownTest drv s (snd (TestCRUD drv t))))"

subsection \<open>A driver with the table\<close>

text \<open>
  What the suite needs of the driver: handles of the shared database see the same table \<open>tab\<close>, which may
  not exist yet, and the five statements do to it what they say. The primary key refuses a second row.
\<close>

type_synonym table = "(int \<times> string \<times> int \<times> string) list"

definition tom :: "string \<Rightarrow> int \<times> string \<times> int \<times> string" where
  "tom first = (1, first, 18, ''Jerry'')"

definition executes ::
  "('w, 'db, 'e, 'r) sql_driver \<Rightarrow> ('w \<Rightarrow> table option) \<Rightarrow> string \<Rightarrow> int list \<Rightarrow> table option \<Rightarrow> table \<Rightarrow> int \<Rightarrow> bool" where
  "executes drv tab query args t t' n \<longleftrightarrow>
     (\<forall>h w. tab w = t \<longrightarrow> (\<exists>w'. ExecContext drv h query args w = (Inr (Inr n), w') \<and> tab w' = Some t'))"

definition table_driver :: "('w, 'db, 'e, 'r) sql_driver \<Rightarrow> ('w \<Rightarrow> table option) \<Rightarrow> bool" where
  "table_driver drv tab \<longleftrightarrow>
     (\<forall>d n w. \<exists>h w'. sql_Open drv d n w = (Inr h, w') \<and> tab w' = tab w) \<and>
     executes drv tab create_sql [] None [] 0 \<and> (\<forall>t. executes drv tab create_sql [] (Some t) t 0) \<and>
     (\<forall>t. executes drv tab delete_sql [] (Some t) [] (int (length t))) \<and>
     executes drv tab insert_sql [] (Some []) [tom ''Tom''] 1 \<and>
     (\<forall>h first w. tab w = Some [tom first] \<longrightarrow>
        (\<exists>err w'. ExecContext drv h insert_sql [] w = (Inl err, w') \<and> tab w' = tab w)) \<and>
     (\<forall>first. executes drv tab update_sql [1] (Some [tom first]) [tom ''changed''] 1) \<and>
     (\<forall>h first w. tab w = Some [tom first] \<longrightarrow>
        (\<exists>row w'. QueryContext drv h select_sql w = (Inr [row], w') \<and> tab w' = tab w \<and>
           ScanRow drv row TestModel_zero =
             (None, \<lparr>Id = 1, FirstName = first, Age = 18, LastName = Some (Some ''Jerry'')\<rparr>)))"

lemma table_opens:
  assumes "table_driver drv tab"
  obtains h w' where "sql_Open drv d n w = (Inr h, w')" and "tab w' = tab w"
  using assms unfolding table_driver_def by meson

lemma table_selects:
  assumes "table_driver drv tab" and "tab w = Some [tom first]"
  obtains row w' where "QueryContext drv h select_sql w = (Inr [row], w')" and "tab w' = tab w"
    and "ScanRow drv row TestModel_zero =
      (None, \<lparr>Id = 1, FirstName = first, Age = 18, LastName = Some (Some ''Jerry'')\<rparr>)"
  using assms unfolding table_driver_def by meson

lemma table_refuses:
  assumes "table_driver drv tab" and "tab w = Some [tom first]"
  obtains err w' where "ExecContext drv h insert_sql [] w = (Inl err, w')" and "tab w' = tab w"
  using assms unfolding table_driver_def by meson

lemma table_changes:
  assumes "table_driver drv tab"
  shows "executes drv tab insert_sql [] (Some []) [tom ''Tom''] 1"
    and "executes drv tab update_sql [1] (Some [tom first]) [tom ''changed''] 1"
  using assms unfolding table_driver_def by simp_all

lemma on_driver_step: "f (world s) = (Inr a, w) \<Longrightarrow> on_driver f told s = (Some a, s\<lparr>world := w\<rparr>)"
  by (simp add: on_driver_def)

lemma executes_step:
  assumes "executes drv tab query args t t' n" and "tab (world s) = t"
  obtains w where "or_fatal (ExecContext drv h query args) s = (Some (Inr n), s\<lparr>world := w\<rparr>)" and "tab w = Some t'"
  using assms on_driver_step [of "ExecContext drv h query args" s] unfolding executes_def by blast

lemma change_one_step:
  assumes "executes drv tab query args t t' 1" and "tab (world s) = t"
  obtains w where "change_one drv h query args s = (Some (), s\<lparr>world := w\<rparr>)" and "tab w = Some t'"
proof -
  obtain w where w: "tab w = Some t'"
    and run: "or_fatal (ExecContext drv h query args) s = (Some (Inr 1), s\<lparr>world := w\<rparr>)"
    using executes_step [OF assms] by blast
  with that [of w] show thesis by (simp add: change_one_def and_next_def run go_on_def)
qed

text \<open>Set-up, test and clean-up, each from the table the one before leaves.\<close>

lemma SetupSuite_ready:
  assumes "table_driver drv tab" and "tab (world t) = None \<or> tab (world t) = Some []"
  obtains h w where "SetupSuite drv s t = (Some \<lparr>driver = driver s, dsn = dsn s, db = h\<rparr>, t\<lparr>world := w\<rparr>)"
    and "tab w = Some []"
proof -
  obtain h w where o: "sql_Open drv (driver s) (dsn s) (world t) = (Inr h, w)" "tab w = tab (world t)"
    using table_opens [OF assms(1)] by metis
  have opened: "or_fatal (sql_Open drv (driver s) (dsn s)) t = (Some h, t\<lparr>world := w\<rparr>)"
    using o(1) by (simp add: on_driver_def)
  have "executes drv tab create_sql [] (tab w) [] 0"
    using assms o(2) by (auto simp: table_driver_def)
  from executes_step [OF this, of "t\<lparr>world := w\<rparr>" h] obtain w' where "tab w' = Some []"
    and create: "or_fatal (ExecContext drv h create_sql []) (t\<lparr>world := w\<rparr>) = (Some (Inr 0), t\<lparr>world := w'\<rparr>)"
    by auto
  with that [of h w'] show thesis
    by (simp add: SetupSuite_def and_next_def opened create go_on_def)
qed

lemma TearDownTest_empties:
  assumes "table_driver drv tab" and "tab (world t) = Some tb"
  obtains w where "TearDownTest drv s t = (Some (), t\<lparr>world := w\<rparr>)" and "tab w = Some []"
proof -
  have "executes drv tab delete_sql [] (Some tb) [] (int (length tb))"
    using assms(1) by (simp add: table_driver_def)
  from executes_step [OF this assms(2), of "db s"] obtain w where w: "tab w = Some []"
    and run: "or_fatal (ExecContext drv (db s) delete_sql []) t = (Some (Inr (int (length tb))), t\<lparr>world := w\<rparr>)"
    by blast
  with that [of w] show thesis by (simp add: TearDownTest_def and_next_def run go_on_def)
qed

lemma TestCRUD_passes:
  assumes "table_driver drv tab" and "tab (world t) = Some []"
  obtains w where "TestCRUD drv t = (Some (), t\<lparr>world := w\<rparr>)" and "tab w = Some [tom ''changed'']"
proof -
  let ?dsn = "''file:test.db?cache=shared&mode=memory''"
  obtain h w1 where o: "sql_Open drv ''sqlite3'' ?dsn (world t) = (Inr h, w1)" and w1: "tab w1 = Some []"
    using table_opens [OF assms(1), of "''sqlite3''" ?dsn "world t"] assms(2) by metis
  obtain w2 where w2: "tab w2 = Some [tom ''Tom'']"
    and insert: "change_one drv h insert_sql [] (t\<lparr>world := w1\<rparr>) = (Some (), t\<lparr>world := w2\<rparr>)"
    using change_one_step [OF table_changes(1) [OF assms(1)], of "t\<lparr>world := w1\<rparr>" h] w1 by auto
  obtain row1 w3 where q1: "QueryContext drv h select_sql w2 = (Inr [row1], w3)" and w3: "tab w3 = tab w2"
    and scan1: "ScanRow drv row1 TestModel_zero =
      (None, \<lparr>Id = 1, FirstName = ''Tom'', Age = 18, LastName = Some (Some ''Jerry'')\<rparr>)"
    by (rule table_selects [OF assms(1) w2])
  obtain w4 where w4: "tab w4 = Some [tom ''changed'']"
    and update: "change_one drv h update_sql [1] (t\<lparr>world := w3\<rparr>) = (Some (), t\<lparr>world := w4\<rparr>)"
    using change_one_step [OF table_changes(2) [OF assms(1)], of "t\<lparr>world := w3\<rparr>" "''Tom''" h] w2 w3 by auto
  obtain row2 w5 where q2: "QueryContext drv h select_sql w4 = (Inr [row2], w5)" and w5: "tab w5 = tab w4"
    and scan2: "ScanRow drv row2 TestModel_zero =
      (None, \<lparr>Id = 1, FirstName = ''changed'', Age = 18, LastName = Some (Some ''Jerry'')\<rparr>)"
    by (rule table_selects [OF assms(1) w4])
  have opened: "or_fatal (sql_Open drv ''sqlite3'' ?dsn) t = (Some h, t\<lparr>world := w1\<rparr>)"
    using o by (simp add: on_driver_def)
  have query: "on_driver (QueryContext drv h select_sql) told (t\<lparr>world := w2\<rparr>) = (Some [row1], t\<lparr>world := w3\<rparr>)"
    "on_driver (QueryContext drv h select_sql) told (t\<lparr>world := w4\<rparr>) = (Some [row2], t\<lparr>world := w5\<rparr>)" for told
    using q1 q2 by (simp_all add: on_driver_def)
  have rows: "each_row drv [row1] s = (Some (), s)" for s :: "('a, 'c) t_state"
    by (simp add: scan1 and_next_def assert_Equal_def go_on_def)
  have "TestCRUD drv t = (Some (), t\<lparr>world := w5\<rparr>)"
    unfolding TestCRUD_def
    by (simp add: and_next_def opened insert query rows update scan_first_def scan2 assert_Equal_def
        del: each_row.simps)
  with w4 w5 that show thesis by simp
qed

subsection \<open>Properties\<close>

text \<open>
  The suite passes, from a database without the table or with an empty one, and leaves an empty table: it
  can be run again, any number of times.
\<close>

theorem TestSQLite_passes:
  assumes "table_driver drv tab" and "tab (world t) = None \<or> tab (world t) = Some []"
  shows "reports (TestSQLite drv t) = reports t \<and> tab (world (TestSQLite drv t)) = Some []"
proof -
  obtain h w where ready: "SetupSuite drv \<lparr>driver = ''sqlite3'', dsn = ''file:test.db?cache=shared&mode=memory''\<rparr> t =
      (Some \<lparr>driver = ''sqlite3'', dsn = ''file:test.db?cache=shared&mode=memory'', db = h\<rparr>, t\<lparr>world := w\<rparr>)"
    and w: "tab w = Some []"
    using SetupSuite_ready [OF assms, of "\<lparr>driver = ''sqlite3'', dsn = ''file:test.db?cache=shared&mode=memory''\<rparr>"]
    by auto
  obtain w' where crud: "TestCRUD drv (t\<lparr>world := w\<rparr>) = (Some (), t\<lparr>world := w'\<rparr>)"
    and w': "tab w' = Some [tom ''changed'']"
    using TestCRUD_passes [OF assms(1), of "t\<lparr>world := w\<rparr>"] w by auto
  obtain w'' where "TearDownTest drv \<lparr>driver = ''sqlite3'', dsn = ''file:test.db?cache=shared&mode=memory'', db = h\<rparr>
      (t\<lparr>world := w'\<rparr>) = (Some (), t\<lparr>world := w''\<rparr>)" and "tab w'' = Some []"
    using TearDownTest_empties [OF assms(1), of "t\<lparr>world := w'\<rparr>"] w' by auto
  then show ?thesis by (simp add: TestSQLite_def ready crud)
qed

theorem TestSQLite_repeatable:
  assumes "table_driver drv tab" and "tab (world t) = None"
  shows "reports ((TestSQLite drv ^^ n) t) = reports t \<and>
    tab (world ((TestSQLite drv ^^ n) t)) = (if n = 0 then None else Some [])"
  using assms by (induction n) (auto simp: TestSQLite_passes split: if_splits)

text \<open>Without the clean-up the test cannot be run again: its first statement is refused and ends it.\<close>

theorem TestCRUD_needs_TearDownTest:
  assumes "table_driver drv tab" and "tab (world t) = Some []"
  shows "\<exists>err t'. TestCRUD drv (snd (TestCRUD drv t)) = (None, t') \<and> reports t' = reports t @ [Fatal [Some err]] \<and>
    tab (world t') = Some [tom ''changed'']"
proof -
  obtain w where crud: "TestCRUD drv t = (Some (), t\<lparr>world := w\<rparr>)" and w: "tab w = Some [tom ''changed'']"
    using TestCRUD_passes [OF assms] by blast
  obtain h w1 where o: "sql_Open drv ''sqlite3'' ''file:test.db?cache=shared&mode=memory'' w = (Inr h, w1)"
    and w1: "tab w1 = tab w"
    by (rule table_opens [OF assms(1)])
  obtain err w2 where "ExecContext drv h insert_sql [] w1 = (Inl err, w2)" and w2: "tab w2 = tab w1"
    using table_refuses [OF assms(1), of w1 "''changed''" h] w w1 by metis
  then have "TestCRUD drv (t\<lparr>world := w\<rparr>) = (None, t\<lparr>world := w2, reports := reports t @ [Fatal [Some err]]\<rparr>)"
    by (simp add: TestCRUD_def change_one_def and_next_def on_driver_def o fatal_def)
  with w w1 w2 show ?thesis by (simp add: crud)
qed

subsection \<open>A table in memory\<close>

text \<open>A driver with one table, which knows the statements of the suite.\<close>

definition mem_Exec :: "string \<Rightarrow> int list \<Rightarrow> table option \<Rightarrow> (string, (string, int) result) result \<times> table option" where
  "mem_Exec query args tb =
     (case tb of
        None \<Rightarrow> if query = create_sql then (Inr (Inr 0), Some []) else (Inl ''no such table'', tb)
      | Some rows \<Rightarrow>
          if query = create_sql then (Inr (Inr 0), tb)
          else if query = delete_sql then (Inr (Inr (int (length rows))), Some [])
          else if query = insert_sql then
            (if 1 \<in> fst ` set rows then (Inl ''UNIQUE constraint failed'', tb) else (Inr (Inr 1), Some (rows @ [tom ''Tom''])))
          else if query = update_sql then
            (Inr (Inr (int (length (filter (\<lambda>r. args = [fst r]) rows)))),
             Some (map (\<lambda>(i, f, a, l). (i, if args = [i] then ''changed'' else f, a, l)) rows))
          else (Inl ''syntax error'', tb))"

definition mem_Query :: "string \<Rightarrow> table option \<Rightarrow> (string, table) result \<times> table option" where
  "mem_Query query tb =
     (case tb of
        None \<Rightarrow> (Inl ''no such table'', tb)
      | Some rows \<Rightarrow> if query = select_sql then (Inr (take 1 rows), tb) else (Inl ''syntax error'', tb))"

definition mem_driver :: "(table option, unit, string, int \<times> string \<times> int \<times> string) sql_driver" where
  "mem_driver = \<lparr>sql_Open = (\<lambda>d n w. (Inr (), w)), ExecContext = (\<lambda>h. mem_Exec), QueryContext = (\<lambda>h. mem_Query),
     ScanRow = (\<lambda>(i, f, a, l) tm. (None, \<lparr>Id = i, FirstName = f, Age = a, LastName = Some (Some l)\<rparr>)),
     ErrNoRows = ''no rows''\<rparr>"

lemma statements_differ [simp]:
  "delete_sql \<noteq> create_sql" "insert_sql \<noteq> create_sql" "insert_sql \<noteq> delete_sql" "update_sql \<noteq> create_sql"
  "update_sql \<noteq> delete_sql" "update_sql \<noteq> insert_sql"
  by (simp_all add: delete_sql_def create_sql_def insert_sql_def update_sql_def)

lemma mem_driver_table: "table_driver mem_driver (\<lambda>w. w)"
  by (simp add: table_driver_def executes_def mem_driver_def mem_Exec_def mem_Query_def tom_def)

theorem TestSQLite_repeatable_witness:
  "reports ((TestSQLite mem_driver ^^ 2) \<lparr>world = None, reports = []\<rparr>) = []"
  using TestSQLite_repeatable [OF mem_driver_table, of "\<lparr>world = None, reports = []\<rparr>" 2] by simp

theorem TestCRUD_needs_TearDownTest_witness:
  "\<exists>err. reports (snd (TestCRUD mem_driver (snd (TestCRUD mem_driver \<lparr>world = Some [], reports = []\<rparr>)))) = [Fatal [Some err]]"
  using TestCRUD_needs_TearDownTest [OF mem_driver_table, of "\<lparr>world = Some [], reports = []\<rparr>"] by force

end
