(* ===== verification/Orm_Roundtrip.thy ===== *)
theory Orm_Roundtrip
  imports Orm_Tx
begin

text \<open>
  What an \<open>Inserter\<close> writes is what a \<open>Selector\<close> reads: the model registry, the builder of \<open>INSERT\<close>, the
  handler of \<open>Get\<close> and the valuers of \<open>homework_subquery\<close> put together, over a database that gives back
  the row it was sent, with its columns in any order.
\<close>

subsection \<open>The model of a parsed struct\<close>

lemma parse_fields_offsets:
  "parse_fields i fds m = Inr m' \<Longrightarrow> map Offset (Fields m') = map Offset (Fields m) @ map sf_Offset fds"
  by (induction fds arbitrary: i m) (auto simp: bind_result_Inr_iff Let_def)

lemma parseModel_model_of:
  assumes "types (v_type val) = StructPtr name sfs" and "distinct (map sf_Name sfs)"
    and "parseModel types val = Inr m"
  shows "model_of sfs m"
proof -
  from assms(1,3) have "map Offset (Fields m) = map sf_Offset sfs"
    by (auto simp: parseModel_def bind_result_Inr_iff Let_def dest: parse_fields_offsets)
  moreover from assms(1,3) obtain m1 where
    "parse_fields 0 sfs \<lparr>TableName = [], Fields = [], FieldMap = Map.empty, ColumnMap = Map.empty\<rparr> = Inr m1"
    and m: "\<exists>t. m = m1\<lparr>TableName := t\<rparr>"
    by (auto simp: parseModel_def bind_result_Inr_iff Let_def)
  then have "map GoName (Fields m) = map sf_Name sfs \<and> fields_found m \<and> columns_found m"
    using parse_fields_found [of 0 sfs _ m1] assms(2) by (auto simp: fields_found_def columns_found_def)
  ultimately show ?thesis using assms(2) by (simp add: model_of_def)
qed

text \<open>When no two fields share a column, the model has as many columns as fields.\<close>

lemma dom_ColumnMap:
  assumes "columns_found m"
  shows "dom (ColumnMap m) = set (map ColName (Fields m))"
proof -
  have "c \<in> set (map ColName (Fields m))" if "ColumnMap m c = Some i" for c i
    using assms that unfolding columns_found_def by (metis length_map nth_map nth_mem)
  moreover have "ColumnMap m c \<noteq> None" if "c \<in> set (map ColName (Fields m))" for c
    using assms that by (auto simp: columns_found_def in_set_conv_nth)
  ultimately show ?thesis by blast
qed

lemma dom_FieldMap:
  assumes "fields_found m"
  shows "dom (FieldMap m) = set (map GoName (Fields m))"
proof -
  have "FieldMap m g \<noteq> None \<longleftrightarrow> g \<in> set (map GoName (Fields m))" for g
    using assms by (auto simp: fields_found_def in_set_conv_nth intro!: imageI nth_mem)
  then show ?thesis by blast
qed

lemma column_position:
  assumes "columns_found m" and "distinct (map ColName (Fields m))" and "i < length (Fields m)"
  shows "ColumnMap m (ColName (Fields m ! i)) = Some i"
proof -
  obtain j where "ColumnMap m (ColName (Fields m ! i)) = Some j"
    using assms(1,3) by (auto simp: columns_found_def)
  moreover from this have "j < length (Fields m)" "ColName (Fields m ! j) = ColName (Fields m ! i)"
    using assms(1) by (auto simp: columns_found_def)
  then have "j = i" using assms(2,3) nth_eq_iff_index_eq [of "map ColName (Fields m)" j i] by simp
  ultimately show ?thesis by simp
qed

lemma column_fields_of_columns:
  assumes "columns_found m" and "distinct (map ColName (Fields m))" and "set fds \<subseteq> set (Fields m)"
  shows "column_fields m (map ColName fds) = Inr fds"
  using assms(3)
proof (induction fds)
  case (Cons fd fds)
  then obtain i where "i < length (Fields m)" "fd = Fields m ! i" by (auto simp: in_set_conv_nth)
  with Cons column_position [OF assms(1,2), of i] show ?case by simp
qed simp

lemma pick_fields_found:
  "pick_fields m cols = Inr fds \<Longrightarrow> fields_found m \<Longrightarrow> map GoName fds = cols \<and> set fds \<subseteq> set (Fields m)"
  by (induction cols arbitrary: fds)
    (auto simp: bind_result_Inr_iff fields_found_def split: option.splits)

lemma insert_fields_found:
  assumes "insert_fields m cols = Inr fds" and "model_of sfs m" and "distinct cols"
  shows "set fds \<subseteq> set (Fields m)" and "distinct (map GoName fds)"
proof -
  have "fields_found m" "distinct (map GoName (Fields m))" using assms(2) by (simp_all add: model_of_def)
  then show "set fds \<subseteq> set (Fields m)" "distinct (map GoName fds)"
    using assms(1,3) pick_fields_found [of m cols fds] by (auto simp: insert_fields_def split: if_splits)
qed

subsection \<open>Scanning a row\<close>

text \<open>
  A row of a database: its values by column, read with the columns \<open>cs\<close>. A conversion writes the value over
  what the field held.
\<close>

definition row_of :: "(string \<Rightarrow> 'x val option) \<Rightarrow> string list \<Rightarrow> 'x val rows" where
  "row_of row cs = \<lparr>r_columns = Inr cs, r_scan_error = None,
     r_value = (\<lambda>i t old. case row (cs ! i) of None \<Rightarrow> (Inl (ErrDriver ''no value''), old) | Some v \<Rightarrow> (Inr (), v))\<rparr>"

lemma blind_row_of: "blind zero (r_value (row_of row cs))"
  by (simp add: blind_def row_of_def split: option.split)

lemma scan_from_values:
  assumes "\<And>j t old. j < length fds \<Longrightarrow> conv (i + j) t old = (Inr (), f (fds ! j))" and "distinct (map Offset fds)"
  shows "\<exists>mem'. scan_from conv i (map (\<lambda>fd. (Offset fd, Type fd)) fds) mem = (Inr (), mem') \<and>
    (\<forall>fd \<in> set fds. mem' (Offset fd) = f fd) \<and> (\<forall>a. a \<notin> Offset ` set fds \<longrightarrow> mem' a = mem a)"
  using assms
proof (induction fds arbitrary: i mem)
  case (Cons fd fds)
  have "conv (i + 1 + j) t old = (Inr (), f (fds ! j))" if "j < length fds" for j t old
    using Cons.prems(1) [of "Suc j" t] that by simp
  moreover have "distinct (map Offset fds)" using Cons.prems(2) by simp
  ultimately obtain mem' where
    "scan_from conv (i + 1) (map (\<lambda>fd. (Offset fd, Type fd)) fds) (mem(Offset fd := f fd)) = (Inr (), mem')"
    "\<forall>fd \<in> set fds. mem' (Offset fd) = f fd"
    "\<forall>a. a \<notin> Offset ` set fds \<longrightarrow> mem' a = (mem(Offset fd := f fd)) a"
    using Cons.IH [of "i + 1"] by blast
  moreover have "conv i (Type fd) old = (Inr (), f fd)" for old using Cons.prems(1) [of 0 "Type fd"] by simp
  ultimately show ?case using Cons.prems(2) by auto
qed simp

text \<open>
  The database's row has a value for each column, read into the fields of these columns.
\<close>

lemma unsafe_SetColumns_row:
  assumes "columns_found m" and "distinct (map ColName (Fields m))" and "distinct (map Offset (Fields m))"
    and "set fds \<subseteq> set (Fields m)" and "distinct fds"
    and "\<And>fd. fd \<in> set fds \<Longrightarrow> row (ColName fd) = Some (f fd)"
  shows "\<exists>mem'. unsafe_SetColumns m (row_of row (map ColName fds)) mem = (Inr (), mem') \<and>
    (\<forall>fd \<in> set fds. mem' (Offset fd) = f fd) \<and> (\<forall>a. a \<notin> Offset ` set fds \<longrightarrow> mem' a = mem a)"
proof -
  have inj: "inj_on ColName (set (Fields m))" "inj_on Offset (set (Fields m))"
    using assms(2,3) by (simp_all add: distinct_map)
  have "length fds = card (ColName ` set fds)"
    using assms(4,5) inj(1) by (simp add: card_image distinct_card inj_on_subset)
  also have "\<dots> \<le> card (dom (ColumnMap m))"
    using assms(4) by (auto simp: dom_ColumnMap [OF assms(1)] intro!: card_mono)
  finally have few: "\<not> length (map ColName fds) > card (dom (ColumnMap m))" by simp
  let ?conv = "r_value (row_of row (map ColName fds))"
  have "?conv (0 + j) t old = (Inr (), f (fds ! j))" if "j < length fds" for j t old
    using assms(6) [of "fds ! j"] that by (simp add: row_of_def)
  moreover have "distinct (map Offset fds)"
    using assms(4,5) inj(2) by (simp add: distinct_map inj_on_subset)
  ultimately obtain mem' where
    "scan_from ?conv 0 (map (\<lambda>fd. (Offset fd, Type fd)) fds) mem = (Inr (), mem')"
    "\<forall>fd \<in> set fds. mem' (Offset fd) = f fd" "\<forall>a. a \<notin> Offset ` set fds \<longrightarrow> mem' a = mem a"
    using scan_from_values [of fds ?conv 0 f mem] by blast
  moreover have "r_columns (row_of row (map ColName fds)) = Inr (map ColName fds)"
    "r_scan_error (row_of row (map ColName fds)) = None"
    by (simp_all add: row_of_def)
  ultimately show ?thesis
    using few by (simp add: unsafe_SetColumns_def Scan_def column_fields_of_columns [OF assms(1,2,4)])
qed

subsection \<open>Inserting and getting\<close>

text \<open>The \<open>Inserter\<close> of one value over the core of a database.\<close>

definition insert_one :: "('w, 'x) core \<Rightarrow> string list \<Rightarrow> 'x row_val \<Rightarrow> 'x inserter" where
  "insert_one c cols v = Columns cols (Values [v] (NewInserter (co_r c) (co_dialect c) (co_field c)))"

lemma insert_one_Build:
  assumes "co_r c (rv_go v) = Inr m" and "insert_fields m cols = Inr fds"
    and "\<And>fd. fd \<in> set fds \<Longrightarrow> co_field c m v (GoName fd) = Inr (f fd)"
  shows "\<exists>sql. fst (Inserter_Build bq (insert_one c cols v) h) = Inr (sql, map f fds)"
  using Inserter_Build_writes [of "insert_one c cols v" v "[]" m fds "[]" "\<lambda>_. f" bq h] assms
  by (simp add: upsert_columns_def insert_one_def Values_def Columns_def NewInserter_def Let_def)

lemma inserted_read_back:
  assumes struct: "types (v_type (rv_go v)) = StructPtr name sfs" "parseModel types (rv_go v) = Inr m"
      "distinct (map sf_Name sfs)" "distinct (map sf_Offset sfs)" "distinct (map ColName (Fields m))"
      "\<forall>sf \<in> set sfs. exported sf"
    and core: "c = OpenDB (parseModel types) opts" "opts = [] \<or> opts = [DBUseReflectValuer types zero]"
    and insert: "insert_fields m cols = Inr fds" "distinct cols"
      "fst (Inserter_Build bq (insert_one c cols v) hp) = Inr (isql, args)"
    and select: "Build n sid (w_heap w) = (Inr q, h)" "rv_go new = rv_go v"
      "set got \<subseteq> set fds" "distinct got"
      "answer q = Inr \<lparr>rs_next = True, rs_rows = row_of (map_of (zip (map ColName fds) args)) (map ColName got)\<rparr>"
  shows "\<exists>mem. fst (Selector_Get n new c (db_session answer effect) sid w) = Some (Some mem, None) \<and>
    (\<forall>gname. co_field c m \<lparr>rv_go = rv_go v, rv_struct = mem\<rparr> gname =
      (if gname \<in> GoName ` set got then co_field c m v gname else co_field c m new gname))"
proof -
  let ?f = "\<lambda>fd. rv_struct v (Offset fd)" and ?row = "map_of (zip (map ColName fds) args)"
  have mo: "model_of sfs m" by (rule parseModel_model_of [OF struct(1,3,2)])
  note found = mo [unfolded model_of_def]
  have fds: "set fds \<subseteq> set (Fields m)" "distinct (map GoName fds)"
    using insert_fields_found [OF insert(1) mo insert(2)] .
  have offs: "distinct (map Offset (Fields m))" using found struct(4) by metis
  have types: "type_fields types (rv_go v) = sfs" using struct(1) by (simp add: type_fields_def)
  have field: "co_field c m u g = unsafe_Field m (rv_struct u) g" if "rv_go u = rv_go v" for u g
    using core Field_agree [OF mo struct(6)] that types by (auto simp: OpenDB_def DBUseReflectValuer_def)
  have pos: "\<exists>i. FieldMap m (GoName fd) = Some i \<and> Fields m ! i = fd" if "fd \<in> set (Fields m)" for fd
    using that found by (auto simp: fields_found_def in_set_conv_nth)
  have get: "unsafe_Field m mem (GoName fd) = Inr (mem (Offset fd))" if "fd \<in> set (Fields m)" for mem :: "'a val struct_mem" and fd
    using pos [OF that] by (auto simp: unsafe_Field_def)
  have parts: "co_r c (rv_go v) = Inr m" "co_r c (rv_go new) = Inr m" "co_ms c = []"
    using core struct(2) select(2) by (auto simp: OpenDB_def DBUseReflectValuer_def)
  have "co_field c m v (GoName fd) = Inr (?f fd)" if "fd \<in> set fds" for fd
    using field [of v] get fds(1) that by auto
  then have args: "args = map ?f fds"
    using insert_one_Build [OF parts(1) insert(1), of ?f bq hp] insert(3) by auto
  have got: "set got \<subseteq> set (Fields m)" using select(3) fds(1) by blast
  have "distinct (map ColName fds)"
    using fds struct(5) by (simp add: distinct_map) (meson inj_on_subset)
  then have row: "?row (ColName fd) = Some (?f fd)" if "fd \<in> set got" for fd
    using that select(3) by (auto simp: args zip_map_map zip_same_conv_map comp_def)
  obtain mem where mem: "unsafe_SetColumns m (row_of ?row (map ColName got)) (rv_struct new) = (Inr (), mem)"
    "\<And>fd. fd \<in> set got \<Longrightarrow> mem (Offset fd) = ?f fd" "\<And>a. a \<notin> Offset ` set got \<Longrightarrow> mem a = rv_struct new a"
    using unsafe_SetColumns_row [OF _ struct(5) offs got select(4), of ?row ?f "rv_struct new"] row found by auto
  have "card (dom (ColumnMap m)) = card (dom (FieldMap m))"
    using found struct(5) distinct_card [of "map ColName (Fields m)"] distinct_card [of "map GoName (Fields m)"]
      map_eq_imp_length_eq [of GoName "Fields m" sf_Name sfs]
    by (simp add: dom_ColumnMap dom_FieldMap)
  with mem(1) core types select(2)
    SetColumns_agree [OF mo struct(6) _ disjI1 [OF blind_row_of], of zero ?row "map ColName got" "rv_struct new"]
  have set: "co_setColumns c m (row_of ?row (map ColName got)) new = (Inr (), mem)"
    by (auto simp: OpenDB_def DBUseReflectValuer_def prod_eq_iff)
  have "fst (Selector_Get n new c (db_session answer effect) sid w) = Some (Some mem, None)"
    using Selector_Get_run [OF _ _ parts(3,2), of n sid w "fst q" "snd q" h answer] select(1,5) set by auto
  moreover have "co_field c m \<lparr>rv_go = rv_go v, rv_struct = mem\<rparr> g =
      (if g \<in> GoName ` set got then co_field c m v g else co_field c m new g)" for g
  proof (cases "FieldMap m g")
    case None
    then show ?thesis using field select(2) by (auto simp: unsafe_Field_def)
  next
    case (Some i)
    then have i: "Fields m ! i \<in> set (Fields m)" "GoName (Fields m ! i) = g"
      using found by (auto simp: fields_found_def)
    have "Fields m ! i \<in> set got \<longleftrightarrow> g \<in> GoName ` set got"
      using i got pos Some by (metis (no_types, lifting) imageE imageI option.inject subsetD)
    moreover have "Offset (Fields m ! i) \<in> Offset ` set got \<longleftrightarrow> Fields m ! i \<in> set got"
      using offs i(1) got by (auto simp: distinct_map dest: inj_onD)
    ultimately show ?thesis
      using get [OF i(1)] i(2) field [of v g] field [of new g] field [of "\<lparr>rv_go = rv_go v, rv_struct = mem\<rparr>" g]
        mem(2,3) select(2) by auto
  qed
  ultimately show ?thesis by blast
qed

subsection \<open>Properties\<close>

text \<open>
  Claim C32: what was inserted is read back. The struct has exported fields with columns and offsets of
  their own, the database was opened with the valuer by address or with the reflecting one, one value was
  inserted with the fields \<open>cols\<close> (all, when none is named), and the database answers a query by the row
  it was sent, read with some of its columns in any order. Then \<open>Get\<close> returns without an error a struct
  whose fields of these columns are those of the inserted value, and whose other fields are those of the
  new struct.
\<close>

theorem Insert_Get_roundtrip:
  assumes struct: "types (v_type (rv_go v)) = StructPtr name sfs" "parseModel types (rv_go v) = Inr m"
      "distinct (map sf_Name sfs)" "distinct (map sf_Offset sfs)" "distinct (map ColName (Fields m))"
      "\<forall>sf \<in> set sfs. exported sf"
    and core: "c = OpenDB (parseModel types) opts" "opts = [] \<or> opts = [DBUseReflectValuer types zero]"
    and insert: "insert_fields m cols = Inr fds" "distinct cols"
      "fst (Inserter_Build bq (insert_one c cols v) hp) = Inr (isql, args)"
    and select: "Build n sid (w_heap w) = (Inr q, h)" "rv_go new = rv_go v"
      "set got \<subseteq> set fds" "distinct got"
      "answer q = Inr \<lparr>rs_next = True, rs_rows = row_of (map_of (zip (map ColName fds) args)) (map ColName got)\<rparr>"
  shows "\<exists>mem. fst (Selector_Get n new c (db_session answer effect) sid w) = Some (Some mem, None) \<and>
    (\<forall>gname. co_field c m \<lparr>rv_go = rv_go v, rv_struct = mem\<rparr> gname =
      (if gname \<in> GoName ` set got then co_field c m v gname else co_field c m new gname))"
  using assms by (rule inserted_read_back)

subsection \<open>A user\<close>

definition user_db :: "(nat world, nat) core" where
  "user_db = OpenDB (parseModel user_types) [DBUseReflectValuer user_types (\<lambda>_. VInt 0)]"

text \<open>The table has one row, and its columns come in the other order.\<close>

definition stored_user :: "nat query \<Rightarrow> (orm_error, nat rowset) result" where
  "stored_user q = Inr \<lparr>rs_next = True,
     rs_rows = row_of (map_of [(''id'', VInt 1), (''first'', VInt 10)]) [''first'', ''id'']\<rparr>"

theorem Insert_Get_roundtrip_witness:
  "\<exists>mem. fst (Selector_Get 1 (user_row 0 0) user_db (db_session stored_user (\<lambda>_. Inr (0, 0))) 0 user_world) =
      Some (Some mem, None) \<and>
    co_field user_db user_model \<lparr>rv_go = user_val, rv_struct = mem\<rparr> ''Id'' = Inr (VInt 1) \<and>
    co_field user_db user_model \<lparr>rv_go = user_val, rv_struct = mem\<rparr> ''FirstName'' = Inr (VInt 10)"
proof -
  let ?fds = "Fields user_model" and ?v = "user_row 1 10"
  have v: "rv_go ?v = user_val" "rv_go (user_row 0 0) = rv_go ?v" by (simp_all add: user_row_def)
  have types: "user_types (v_type (rv_go ?v)) = StructPtr ''User'' user_fields"
    by (simp add: v user_types_def user_val_def user_fields_def)
  have struct: "distinct (map sf_Name user_fields)" "distinct (map sf_Offset user_fields)"
    "distinct (map ColName ?fds)" "\<forall>sf \<in> set user_fields. exported sf"
    by (simp_all add: user_fields_def user_model_def exported_def IsUpper_def)
  have parsed: "parseModel user_types (rv_go ?v) = Inr user_model" unfolding v by (rule user_parsed)
  have all: "insert_fields user_model [] = Inr ?fds" by (simp add: insert_fields_def)
  have field: "co_field user_db user_model ?v (GoName fd) = Inr (user_column ?v fd)" if "fd \<in> set ?fds" for fd
    using that types by (auto simp: user_db_def OpenDB_def DBUseReflectValuer_def type_fields_def user_model_def
        reflect_Field_def FieldByName_def user_fields_def exported_def IsUpper_def user_column_def)
  have "co_r user_db (rv_go ?v) = Inr user_model"
    using parsed by (simp add: user_db_def OpenDB_def DBUseReflectValuer_def)
  then obtain isql where ins: "fst (Inserter_Build (Build 0) (insert_one user_db [] ?v) (user_heap by_id)) =
      Inr (isql, map (user_column ?v) ?fds)"
    using insert_one_Build [OF _ all field] by blast
  obtain h where b: "Build 1 0 (w_heap user_world) = (Inr (''SELECT * FROM `user` WHERE `id` = ?;'', [VAny 7]), h)"
    using Build_by_id by (cases "Build 1 0 (user_heap by_id)") (auto simp: user_world_def)
  have answer: "stored_user (''SELECT * FROM `user` WHERE `id` = ?;'', [VAny 7]) = Inr \<lparr>rs_next = True,
      rs_rows = row_of (map_of (zip (map ColName ?fds) (map (user_column ?v) ?fds))) (map ColName (rev ?fds))\<rparr>"
    by (simp add: stored_user_def user_model_def user_column_def user_row_def)
  note roundtrip = Insert_Get_roundtrip [where types = user_types and v = ?v and m = user_model and c = user_db
      and got = "rev ?fds" and answer = stored_user and w = user_world and new = "user_row 0 0",
      OF types parsed struct user_db_def _ all _ ins b v(2) _ _ answer]
  from roundtrip [of "\<lambda>_. VInt 0" "\<lambda>_. Inr (0, 0)"]
  obtain mem where mem: "fst (Selector_Get 1 (user_row 0 0) user_db (db_session stored_user (\<lambda>_. Inr (0, 0))) 0 user_world) =
      Some (Some mem, None)" and get: "\<And>g. co_field user_db user_model \<lparr>rv_go = rv_go ?v, rv_struct = mem\<rparr> g =
      (if g \<in> GoName ` set (rev ?fds) then co_field user_db user_model ?v g else co_field user_db user_model (user_row 0 0) g)"
    by (auto simp: user_model_def)
  have "?fds = [?fds ! 0, ?fds ! 1]" "GoName (?fds ! 0) = ''Id''" "GoName (?fds ! 1) = ''FirstName''"
    by (simp_all add: user_model_def)
  then have "co_field user_db user_model ?v ''Id'' = Inr (VInt 1)"
    "co_field user_db user_model ?v ''FirstName'' = Inr (VInt 10)"
    using field [of "?fds ! 0"] field [of "?fds ! 1"]
    by (simp_all add: user_column_def user_row_def user_model_def)
  with mem get [of "''Id''"] get [of "''FirstName''"] show ?thesis
    unfolding v by (auto simp: user_model_def)
qed

end
