(* ===== verification/Orm_Fixture.thy ===== *)
theory Orm_Fixture
  imports Orm_Roundtrip
begin

text \<open>
  The struct of the tests of \<open>homework_select/internal/test\<close>, and of \<open>homework_subquery/internal/test\<close>, which
  has the same code: \<open>SimpleStruct\<close>, which has a field of every supported type, and \<open>NewSimpleStruct\<close>. Its
  layout in memory is that of the Go compiler on a 64-bit platform: every field starts at the next multiple
  of its type's alignment. The facts below are what the components ask of a struct, so their theorems hold
  of this one.
\<close>

subsection \<open>Layout\<close>

text \<open>A field is its name, its type, and the type's size and alignment.\<close>

fun layout :: "nat \<Rightarrow> (string \<times> nat \<times> nat \<times> nat) list \<Rightarrow> struct_field list" where
  "layout off [] = []"
| "layout off ((name, ty, sz, align) # fds) =
     (let o1 = (off + align - 1) div align * align in
      \<lparr>sf_Name = name, sf_Tag = [], sf_Type = ty, sf_Offset = o1\<rparr> # layout (o1 + sz) fds)"

lemma aligned_ge: "0 < a \<Longrightarrow> (off :: nat) \<le> (off + a - 1) div a * a"
proof -
  assume a: "0 < a"
  have "(off + a - 1) div a * a + (off + a - 1) mod a = off + a - 1" by simp
  moreover have "(off + a - 1) mod a < a" using a by simp
  ultimately show ?thesis using a by linarith
qed

lemma layout_increasing:
  assumes "\<forall>(name, ty, sz, align) \<in> set fds. 0 < sz \<and> 0 < align"
  shows "(\<forall>sf \<in> set (layout off fds). off \<le> sf_Offset sf) \<and> distinct (map sf_Offset (layout off fds))"
  using assms
proof (induction off fds rule: layout.induct)
  case (2 off name ty sz align fds)
  let ?o = "(off + align - 1) div align * align"
  from 2(2) have a: "0 < align" "0 < sz" and rest: "\<forall>(name, ty, sz, align) \<in> set fds. 0 < sz \<and> 0 < align"
    by auto
  note ge = aligned_ge [OF a(1), of off]
  from 2(1) [OF refl rest] ge a(2) show ?case by (fastforce simp: Let_def)
qed simp

lemma layout_fields [simp]:
  "map sf_Name (layout off fds) = map fst fds"
  "sf \<in> set (layout off fds) \<Longrightarrow> sf_Tag sf = []"
  by (induction off fds rule: layout.induct) (auto simp: Let_def)

subsection \<open>Structs without tags\<close>

lemma parse_fields_untagged:
  assumes "\<forall>fd \<in> set fds. sf_Tag fd = []"
  shows "\<exists>m'. parse_fields i fds m = Inr m' \<and>
    map ColName (Fields m') = map ColName (Fields m) @ map (underscoreName \<circ> sf_Name) fds"
  using assms
proof (induction fds arbitrary: i m)
  case (Cons fd fds)
  then have "\<forall>fd \<in> set fds. sf_Tag fd = []" "sf_Tag fd = []" by auto
  with Cons.IH show ?case by (fastforce simp: parseTag_def column_name_def Let_def)
qed simp

lemma underscore_names_distinct:
  assumes "distinct names" and "\<forall>s \<in> set names. s \<noteq> [] \<and> IsUpper (hd s) \<and> CHR ''_'' \<notin> set s"
  shows "distinct (map underscoreName names)"
  using assms camelName_underscoreName
  by (auto simp: distinct_map intro!: inj_on_inverseI [of _ camelName])

lemma parseModel_untagged:
  assumes "types (v_type val) = StructPtr name sfs" and "\<forall>sf \<in> set sfs. sf_Tag sf = []"
    and "distinct (map sf_Name sfs)"
    and "\<forall>s \<in> set (map sf_Name sfs). s \<noteq> [] \<and> IsUpper (hd s) \<and> CHR ''_'' \<notin> set s"
  obtains m where "parseModel types val = Inr m" and "map ColName (Fields m) = map (underscoreName \<circ> sf_Name) sfs"
    and "distinct (map ColName (Fields m))"
proof -
  obtain m where "parse_fields 0 sfs \<lparr>TableName = [], Fields = [], FieldMap = Map.empty, ColumnMap = Map.empty\<rparr> = Inr m"
    "map ColName (Fields m) = map (underscoreName \<circ> sf_Name) sfs"
    using parse_fields_untagged [OF assms(2)] by fastforce
  with that underscore_names_distinct [OF assms(3,4)] assms(1) show thesis
    by (auto simp: parseModel_def Let_def)
qed

subsection \<open>The struct\<close>

text \<open>Every type has a number; \<open>byte\<close> is \<open>uint8\<close>.\<close>

definition SimpleStruct :: "(string \<times> nat \<times> nat \<times> nat) list" where
  "SimpleStruct =
    [(''Id'', 1, 8, 8), (''Bool'', 2, 1, 1), (''BoolPtr'', 3, 8, 8),
     (''Int'', 4, 8, 8), (''IntPtr'', 5, 8, 8), (''Int8'', 6, 1, 1), (''Int8Ptr'', 7, 8, 8),
     (''Int16'', 8, 2, 2), (''Int16Ptr'', 9, 8, 8), (''Int32'', 10, 4, 4), (''Int32Ptr'', 11, 8, 8),
     (''Int64'', 12, 8, 8), (''Int64Ptr'', 13, 8, 8), (''Uint'', 14, 8, 8), (''UintPtr'', 15, 8, 8),
     (''Uint8'', 16, 1, 1), (''Uint8Ptr'', 17, 8, 8), (''Uint16'', 18, 2, 2), (''Uint16Ptr'', 19, 8, 8),
     (''Uint32'', 20, 4, 4), (''Uint32Ptr'', 21, 8, 8), (''Uint64'', 1, 8, 8), (''Uint64Ptr'', 22, 8, 8),
     (''Float32'', 23, 4, 4), (''Float32Ptr'', 24, 8, 8), (''Float64'', 25, 8, 8), (''Float64Ptr'', 26, 8, 8),
     (''Byte'', 16, 1, 1), (''BytePtr'', 17, 8, 8), (''ByteArray'', 27, 24, 8), (''String'', 28, 16, 8),
     (''NullStringPtr'', 29, 8, 8), (''NullInt16Ptr'', 30, 8, 8), (''NullInt32Ptr'', 31, 8, 8),
     (''NullInt64Ptr'', 32, 8, 8), (''NullBoolPtr'', 33, 8, 8), (''NullFloat64Ptr'', 34, 8, 8),
     (''JsonColumn'', 35, 8, 8)]"

definition simple_fields :: "struct_field list" where
  "simple_fields = layout 0 SimpleStruct"

definition simple_types :: "nat \<Rightarrow> go_type" where
  "simple_types t = (if t = 0 then StructPtr ''SimpleStruct'' simple_fields else NotStructPtr)"

definition simple_val :: go_val where
  "simple_val = \<lparr>v_type = 0, v_TableName = None\<rparr>"

lemma simple_sizes: "\<forall>(name, ty, sz, align) \<in> set SimpleStruct. 0 < sz \<and> 0 < align"
  by (simp add: SimpleStruct_def)

lemma simple_names:
  "distinct (map fst SimpleStruct)"
  "\<forall>s \<in> set (map fst SimpleStruct). s \<noteq> [] \<and> IsUpper (hd s) \<and> CHR ''_'' \<notin> set s"
  by (simp_all add: SimpleStruct_def IsUpper_def)

text \<open>\<open>SimpleStruct\<close> has all a struct needs, and its model has a column for each of its fields.\<close>

lemma simple_struct:
  "simple_types (v_type simple_val) = StructPtr ''SimpleStruct'' simple_fields"
  "distinct (map sf_Name simple_fields)" "distinct (map sf_Offset simple_fields)"
  "\<forall>sf \<in> set simple_fields. exported sf"
proof -
  show "simple_types (v_type simple_val) = StructPtr ''SimpleStruct'' simple_fields"
    by (simp add: simple_types_def simple_val_def)
  show "distinct (map sf_Name simple_fields)" by (simp add: simple_fields_def simple_names)
  show "distinct (map sf_Offset simple_fields)"
    using layout_increasing [OF simple_sizes] by (simp add: simple_fields_def)
  have "sf_Name sf \<in> set (map sf_Name simple_fields)" if "sf \<in> set simple_fields" for sf
    using that by simp
  then have "sf_Name sf \<in> set (map fst SimpleStruct)" if "sf \<in> set simple_fields" for sf
    using that unfolding simple_fields_def layout_fields by blast
  then show "\<forall>sf \<in> set simple_fields. exported sf"
    using simple_names(2) by (force simp: exported_def split: list.splits)
qed

lemma simple_model:
  obtains m where "parseModel simple_types simple_val = Inr m"
    and "map ColName (Fields m) = map (underscoreName \<circ> sf_Name) simple_fields" and "distinct (map ColName (Fields m))"
proof -
  have "\<forall>sf \<in> set simple_fields. sf_Tag sf = []" by (simp add: simple_fields_def)
  moreover have "\<forall>s \<in> set (map sf_Name simple_fields). s \<noteq> [] \<and> IsUpper (hd s) \<and> CHR ''_'' \<notin> set s"
    unfolding simple_fields_def layout_fields by (rule simple_names)
  ultimately show thesis
    using parseModel_untagged [of simple_types simple_val "''SimpleStruct''" simple_fields] simple_struct(1,2) that
    by blast
qed

subsection \<open>Its values\<close>

text \<open>
  The values of the fields: pointers, the \<open>sql.NullXXX\<close> structs with their flag, floats as they are written,
  and the user of the JSON column by name.
\<close>

datatype fixture_val = FBool bool | FInt int | FFloat string | FString string | FBytes string
  | FPtr fixture_val | FNull fixture_val bool | FJson string bool

definition NewSimpleStruct :: "64 word \<Rightarrow> (string \<times> fixture_val) list" where
  "NewSimpleStruct i =
    [(''Id'', FInt (uint i)), (''Bool'', FBool True), (''BoolPtr'', FPtr (FBool False)),
     (''Int'', FInt 12), (''IntPtr'', FPtr (FInt 13)), (''Int8'', FInt 8), (''Int8Ptr'', FPtr (FInt (-8))),
     (''Int16'', FInt 16), (''Int16Ptr'', FPtr (FInt (-16))), (''Int32'', FInt 32), (''Int32Ptr'', FPtr (FInt (-32))),
     (''Int64'', FInt 64), (''Int64Ptr'', FPtr (FInt (-64))), (''Uint'', FInt 14), (''UintPtr'', FPtr (FInt 15)),
     (''Uint8'', FInt 8), (''Uint8Ptr'', FPtr (FInt 18)), (''Uint16'', FInt 16), (''Uint16Ptr'', FPtr (FInt 116)),
     (''Uint32'', FInt 32), (''Uint32Ptr'', FPtr (FInt 132)), (''Uint64'', FInt 64), (''Uint64Ptr'', FPtr (FInt 164)),
     (''Float32'', FFloat ''3.2''), (''Float32Ptr'', FPtr (FFloat ''-3.2'')),
     (''Float64'', FFloat ''6.4''), (''Float64Ptr'', FPtr (FFloat ''-6.4'')),
     (''Byte'', FInt 8), (''BytePtr'', FPtr (FInt 18)), (''ByteArray'', FBytes ''hello''), (''String'', FString ''world''),
     (''NullStringPtr'', FPtr (FNull (FString ''null string'') True)), (''NullInt16Ptr'', FPtr (FNull (FInt 16) True)),
     (''NullInt32Ptr'', FPtr (FNull (FInt 32) True)), (''NullInt64Ptr'', FPtr (FNull (FInt 64) True)),
     (''NullBoolPtr'', FPtr (FNull (FBool True) True)), (''NullFloat64Ptr'', FPtr (FNull (FFloat ''6.4'') True)),
     (''JsonColumn'', FPtr (FJson ''Tom'' True))]"

text \<open>The struct in memory.\<close>

definition simple_row :: "64 word \<Rightarrow> fixture_val row_val" where
  "simple_row i = \<lparr>rv_go = simple_val, rv_struct =
     (\<lambda>a. VAny (the (map_of (zip (map sf_Offset simple_fields) (map snd (NewSimpleStruct i))) a)))\<rparr>"

lemma NewSimpleStruct_fields: "map fst (NewSimpleStruct i) = map sf_Name simple_fields"
  unfolding simple_fields_def layout_fields by (simp add: NewSimpleStruct_def SimpleStruct_def)

lemma simple_row_field:
  assumes "model_of simple_fields m" and "(g, x) \<in> set (NewSimpleStruct i)"
  shows "unsafe_Field m (rv_struct (simple_row i)) g = Inr (VAny x)" and "g \<in> GoName ` set (Fields m)"
proof -
  let ?xs = "NewSimpleStruct i"
  note found = assms(1) [unfolded model_of_def]
  have len: "length ?xs = length simple_fields" "length (Fields m) = length simple_fields"
    using NewSimpleStruct_fields [of i] found by (metis length_map)+
  from assms(2) obtain j where j: "j < length ?xs" "?xs ! j = (g, x)" by (auto simp: in_set_conv_nth)
  have name: "GoName (Fields m ! j) = g"
  proof -
    have "map GoName (Fields m) ! j = map fst ?xs ! j" using found NewSimpleStruct_fields [of i] by simp
    with j len show ?thesis by simp
  qed
  have offset: "Offset (Fields m ! j) = sf_Offset (simple_fields ! j)"
    using found j len by (metis nth_map)
  have "map_of (zip (map sf_Offset simple_fields) (map snd ?xs)) (map sf_Offset simple_fields ! j) = Some (map snd ?xs ! j)"
    using simple_struct(3) j len by (intro map_of_zip_nth) simp_all
  then have "rv_struct (simple_row i) (Offset (Fields m ! j)) = VAny x"
    using j len by (simp add: simple_row_def offset)
  moreover have "FieldMap m g = Some j" using found name j len by (auto simp: fields_found_def)
  ultimately show "unsafe_Field m (rv_struct (simple_row i)) g = Inr (VAny x)" by (simp add: unsafe_Field_def)
  show "g \<in> GoName ` set (Fields m)" using name j len by (metis imageI nth_mem)
qed

text \<open>
  What the integration tests check: \<open>NewSimpleStruct\<close>, inserted with all its fields and selected again, comes
  back with every field as it was, with both valuers and whatever the order of the table's columns.
\<close>

theorem SimpleStruct_roundtrip:
  assumes parsed: "parseModel simple_types simple_val = Inr m"
    and core: "c = OpenDB (parseModel simple_types) opts" "opts = [] \<or> opts = [DBUseReflectValuer simple_types zero]"
    and insert: "fst (Inserter_Build bq (insert_one c [] (simple_row i)) hp) = Inr (isql, args)"
    and select: "Build n sid (w_heap w) = (Inr q, h)" "rv_go new = simple_val"
      "set got = set (Fields m)" "distinct got"
      "answer q = Inr \<lparr>rs_next = True, rs_rows = row_of (map_of (zip (map ColName (Fields m)) args)) (map ColName got)\<rparr>"
    and x: "(g, x) \<in> set (NewSimpleStruct i)"
  shows "\<exists>mem. fst (Selector_Get n new c (db_session answer effect) sid w) = Some (Some mem, None) \<and>
    unsafe_Field m mem g = Inr (VAny x)"
proof -
  have v: "rv_go (simple_row i) = simple_val" by (simp add: simple_row_def)
  have mo: "model_of simple_fields m" by (rule parseModel_model_of [OF simple_struct(1,2) parsed])
  have cols: "distinct (map ColName (Fields m))" using simple_model parsed by (metis sum.inject(2))
  have all: "insert_fields m [] = Inr (Fields m)" by (simp add: insert_fields_def)
  note again = inserted_read_back [of simple_types "simple_row i" _ simple_fields m c opts zero "[]",
      OF _ _ simple_struct(2,3) cols simple_struct(4) core all _ insert select(1)]
  have types: "type_fields simple_types simple_val = simple_fields"
    using simple_struct(1) by (simp add: type_fields_def)
  have field: "co_field c m u g = unsafe_Field m (rv_struct u) g" if "rv_go u = simple_val" for u
    using core Field_agree [OF mo simple_struct(4)] that types by (auto simp: OpenDB_def DBUseReflectValuer_def)
  from again [where new = new and got = got and answer = answer and effect = effect] obtain mem where
    "fst (Selector_Get n new c (db_session answer effect) sid w) = Some (Some mem, None)"
    "co_field c m \<lparr>rv_go = simple_val, rv_struct = mem\<rparr> g =
      (if g \<in> GoName ` set got then co_field c m (simple_row i) g else co_field c m new g)"
    using simple_struct(1) parsed select(2-5) by (auto simp: v)
  with simple_row_field [OF mo x] select(3) field [of "simple_row i"] field [of "\<lparr>rv_go = simple_val, rv_struct = mem\<rparr>"]
  show ?thesis by (auto simp: v)
qed

end
