(* ===== verification/Spec2Isabelle.thy ===== *)
theory Spec2Isabelle
  imports Prelude Web_Router Web_Lookup Web_Router1 Web_Server
    Rpc_Message Rpc_Conn Rpc_Context Rpc_Server Rpc_Client Rpc_Invoke
    Mem_Cache Max_Cache Shutdown
    Orm_Model Orm_Builder Orm_Select Orm_Contract Orm_Balance Orm_Value Orm_Write Orm_Exec Orm_Tx
    Orm_Delete Orm_Model1 Orm_Select1 Orm_Value1 Mem_Trace Max_Drift Rpc_User Orm_Readback Orm_Session Orm_Json
    Orm_Once Shutdown_Callback Rpc_Start Sql_Suite Orm_Roundtrip Orm_Fixture
begin

text \<open>
  A verification development for the packages of \<open>myhomework\<close>: a web framework, a remote procedure
  call framework, two caches, a graceful shutdown and an object-relational mapper. The packages do not
  call each other; each is modelled by its own theories, over a common \<open>Prelude\<close> of results that may be
  errors (\<open>bind_result\<close>), of the string functions of Go and of lists.

  \<^bold>\<open>Conventions.\<close> A panic or an error is a value: \<open>Inl\<close> of an error datatype, or \<open>None\<close> for a panic of a
  handler. A struct is a record, a pointer that the code shares is an index into a list or a heap, and a
  method that writes to its receiver returns the new state. Bytes are \<open>8 word\<close>, the lengths and
  identifiers of a message \<open>32 word\<close>. Code that is not in the repository is an argument: the regular
  expressions, the serializers, the linked list of \<open>ekit\<close>, the driver of a database, the answer of
  \<open>reflect\<close> about a type. A lemma that is listed in the manifest carries its number in the text before it.

  \<^bold>\<open>Web framework\<close> (\<open>homework1/\<close>, \<open>homework2/\<close>).
  \<open>Web_Router\<close> is the route tree of \<open>homework2/route.go\<close> with \<open>addRoute\<close> and the functions that create
  children; its lemmas show that a registration extends the routing table by exactly one route and
  keeps the tree well formed. \<open>Web_Lookup\<close> is \<open>findRoute\<close>, \<open>findMdls\<close> and \<open>childOf\<close>: that a match is
  justified by the tree, that lookups never panic on a tree made by registrations, and that static
  routes stay found. \<open>Web_Router1\<close> is the router of \<open>homework1\<close>, which the router of \<open>homework2\<close> agrees
  with once middlewares are forgotten. \<open>Web_Server\<close> is \<open>server.go\<close> with \<open>serve\<close>, and compares the servers
  of both packages.

  \<^bold>\<open>Remote procedure calls\<close> (\<open>rpc/\<close>).
  \<open>Rpc_Message\<close> is \<open>message/request.go\<close> and \<open>response.go\<close>; its locale \<open>message_codec\<close> is what a client
  and a server need of a codec, and both codecs are interpretations of it; a decoder gets a slice with the
  spare bytes of its array, since Go bounds a slice expression by the capacity. \<open>Rpc_Conn\<close> is \<open>ReadMsg\<close> of
  \<open>tcp.go\<close> over a connection that delivers segments, \<open>Rpc_Context\<close> the context and the interfaces,
  \<open>Rpc_Server\<close> the server with its reflective call, \<open>Rpc_Client\<close> the stubs, \<open>doInvoke\<close> and \<open>send\<close>,
  and \<open>Rpc_Invoke\<close> the goroutines of \<open>Client.Invoke\<close> as an \<open>inductive\<close> step relation, with a \<open>doInvoke\<close> that may
  return, panic or never return and a context that may never end. The main facts
  are the round trips of both codecs, and that a remote call gives what the local call gives. \<open>Rpc_Start\<close>
  is the accept loop of \<open>Server.Start\<close> with the goroutines of the connections under any schedule; its locale
  \<open>conn_rule\<close> carries a fact about one connection over to the server, and is interpreted for the answers its
  client gets. A method of a service is a pure function here, so services that keep a state their
  clients share are outside this model. \<open>Rpc_User\<close>
  puts the parts together: the serializers of \<open>serialize/\<close> and the wrapper of \<open>compression/zstd\<close> around
  their codecs, and the service of \<open>user_service.go\<close> called through \<open>InitService\<close> with both serializers.

  \<^bold>\<open>Caches\<close> (\<open>homework_memory_limit/\<close>).
  \<open>Mem_Cache\<close> is \<open>memory_cache.go\<close>; the locale \<open>cache_contract\<close> says what a cache promises, with this
  one as its interpretation. \<open>Max_Cache\<close> is \<open>max_memory_cache.go\<close> on top of it, with the lock as a part
  of the state, so that a second lock is the error \<open>Deadlock\<close>. \<open>Mem_Trace\<close>
  refines histories of calls and sweeps to a store that only knows values and deadlines. \<open>Max_Drift\<close>
  follows the size counter over sequences of \<open>Set\<close>, and shows that what is stored has no bound.

  \<^bold>\<open>Graceful shutdown\<close> (\<open>homework_graceful_shutdown/service/shutdown.go\<close>).
  \<open>Shutdown\<close> is the process with its servers, wait group and callbacks as a step relation, with the
  order of the phases as an invariant, a measure that bounds every run, and the sharing of the loop
  variable by the goroutines of the callbacks. A server's \<open>Shutdown\<close> may end by its timeout, and a handler
  may see the reject flag later than it is written. \<open>Shutdown_Callback\<close> is the program of \<open>main.go\<close> and its
  callback, which returns and leaves no goroutine behind.

  \<^bold>\<open>Object-relational mapper\<close> (\<open>homework_subquery/\<close>).
  \<^item> \<open>Orm_Model\<close>: the registry of \<open>model/\<close>, from a Go type to a \<open>Model\<close>.
  \<^item> \<open>Orm_Builder\<close>: the expressions, tables and subqueries, and \<open>builder.go\<close>. An operation of the builder
    is a function of its text, its arguments and the heap of selectors and caches, and leaves what it
    has written when it fails.
  \<^item> \<open>Orm_Select\<close>: \<open>Selector\<close>, whose \<open>Build\<close> does not reset its builder. The fuel of \<open>Build\<close> is the depth
    of nested subqueries.
  \<^item> \<open>Orm_Contract\<close>: what every operation of the builder keeps, proved once in the locales \<open>sql_pairs\<close> and
    \<open>builder_contract\<close>. \<open>Orm_Balance\<close> interprets them for the number of placeholders and arguments, for
    the bound on that number which also holds with subqueries in expressions, and for the depth of
    subqueries, which gives that every fuel above a selector's rank is enough and that the fuel does
    not matter. \<open>Orm_Once\<close> counts exactly where subqueries stand in expressions, by the
    caches a build uses.
  \<^item> \<open>Orm_Value\<close>: the two valuers of \<open>internal/valuer\<close>, and that they agree where a conversion cannot tell
    the field from a new variable.
  \<^item> \<open>Orm_Write\<close>: \<open>Inserter\<close>, \<open>Updater\<close> and the dialects; \<open>writes\<close> is the exact text and arguments of an
    operation.
  \<^item> \<open>Orm_Exec\<close>: the handlers, the middleware chain and the \<open>prometheus\<close> middleware; the database is a session, a
    function of a query and the state of the world.
  \<^item> \<open>Orm_Tx\<close>: options, transactions and \<open>DoTx\<close>.
  \<^item> \<open>Orm_Session\<close>: a transaction as the session of a query, \<open>Open\<close>, \<open>MustNewDB\<close> and
    \<open>GetMulti\<close>; a \<open>Get\<close> in a transaction is the \<open>Get\<close> on its database until the transaction
    is over.
  \<^item> \<open>Orm_Json\<close>: the column type \<open>JsonColumn\<close>, with \<open>Scan\<close> and \<open>Value\<close>, and the row on which
    the two valuers differ because of it.
  \<^item> \<open>Orm_Roundtrip\<close>: the registry, \<open>Inserter\<close>, \<open>Get\<close> and the valuers together: what is inserted is read
    back. \<open>Orm_Fixture\<close> is the struct of the tests with its layout in memory, to which this applies.

  The earlier versions of the mapper are \<open>homework_delete/\<close> and \<open>homework_select/\<close>.
  \<^item> \<open>Orm_Delete\<close>: \<open>Deleter\<close> and \<open>Selector\<close> of \<open>homework_delete\<close>; a reader of conditions recovers from the
    text and the arguments of a statement the condition it was built from. \<open>Orm_Readback\<close> carries this
    over to the \<open>WHERE\<close> and \<open>HAVING\<close> of the selector of \<open>homework_subquery\<close>.
  \<^item> \<open>Orm_Model1\<close>: the registry of \<open>homework_select/model\<close>, which is that of \<open>homework_subquery/model\<close>
    with the order of the fields, their indices and their offsets forgotten.
  \<^item> \<open>Orm_Select1\<close>: \<open>Selector\<close> of \<open>homework_select\<close>, which builds what the later \<open>Selector\<close> builds as
    long as no aggregate has an alias in a condition.
  \<^item> \<open>Sql_Suite\<close>: the hand-written queries of \<open>homework_delete/no_orm.go\<close>, a test suite over a driver that
    keeps a table; it passes and can be repeated because of its clean-up.
  \<^item> \<open>Orm_Value1\<close>: the valuers and the options of \<open>homework_select\<close>; the valuers store what the later
    ones store.

  \<^bold>\<open>Fuel.\<close> \<open>Build\<close> (depth of subqueries, \<open>Build_fuel\<close>), and \<open>Wait\<close> (number of pings, \<open>Wait_returns\<close>). The
  other loops are structural recursion, or recursion on a measure.

  \<^bold>\<open>Not modelled.\<close> The listeners, sockets and connection pools, which are calls of libraries; the
  codecs of \<open>json\<close>, protobuf and zstd, which are arguments of the model; generated code; the stubs that
  only panic (\<open>GetMulti\<close> of a raw query, \<open>standardSQL\<close>); \<open>Close\<close> of a database; the cancellation of a
  transaction's context; the middlewares \<open>querylog\<close> and \<open>opentelemetry\<close>, whose packages name a field
  \<open>qc.builder\<close> that does not exist and do not compile; services that keep a state; embedded structs in the valuers; the texts of the errors of \<open>internal/errs\<close>.
\<close>

end
